(* ===== verification/Py_Prelude.thy ===== *)
theory Py_Prelude
  imports Main "HOL-Library.Word" "HOL-Library.Sublist"
begin

text \<open>
  Shared vocabulary of the development: the Python values the repository's scripts
  compute with, and the lemmas about them that every component uses.

  Strings are \<^typ>\<open>string\<close>: a \<^typ>\<open>char\<close> is a code point below 256.  Bytes are
  \<open>8 word\<close>.  Python integers are \<^typ>\<open>int\<close> or, where they count or index,
  \<^typ>\<open>nat\<close>.  An exception is a value of \<open>exn\<close>; a call that can raise returns
  \<open>exn + 'a\<close>.  The collection \<open>py_simps\<close> holds the rewrite rules on strings and lines.
\<close>

named_theorems py_simps

type_synonym byte = "8 word"

section \<open>Exceptions\<close>

datatype exn =
    AssertionError string
  | TimeoutError string
  | OSError string
  | ValueError string
  | KeyError string
  | RuntimeError string
  | ImportError string
  | ParseError string
  | BleTestError string
  | SystemExit string

type_synonym 'a result = "exn + 'a"

fun is_ok :: "'e + 'a \<Rightarrow> bool" where
  "is_ok (Inl e) = False"
| "is_ok (Inr x) = True"

definition bind_result :: "'e + 'a \<Rightarrow> ('a \<Rightarrow> 'e + 'b) \<Rightarrow> 'e + 'b" where
  "bind_result m f = (case m of Inl e \<Rightarrow> Inl e | Inr x \<Rightarrow> f x)"

lemma bind_result_simps [simp]:
  "bind_result (Inl e) f = Inl e"
  "bind_result (Inr x) f = f x"
  by (simp_all add: bind_result_def)

lemma bind_result_Inr_iff:
  "bind_result m f = Inr y \<longleftrightarrow> (\<exists>x. m = Inr x \<and> f x = Inr y)"
  by (cases m) auto

lemma bind_result_Inl_iff:
  "bind_result m f = Inl e \<longleftrightarrow> m = Inl e \<or> (\<exists>x. m = Inr x \<and> f x = Inl e)"
  by (cases m) auto

text \<open>A loop that applies a raising call to each element and stops at the first exception.\<close>

fun map_result :: "('a \<Rightarrow> 'e + 'b) \<Rightarrow> 'a list \<Rightarrow> 'e + 'b list" where
  "map_result f [] = Inr []"
| "map_result f (x # xs) =
     bind_result (f x) (\<lambda>y. bind_result (map_result f xs) (\<lambda>ys. Inr (y # ys)))"

lemma map_result_Inr:
  "(\<And>x. x \<in> set xs \<Longrightarrow> f x = Inr (g x)) \<Longrightarrow> map_result f xs = Inr (map g xs)"
  by (induction xs) auto

lemma map_result_length: "map_result f xs = Inr ys \<Longrightarrow> length ys = length xs"
  by (induction xs arbitrary: ys) (auto simp: bind_result_Inr_iff)

lemma map_result_append:
  "map_result f (xs @ ys) =
     bind_result (map_result f xs) (\<lambda>as. bind_result (map_result f ys) (\<lambda>bs. Inr (as @ bs)))"
  by (induction xs) (auto simp: bind_result_def split: sum.splits)

lemma map_result_nth:
  "map_result f xs = Inr ys \<Longrightarrow> i < length xs \<Longrightarrow> f (xs ! i) = Inr (ys ! i)"
proof (induction xs arbitrary: ys i)
  case Nil
  then show ?case by simp
next
  case (Cons x xs)
  then show ?case by (cases i) (auto simp: bind_result_Inr_iff)
qed

lemma map_result_Inr_iff: "map_result f xs = Inr ys \<longleftrightarrow> list_all2 (\<lambda>x y. f x = Inr y) xs ys"
  by (induction xs arbitrary: ys) (auto simp: bind_result_Inr_iff list_all2_Cons1)

section \<open>Strings\<close>

definition lf :: char where "lf = CHR 0x0A"
definition cr :: char where "cr = CHR 0x0D"

text \<open>\<open>str.isspace\<close> and the line boundaries of \<open>str.splitlines\<close> below code point 256.\<close>

definition py_space :: "char \<Rightarrow> bool" where
  "py_space c = (let n = (of_char c :: nat) in
     9 \<le> n \<and> n \<le> 13 \<or> 28 \<le> n \<and> n \<le> 32 \<or> n = 133 \<or> n = 160)"

definition line_break :: "char \<Rightarrow> bool" where
  "line_break c = (let n = (of_char c :: nat) in
     10 \<le> n \<and> n \<le> 13 \<or> 28 \<le> n \<and> n \<le> 30 \<or> n = 133)"

lemma line_break_lf [simp]: "line_break lf"
  by (simp add: line_break_def lf_def)

lemma line_break_cr [simp]: "line_break cr"
  by (simp add: line_break_def cr_def)

lemma lf_neq_cr [simp]: "lf \<noteq> cr" "cr \<noteq> lf"
  by (simp_all add: lf_def cr_def)

fun splitlines :: "string \<Rightarrow> string list" where
  "splitlines [] = []"
| "splitlines (c # cs) =
     (if c = cr \<and> cs \<noteq> [] \<and> hd cs = lf then [] # splitlines (tl cs)
      else if line_break c then [] # splitlines cs
      else (case splitlines cs of [] \<Rightarrow> [[c]] | l # ls \<Rightarrow> (c # l) # ls))"

definition py_lstrip :: "string \<Rightarrow> string" where
  "py_lstrip s = dropWhile py_space s"

definition py_rstrip :: "string \<Rightarrow> string" where
  "py_rstrip s = rev (dropWhile py_space (rev s))"

definition py_strip :: "string \<Rightarrow> string" where
  "py_strip s = py_rstrip (py_lstrip s)"

text \<open>\<open>needle in hay\<close>.\<close>

definition py_in :: "string \<Rightarrow> string \<Rightarrow> bool" where
  "py_in needle hay = sublist needle hay"

fun py_join :: "string \<Rightarrow> string list \<Rightarrow> string" where
  "py_join sep [] = []"
| "py_join sep [x] = x"
| "py_join sep (x # y # ys) = x @ sep @ py_join sep (y # ys)"


lemma splitlines_no_break:
  "list_all (\<lambda>c. \<not> line_break c) l \<Longrightarrow> l \<noteq> [] \<Longrightarrow> splitlines l = [l]"
proof (induction l)
  case Nil
  then show ?case by simp
next
  case (Cons c cs)
  then have "c \<noteq> cr" by auto
  with Cons show ?case by (cases cs) auto
qed

lemma splitlines_line [py_simps]:
  "list_all (\<lambda>c. \<not> line_break c) l \<Longrightarrow> splitlines (l @ lf # rest) = l # splitlines rest"
proof (induction l)
  case Nil
  then show ?case by simp
next
  case (Cons c cs)
  then have "c \<noteq> cr" by auto
  with Cons show ?case by simp
qed

text \<open>A text file written as lines with a final newline reads back as those lines.\<close>

definition unlines :: "string list \<Rightarrow> string" where
  "unlines ls = concat (map (\<lambda>l. l @ [lf]) ls)"

lemma unlines_simps [simp]:
  "unlines [] = []"
  "unlines (l # ls) = l @ lf # unlines ls"
  by (simp_all add: unlines_def)

lemma unlines_append [simp]: "unlines (as @ bs) = unlines as @ unlines bs"
  by (simp add: unlines_def)

lemma py_join_unlines: "ls \<noteq> [] \<Longrightarrow> py_join [lf] ls @ [lf] = unlines ls"
  by (induction "[lf]" ls rule: py_join.induct) auto

lemma splitlines_unlines [py_simps]:
  "list_all (list_all (\<lambda>c. \<not> line_break c)) ls \<Longrightarrow> splitlines (unlines ls) = ls"
  by (induction ls) (auto simp: splitlines_line)

lemma py_strip_id [py_simps]:
  assumes "s \<noteq> []" and "\<not> py_space (hd s)" and "\<not> py_space (last s)"
  shows "py_strip s = s"
proof -
  from assms(1,2) have l: "py_lstrip s = s"
    by (cases s) (auto simp: py_lstrip_def)
  from assms(1,3) have "dropWhile py_space (rev s) = rev s"
    by (cases "rev s") (auto simp: last_rev hd_rev[symmetric] dest: arg_cong[of _ _ rev])
  with l show ?thesis by (simp add: py_strip_def py_rstrip_def)
qed

lemma py_lstrip_hd: "py_lstrip s \<noteq> [] \<Longrightarrow> \<not> py_space (hd (py_lstrip s))"
  by (simp add: py_lstrip_def hd_dropWhile dropWhile_eq_Nil_conv)

lemma py_strip_Nil [simp]: "py_strip [] = []"
  by (simp add: py_strip_def py_lstrip_def py_rstrip_def)

lemma py_rstrip_Cons:
  "\<not> py_space c \<Longrightarrow> py_rstrip (c # s) = c # py_rstrip s"
  by (simp add: py_rstrip_def dropWhile_append)

lemma py_strip_Cons [py_simps]:
  "\<not> py_space c \<Longrightarrow> py_strip (c # s) = c # py_rstrip s"
  by (simp add: py_strip_def py_lstrip_def py_rstrip_Cons)

lemma py_rstrip_spaces [simp]: "list_all py_space s \<Longrightarrow> py_rstrip s = []"
  by (simp add: py_rstrip_def list_all_iff)

lemma set_py_rstrip: "set (py_rstrip s) \<subseteq> set s"
  by (auto simp: py_rstrip_def dest: set_dropWhileD)

lemma set_py_strip: "set (py_strip s) \<subseteq> set s"
  by (auto simp: py_strip_def py_lstrip_def dest!: subsetD[OF set_py_rstrip] dest: set_dropWhileD)

section \<open>Numerals as text\<close>

definition hex_upper :: string where "hex_upper = ''0123456789ABCDEF''"

definition hex_char :: "nat \<Rightarrow> char" where "hex_char n = hex_upper ! (n mod 16)"

text \<open>The value of a hexadecimal digit in either case, as \<open>bytes.fromhex\<close> reads it.\<close>

definition hex_val :: "char \<Rightarrow> nat option" where
  "hex_val c = (let n = (of_char c :: nat) in
     if 48 \<le> n \<and> n \<le> 57 then Some (n - 48)
     else if 65 \<le> n \<and> n \<le> 70 then Some (n - 55)
     else if 97 \<le> n \<and> n \<le> 102 then Some (n - 87)
     else None)"

lemma less_16_cases: "(n::nat) < 16 \<Longrightarrow> n \<in> {0, 1, 2, 3, 4, 5, 6, 7, 8, 9, 10, 11, 12, 13, 14, 15}"
  unfolding insert_iff empty_iff by arith

lemma hex_val_hex_char [simp]: "n < 16 \<Longrightarrow> hex_val (hex_char n) = Some n"
  by (drule less_16_cases) (auto simp: hex_val_def hex_char_def hex_upper_def)

lemma hex_char_not_space [simp]: "\<not> py_space (hex_char n)"
proof -
  have "n mod 16 < 16" by simp
  then show ?thesis
    by (drule_tac less_16_cases) (auto simp: py_space_def hex_char_def hex_upper_def)
qed

lemma hex_char_not_break [simp]: "\<not> line_break (hex_char n)"
proof -
  have "n mod 16 < 16" by simp
  then show ?thesis
    by (drule_tac less_16_cases) (auto simp: line_break_def hex_char_def hex_upper_def)
qed

lemma hex_char_neq: "hex_char n \<noteq> CHR ''#''" "hex_char n \<noteq> CHR ''x''" "hex_char n \<noteq> CHR '',''"
proof -
  have "n mod 16 < 16" by simp
  then show "hex_char n \<noteq> CHR ''#''" "hex_char n \<noteq> CHR ''x''" "hex_char n \<noteq> CHR '',''"
    by (drule_tac less_16_cases, auto simp: hex_char_def hex_upper_def)+
qed

definition hex_byte :: "byte \<Rightarrow> string" where
  "hex_byte b = [hex_char (unat b div 16), hex_char (unat b mod 16)]"

lemma unat_byte_less [simp]: "unat (b :: byte) < 256"
  by (rule order_less_le_trans[OF unsigned_less]) simp

lemma hex_byte_halves: "unat (b :: byte) div 16 < 16" "unat (b :: byte) mod 16 < 16"
  using unat_byte_less[of b] by (simp_all add: less_mult_imp_div_less)

lemma hex_byte_value [simp]: "word_of_nat (unat b div 16 * 16 + unat b mod 16) = (b :: byte)"
  by simp

fun dec_of_nat :: "nat \<Rightarrow> string" where
  "dec_of_nat n = (if n < 10 then [char_of (48 + n)]
                   else dec_of_nat (n div 10) @ [char_of (48 + n mod 10)])"

declare dec_of_nat.simps [simp del]

definition dec_digit :: "char \<Rightarrow> nat" where
  "dec_digit c = of_char c - 48"

definition nat_of_dec :: "string \<Rightarrow> nat" where
  "nat_of_dec s = foldl (\<lambda>n c. n * 10 + dec_digit c) 0 s"

lemma nat_of_dec_of_nat [simp]: "nat_of_dec (dec_of_nat n) = n"
proof (induction n rule: dec_of_nat.induct)
  case (1 n)
  show ?case
  proof (cases "n < 10")
    case True
    then show ?thesis
      by (simp add: dec_of_nat.simps[of n] nat_of_dec_def dec_digit_def)
  next
    case False
    with 1 have "nat_of_dec (dec_of_nat (n div 10)) = n div 10" by simp
    with False show ?thesis
      by (simp add: dec_of_nat.simps[of n] nat_of_dec_def dec_digit_def)
  qed
qed

lemma dec_of_nat_inject [simp]: "dec_of_nat m = dec_of_nat n \<longleftrightarrow> m = n"
  by (metis nat_of_dec_of_nat)

lemma dec_of_nat_digits: "c \<in> set (dec_of_nat n) \<Longrightarrow> 48 \<le> (of_char c :: nat) \<and> of_char c \<le> (57 :: nat)"
proof (induction n rule: dec_of_nat.induct)
  case (1 n)
  then show ?case
    by (cases "n < 10") (auto simp: dec_of_nat.simps[of n])
qed

section \<open>Splitting and paths\<close>

text \<open>\<open>s.split(c)\<close> for a one-character separator; never empty.\<close>

fun split_char :: "char \<Rightarrow> string \<Rightarrow> string list" where
  "split_char c [] = [[]]"
| "split_char c (x # xs) =
     (if x = c then [] # split_char c xs
      else (case split_char c xs of [] \<Rightarrow> [[x]] | w # ws \<Rightarrow> (x # w) # ws))"

lemma split_char_nonempty [simp]: "split_char c s \<noteq> []"
  by (induction s) (auto split: list.splits)

lemma split_char_simple: "c \<notin> set w \<Longrightarrow> split_char c w = [w]"
  by (induction w) auto

lemma split_char_append:
  "c \<notin> set w \<Longrightarrow> split_char c (w @ c # s) = w # split_char c s"
  by (induction w) auto

lemma split_char_join:
  assumes "ws \<noteq> []" and "\<forall>w \<in> set ws. c \<notin> set w"
  shows "split_char c (py_join [c] ws) = ws"
  using assms
proof (induction "[c]" ws rule: py_join.induct)
  case (2 x)
  then show ?case by (simp add: split_char_simple)
next
  case (3 x y ys)
  then show ?case using split_char_append[of c x "py_join [c] (y # ys)"] by auto
qed simp

lemma split_char_append_full:
  "split_char c (a @ c # b) = split_char c a @ split_char c b"
  by (induction a) (auto split: list.splits)

lemma py_join_Cons: "ws \<noteq> [] \<Longrightarrow> py_join sep (w # ws) = w @ sep @ py_join sep ws"
  by (cases ws) auto

lemma join_split_char [simp]: "py_join [c] (split_char c s) = s"
proof (induction s)
  case (Cons x xs)
  show ?case
  proof (cases "x = c")
    case True
    with Cons show ?thesis by (simp add: py_join_Cons)
  next
    case False
    obtain w ws where w: "split_char c xs = w # ws" by (cases "split_char c xs") auto
    with Cons False show ?thesis by (cases ws) auto
  qed
qed simp

text \<open>
  A \<open>Path\<close> is its normalised text (no doubled or trailing slash).  \<open>path_join\<close> is the operator
  \<open>/\<close>; \<open>path_parts\<close> are the components that the order of paths compares.
\<close>

definition path_join :: "string \<Rightarrow> string \<Rightarrow> string" where
  "path_join p q =
     (if q = [] \<or> q = ''.'' then p
      else if hd q = CHR ''/'' then q
      else if p = ''.'' then q
      else if p = ''/'' then ''/'' @ q
      else p @ ''/'' @ q)"

definition path_parts :: "string \<Rightarrow> string list" where
  "path_parts p = split_char (CHR ''/'') p"

section \<open>\<open>hex\<close>\<close>

definition hex_lower :: string where "hex_lower = ''0123456789abcdef''"

fun hex_of_nat :: "nat \<Rightarrow> string" where
  "hex_of_nat n = (if n < 16 then [hex_lower ! n]
                   else hex_of_nat (n div 16) @ [hex_lower ! (n mod 16)])"

declare hex_of_nat.simps [simp del]

definition nat_of_hex :: "string \<Rightarrow> nat" where
  "nat_of_hex s = foldl (\<lambda>n c. n * 16 + (case hex_val c of None \<Rightarrow> 0 | Some d \<Rightarrow> d)) 0 s"

lemma hex_val_lower [simp]: "n < 16 \<Longrightarrow> hex_val (hex_lower ! n) = Some n"
  by (drule less_16_cases) (auto simp: hex_val_def hex_lower_def)

lemma nat_of_hex_of_nat [simp]: "nat_of_hex (hex_of_nat n) = n"
proof (induction n rule: hex_of_nat.induct)
  case (1 n)
  show ?case
  proof (cases "n < 16")
    case True
    then show ?thesis by (simp add: hex_of_nat.simps[of n] nat_of_hex_def)
  next
    case False
    with 1 have "nat_of_hex (hex_of_nat (n div 16)) = n div 16" by simp
    with False show ?thesis by (simp add: hex_of_nat.simps[of n] nat_of_hex_def)
  qed
qed

definition py_hex :: "int \<Rightarrow> string" where
  "py_hex i = (if i < 0 then ''-0x'' @ hex_of_nat (nat (- i)) else ''0x'' @ hex_of_nat (nat i))"

text \<open>\<open>int(s, 0)\<close> on the texts that \<open>hex\<close> writes.\<close>

definition int_of_hex :: "string \<Rightarrow> int" where
  "int_of_hex s = (if take 1 s = ''-'' then - int (nat_of_hex (drop 3 s)) else int (nat_of_hex (drop 2 s)))"

lemma int_of_py_hex [simp]: "int_of_hex (py_hex i) = i"
  by (simp add: int_of_hex_def py_hex_def)

section \<open>\<open>str.replace\<close>\<close>

text \<open>Every non-overlapping occurrence from the left; the text searched for is not empty.\<close>

function py_replace :: "string \<Rightarrow> string \<Rightarrow> string \<Rightarrow> string" where
  "py_replace old new [] = []"
| "py_replace old new (c # cs) =
     (if prefix old (c # cs) then new @ py_replace old new (drop (length old - 1) cs)
      else c # py_replace old new cs)"
  by pat_completeness auto
termination by (relation "measure (\<lambda>(_, _, s). length s)") auto

lemma py_replace_absent: "\<not> py_in old s \<Longrightarrow> old \<noteq> [] \<Longrightarrow> py_replace old new s = s"
proof (induction old new s rule: py_replace.induct)
  case (2 old new c cs)
  have "\<not> prefix old (c # cs)"
    using "2.prems"(1) prefix_imp_sublist unfolding py_in_def by blast
  moreover have "\<not> py_in old cs"
    using "2.prems"(1) unfolding py_in_def by (meson sublist_Cons_right)
  ultimately show ?case using 2 by simp
qed simp

definition path_parent :: "string \<Rightarrow> string" where
  "path_parent p = (let ws = path_parts p in
     if length ws \<le> 1 then ''.'' else if length ws = 2 \<and> hd ws = [] then ''/''
     else py_join ''/'' (butlast ws))"

definition path_name :: "string \<Rightarrow> string" where
  "path_name p = last (path_parts p)"

text \<open>The truth value of an optional text.\<close>

definition truthy :: "string option \<Rightarrow> bool" where
  "truthy v = (case v of None \<Rightarrow> False | Some s \<Rightarrow> s \<noteq> [])"

lemma truthy_simps [simp]: "truthy None = False" "truthy (Some s) = (s \<noteq> [])"
  by (simp_all add: truthy_def)

end
