(* ===== verification/Rpc_Framing.thy ===== *)
theory Rpc_Framing
  imports Py_Prelude
begin

text \<open>
  The Studio RPC transport of \<open>scripts/lib/renode/rpc_client.py\<close>: the escaping of
  \<open>frame\<close>, the receive state machine of \<open>RpcSocket.read_frame\<close>, the byte source
  \<open>RpcSocket._next_byte\<close> and the connection set-up \<open>RpcSocket._connect\<close>.

  The world a call runs in is a script: \<open>clock_reads\<close> lists the results of the successive
  \<open>time.monotonic()\<close> calls and \<open>arrivals\<close> those of the successive \<open>recv\<close> calls.  A call
  that outlives its script is \<open>Ran_out\<close>; every other behaviour is \<open>Returned\<close> or \<open>Raised\<close>.
\<close>

section \<open>Framing\<close>

definition SOF :: byte where "SOF = 0xAB"
definition ESC :: byte where "ESC = 0xAC"
definition EOF :: byte where "EOF = 0xAD"
definition SPECIAL :: "byte set" where "SPECIAL = {SOF, ESC, EOF}"

lemma special_distinct [simp]:
  "SOF \<noteq> ESC" "SOF \<noteq> EOF" "ESC \<noteq> EOF" "ESC \<noteq> SOF" "EOF \<noteq> SOF" "EOF \<noteq> ESC"
  by (simp_all add: SOF_def ESC_def EOF_def)

lemma special_member [simp]: "SOF \<in> SPECIAL" "ESC \<in> SPECIAL" "EOF \<in> SPECIAL"
  by (simp_all add: SPECIAL_def)

fun escape_payload :: "byte list \<Rightarrow> byte list" where
  "escape_payload [] = []"
| "escape_payload (b # bs) = (if b \<in> SPECIAL then [ESC, b] else [b]) @ escape_payload bs"

definition frame :: "byte list \<Rightarrow> byte list" where
  "frame payload = [SOF] @ escape_payload payload @ [EOF]"

lemma frame_nonempty [simp]: "frame p \<noteq> []"
  by (simp add: frame_def)

lemma length_escape_payload: "length (escape_payload p) \<le> 2 * length p"
  by (induction p) auto

text \<open>The local variables of \<open>read_frame\<close>, and one iteration of its loop body on a byte.\<close>

record rx_state =
  in_frame :: bool
  escaped :: bool
  payload :: "byte list"

definition rx_start :: rx_state where
  "rx_start = \<lparr>in_frame = False, escaped = False, payload = []\<rparr>"

datatype rx_out = More rx_state | Done "byte list"

definition feed :: "rx_state \<Rightarrow> byte \<Rightarrow> rx_out" where
  "feed st b =
     (if \<not> in_frame st then
        (if b = SOF then More (st\<lparr>in_frame := True, payload := []\<rparr>) else More st)
      else if escaped st then More (st\<lparr>payload := payload st @ [b], escaped := False\<rparr>)
      else if b = ESC then More (st\<lparr>escaped := True\<rparr>)
      else if b = EOF then Done (payload st)
      else if b = SOF then More (st\<lparr>payload := []\<rparr>)
      else More (st\<lparr>payload := payload st @ [b]\<rparr>))"

text \<open>
  The abstract receiver: the first complete frame of a byte stream, with what follows it.
\<close>

fun decode_from :: "rx_state \<Rightarrow> byte list \<Rightarrow> (byte list \<times> byte list) option" where
  "decode_from st [] = None"
| "decode_from st (b # bs) =
     (case feed st b of Done p \<Rightarrow> Some (p, bs) | More st' \<Rightarrow> decode_from st' bs)"

definition decode :: "byte list \<Rightarrow> (byte list \<times> byte list) option" where
  "decode bs = decode_from rx_start bs"

lemma decode_from_escape:
  "in_frame st \<Longrightarrow> \<not> escaped st \<Longrightarrow>
   decode_from st (escape_payload q @ rest) = decode_from (st\<lparr>payload := payload st @ q\<rparr>) rest"
proof (induction q arbitrary: st)
  case Nil
  then show ?case by simp
next
  case (Cons b q)
  then show ?case by (cases st) (auto simp: feed_def SPECIAL_def)
qed

lemma decode_from_junk:
  "\<not> in_frame st \<Longrightarrow> SOF \<notin> set js \<Longrightarrow> decode_from st (js @ bs) = decode_from st bs"
  by (induction js) (auto simp: feed_def)

lemma decode_frame: "decode (frame p @ rest) = Some (p, rest)"
  by (simp add: decode_def frame_def feed_def rx_start_def decode_from_escape)

text \<open>
  A receiver that is in the middle of a frame (not right after an escape) when a new frame
  starts drops the partial payload and delivers the new frame.
\<close>

lemma decode_from_resync:
  "in_frame st \<Longrightarrow> \<not> escaped st \<Longrightarrow> decode_from st (frame p @ rest) = Some (p, rest)"
  by (simp add: frame_def feed_def decode_from_escape)

lemma decode_suffix:
  "decode_from st bs = Some (p, rest) \<Longrightarrow> \<exists>used. bs = used @ rest \<and> used \<noteq> [] \<and> last used = EOF"
proof (induction bs arbitrary: st)
  case Nil
  then show ?case by simp
next
  case (Cons b bs)
  show ?case
  proof (cases "feed st b")
    case (Done q)
    with Cons.prems have "b = EOF" "rest = bs"
      by (auto simp: feed_def split: if_splits)
    then show ?thesis by (intro exI[of _ "[b]"]) simp
  next
    case (More st')
    with Cons.prems have "decode_from st' bs = Some (p, rest)" by simp
    from Cons.IH[OF this] obtain used
      where "bs = used @ rest" "used \<noteq> []" "last used = EOF" by blast
    then show ?thesis by (intro exI[of _ "b # used"]) simp
  qed
qed

section \<open>The interface of a framed codec\<close>

text \<open>
  What every user of the transport relies on: a decoder that takes back the first encoded
  message of a stream.  Messages then cannot be confused, and a stream of messages decodes
  to exactly those messages in order.
\<close>

fun take_messages :: "('b list \<Rightarrow> ('p \<times> 'b list) option) \<Rightarrow> nat \<Rightarrow> 'b list \<Rightarrow> ('p list \<times> 'b list) option"
where
  "take_messages dec 0 bs = Some ([], bs)"
| "take_messages dec (Suc n) bs =
     (case dec bs of None \<Rightarrow> None
      | Some (p, rest) \<Rightarrow> map_option (\<lambda>(ps, r). (p # ps, r)) (take_messages dec n rest))"

locale framed_codec =
  fixes enc :: "'p \<Rightarrow> 'b list"
    and dec :: "'b list \<Rightarrow> ('p \<times> 'b list) option"
  assumes dec_enc: "dec (enc p @ rest) = Some (p, rest)"
begin

lemma prefix_free: "enc p @ r = enc q @ s \<Longrightarrow> p = q \<and> r = s"
  by (metis dec_enc option.inject prod.inject)

lemma enc_inject: "enc p = enc q \<longleftrightarrow> p = q"
  by (metis dec_enc option.inject prod.inject)

lemma take_messages_concat:
  "take_messages dec (length ps) (concat (map enc ps) @ rest) = Some (ps, rest)"
  by (induction ps) (simp_all add: dec_enc)

end

text \<open>A codec that also finds the next message after bytes that cannot start one.\<close>

locale resync_codec = framed_codec +
  fixes starts :: "'b \<Rightarrow> bool"
  assumes dec_skip: "list_all (\<lambda>b. \<not> starts b) js \<Longrightarrow> dec (js @ bs) = dec bs"
begin

lemma dec_after_junk: "list_all (\<lambda>b. \<not> starts b) js \<Longrightarrow> dec (js @ enc p @ rest) = Some (p, rest)"
  by (simp add: dec_skip dec_enc)

lemma take_messages_junk:
  "list_all (\<lambda>(js, p). list_all (\<lambda>b. \<not> starts b) js) jps \<Longrightarrow>
   take_messages dec (length jps) (concat (map (\<lambda>(js, p). js @ enc p) jps) @ rest)
     = Some (map snd jps, rest)"
  by (induction jps) (auto simp: dec_after_junk)

end

interpretation studio: resync_codec frame decode "\<lambda>b. b = SOF"
proof unfold_locales
  show "decode (frame p @ rest) = Some (p, rest)" for p rest
    by (rule decode_frame)
  show "list_all (\<lambda>b. b \<noteq> SOF) js \<Longrightarrow> decode (js @ bs) = decode bs" for js bs
    unfolding decode_def by (rule decode_from_junk) (auto simp: rx_start_def list_all_iff)
qed


section \<open>The socket client\<close>

datatype recv = Chunk "byte list" | Recv_timeout | Recv_error

datatype 'a reply = Ran_out | Raised exn | Returned 'a

record conn =
  sock_open :: bool
  rx :: "byte list"
  tx :: "byte list"
  clock_reads :: "int list"
  arrivals :: "recv list"

text \<open>
  \<open>_next_byte\<close>: the buffered byte, else the bytes of the next \<open>recv\<close>; \<open>None\<close> at the
  deadline, on a socket error and on an empty chunk (the peer closed the connection).
\<close>

function next_byte :: "int \<Rightarrow> conn \<Rightarrow> (byte option \<times> conn) reply" where
  "next_byte deadline c =
     (case rx c of
        b # bs \<Rightarrow> Returned (Some b, c\<lparr>rx := bs\<rparr>)
      | [] \<Rightarrow>
         (case clock_reads c of
            [] \<Rightarrow> Ran_out
          | t # ts \<Rightarrow>
             if t \<ge> deadline then Returned (None, c\<lparr>clock_reads := ts\<rparr>)
             else if \<not> sock_open c then Raised (AssertionError ''socket closed'')
             else (case arrivals c of
                [] \<Rightarrow> Ran_out
              | Recv_timeout # rs \<Rightarrow> next_byte deadline (c\<lparr>clock_reads := ts, arrivals := rs\<rparr>)
              | Recv_error # rs \<Rightarrow> Returned (None, c\<lparr>clock_reads := ts, arrivals := rs\<rparr>)
              | Chunk bs # rs \<Rightarrow>
                  if bs = [] then Returned (None, c\<lparr>clock_reads := ts, arrivals := rs\<rparr>)
                  else next_byte deadline (c\<lparr>clock_reads := ts, arrivals := rs, rx := rx c @ bs\<rparr>))))"
  by pat_completeness auto
termination
  by (relation "measure (\<lambda>(_, c). length (clock_reads c))") auto

declare next_byte.simps [simp del]

text \<open>The situations \<open>next_byte\<close> distinguishes, and its result in each.\<close>

lemma next_byte_eqs:
  "rx c = b # bs \<Longrightarrow> next_byte d c = Returned (Some b, c\<lparr>rx := bs\<rparr>)"
  "rx c = [] \<Longrightarrow> clock_reads c = [] \<Longrightarrow> next_byte d c = Ran_out"
  "rx c = [] \<Longrightarrow> clock_reads c = t # ts \<Longrightarrow> d \<le> t \<Longrightarrow>
     next_byte d c = Returned (None, c\<lparr>clock_reads := ts\<rparr>)"
  "rx c = [] \<Longrightarrow> clock_reads c = t # ts \<Longrightarrow> t < d \<Longrightarrow> \<not> sock_open c \<Longrightarrow>
     next_byte d c = Raised (AssertionError ''socket closed'')"
  "rx c = [] \<Longrightarrow> clock_reads c = t # ts \<Longrightarrow> t < d \<Longrightarrow> sock_open c \<Longrightarrow> arrivals c = [] \<Longrightarrow>
     next_byte d c = Ran_out"
  "rx c = [] \<Longrightarrow> clock_reads c = t # ts \<Longrightarrow> t < d \<Longrightarrow> sock_open c \<Longrightarrow>
     arrivals c = Recv_timeout # rs \<Longrightarrow>
     next_byte d c = next_byte d (c\<lparr>clock_reads := ts, arrivals := rs\<rparr>)"
  "rx c = [] \<Longrightarrow> clock_reads c = t # ts \<Longrightarrow> t < d \<Longrightarrow> sock_open c \<Longrightarrow>
     arrivals c = Recv_error # rs \<Longrightarrow>
     next_byte d c = Returned (None, c\<lparr>clock_reads := ts, arrivals := rs\<rparr>)"
  "rx c = [] \<Longrightarrow> clock_reads c = t # ts \<Longrightarrow> t < d \<Longrightarrow> sock_open c \<Longrightarrow>
     arrivals c = Chunk [] # rs \<Longrightarrow>
     next_byte d c = Returned (None, c\<lparr>clock_reads := ts, arrivals := rs\<rparr>)"
  "rx c = [] \<Longrightarrow> clock_reads c = t # ts \<Longrightarrow> t < d \<Longrightarrow> sock_open c \<Longrightarrow>
     arrivals c = Chunk (b # bs) # rs \<Longrightarrow>
     next_byte d c = Returned (Some b, c\<lparr>clock_reads := ts, arrivals := rs, rx := bs\<rparr>)"
  by (subst next_byte.simps, simp)+

lemma next_byte_cases:
  obtains (buffered) b bs where "rx c = b # bs"
  | (no_clock) "rx c = []" "clock_reads c = []"
  | (late) t ts where "rx c = []" "clock_reads c = t # ts" "d \<le> t"
  | (closed) t ts where "rx c = []" "clock_reads c = t # ts" "t < d" "\<not> sock_open c"
  | (no_data) t ts where "rx c = []" "clock_reads c = t # ts" "t < d" "sock_open c" "arrivals c = []"
  | (idle) t ts rs where "rx c = []" "clock_reads c = t # ts" "t < d" "sock_open c"
      "arrivals c = Recv_timeout # rs"
  | (error) t ts rs where "rx c = []" "clock_reads c = t # ts" "t < d" "sock_open c"
      "arrivals c = Recv_error # rs"
  | (eof) t ts rs where "rx c = []" "clock_reads c = t # ts" "t < d" "sock_open c"
      "arrivals c = Chunk [] # rs"
  | (data) t ts b bs rs where "rx c = []" "clock_reads c = t # ts" "t < d" "sock_open c"
      "arrivals c = Chunk (b # bs) # rs"
  by (metis list.exhaust recv.exhaust not_le)

lemma next_byte_clock:
  "next_byte d c = Returned (b, c') \<Longrightarrow> length (clock_reads c') \<le> length (clock_reads c)"
proof (induction "length (clock_reads c)" arbitrary: c rule: less_induct)
  case less
  show ?case
  proof (cases rule: next_byte_cases[where c = c and d = d])
    case (idle t ts rs)
    then show ?thesis
      using less.prems less.hyps[of "c\<lparr>clock_reads := ts, arrivals := rs\<rparr>"]
      by (simp add: next_byte_eqs(6)[OF idle])
  qed (use less.prems in \<open>auto simp: next_byte_eqs\<close>)
qed

text \<open>\<open>read_frame\<close>: the loop over bytes, with its three local variables in \<open>st\<close>.\<close>

function read_loop :: "int \<Rightarrow> rx_state \<Rightarrow> conn \<Rightarrow> (byte list option \<times> conn) reply" where
  "read_loop deadline st c =
     (case clock_reads c of
        [] \<Rightarrow> Ran_out
      | t # ts \<Rightarrow>
         if \<not> t < deadline then Returned (None, c\<lparr>clock_reads := ts\<rparr>)
         else (case next_byte deadline (c\<lparr>clock_reads := ts\<rparr>) of
            Ran_out \<Rightarrow> Ran_out
          | Raised e \<Rightarrow> Raised e
          | Returned (None, c') \<Rightarrow> read_loop deadline st c'
          | Returned (Some b, c') \<Rightarrow>
             (case feed st b of
                Done p \<Rightarrow> Returned (Some p, c')
              | More st' \<Rightarrow> read_loop deadline st' c')))"
  by pat_completeness auto
termination
proof (relation "measure (\<lambda>(_, _, c). length (clock_reads c))")
qed (auto dest!: next_byte_clock)

declare read_loop.simps [simp del]

definition read_frame :: "int \<Rightarrow> conn \<Rightarrow> (byte list option \<times> conn) reply" where
  "read_frame timeout c =
     (case clock_reads c of
        [] \<Rightarrow> Ran_out
      | now # ts \<Rightarrow> read_loop (now + timeout) rx_start (c\<lparr>clock_reads := ts\<rparr>))"

definition send :: "byte list \<Rightarrow> conn \<Rightarrow> conn reply" where
  "send pl c =
     (if sock_open c then Returned (c\<lparr>tx := tx c @ frame pl\<rparr>)
      else Raised (AssertionError ''socket closed''))"

definition close_conn :: "conn \<Rightarrow> conn" where
  "close_conn c = c\<lparr>sock_open := False\<rparr>"

text \<open>
  \<open>_connect\<close>: one attempt per clock reading before the deadline; \<open>None\<close> in the script
  of attempts is a successful \<open>create_connection\<close>, \<open>Some e\<close> an \<open>OSError\<close>.
\<close>

fun connect_loop :: "int \<Rightarrow> int list \<Rightarrow> string option list \<Rightarrow> string option \<Rightarrow> nat reply" where
  "connect_loop deadline [] tries last_err = Ran_out"
| "connect_loop deadline (t # ts) tries last_err =
     (if \<not> t < deadline then
        Raised (TimeoutError (case last_err of None \<Rightarrow> ''None'' | Some e \<Rightarrow> e))
      else (case tries of
         [] \<Rightarrow> Ran_out
       | None # rest \<Rightarrow> Returned (length rest)
       | Some e # rest \<Rightarrow> connect_loop deadline ts rest (Some e)))"

definition connect :: "int \<Rightarrow> int list \<Rightarrow> string option list \<Rightarrow> nat reply" where
  "connect timeout clock tries =
     (case clock of [] \<Rightarrow> Ran_out | now # ts \<Rightarrow> connect_loop (now + timeout) ts tries None)"

section \<open>The client refines the abstract receiver\<close>

text \<open>The bytes a connection will deliver while every \<open>recv\<close> is data or a timeout.\<close>

fun arrival_bytes :: "recv \<Rightarrow> byte list" where
  "arrival_bytes (Chunk bs) = bs"
| "arrival_bytes Recv_timeout = []"
| "arrival_bytes Recv_error = []"

fun keeps_link :: "recv \<Rightarrow> bool" where
  "keeps_link (Chunk bs) = (bs \<noteq> [])"
| "keeps_link Recv_timeout = True"
| "keeps_link Recv_error = False"

definition stream :: "conn \<Rightarrow> byte list" where
  "stream c = rx c @ concat (map arrival_bytes (arrivals c))"

text \<open>
  A connection is timely for a deadline when it is open, the link stays up, and the clock
  script is long enough and stays before the deadline.
\<close>

definition timely :: "int \<Rightarrow> conn \<Rightarrow> bool" where
  "timely deadline c \<longleftrightarrow>
     sock_open c \<and> list_all keeps_link (arrivals c) \<and>
     list_all (\<lambda>t. t < deadline) (clock_reads c) \<and>
     length (stream c) + length (arrivals c) \<le> length (clock_reads c)"

lemma next_byte_timely:
  assumes "sock_open c" "list_all keeps_link (arrivals c)"
    and "list_all (\<lambda>t. t < deadline) (clock_reads c)"
    and "length (arrivals c) \<le> length (clock_reads c)"
    and "stream c = b # bs"
  shows "\<exists>c'. next_byte deadline c = Returned (Some b, c') \<and> stream c' = bs \<and>
      sock_open c' \<and> list_all keeps_link (arrivals c') \<and>
      list_all (\<lambda>t. t < deadline) (clock_reads c') \<and>
      length (arrivals c) + length (clock_reads c') = length (arrivals c') + length (clock_reads c)"
  using assms
proof (induction "length (clock_reads c)" arbitrary: c rule: less_induct)
  case less
  show ?case
  proof (cases rule: next_byte_cases[where c = c and d = deadline])
    case (idle t ts rs)
    then show ?thesis
      using less.prems less.hyps[of "c\<lparr>clock_reads := ts, arrivals := rs\<rparr>"]
      by (simp add: next_byte_eqs(6)[OF idle] stream_def)
  qed (use less.prems in \<open>auto simp: next_byte_eqs stream_def\<close>)
qed

lemma read_loop_refines:
  assumes "timely deadline c" and "decode_from st (stream c) = Some (p, rest)"
  shows "\<exists>c'. read_loop deadline st c = Returned (Some p, c') \<and> stream c' = rest \<and> sock_open c'"
  using assms
proof (induction "stream c" arbitrary: st c)
  case Nil
  then show ?case by (metis decode_from.simps(1) option.distinct(1))
next
  case (Cons b bs)
  obtain t ts where ck: "clock_reads c = t # ts" "t < deadline"
    using Cons.prems(1) Cons.hyps(2)[symmetric] by (cases "clock_reads c") (auto simp: timely_def)
  let ?c = "c\<lparr>clock_reads := ts\<rparr>"
  have st: "stream ?c = b # bs" using Cons.hyps(2) by (simp add: stream_def)
  obtain c' where c': "next_byte deadline ?c = Returned (Some b, c')" "stream c' = bs" "sock_open c'"
      "list_all keeps_link (arrivals c')" "list_all (\<lambda>t. t < deadline) (clock_reads c')"
      "length (arrivals c) + length (clock_reads c') = length (arrivals c') + length ts"
    using next_byte_timely[of ?c deadline b bs] Cons.prems(1) st ck Cons.hyps(2)[symmetric]
    by (auto simp: timely_def)
  show ?case
  proof (cases "feed st b")
    case (Done q)
    with Cons.prems(2) Cons.hyps(2)[symmetric] have "q = p" "rest = bs" by auto
    with Done ck c' show ?thesis by (subst read_loop.simps) simp
  next
    case (More st')
    have "timely deadline c'"
      using c' Cons.prems(1) Cons.hyps(2)[symmetric] ck by (auto simp: timely_def)
    moreover have "decode_from st' (stream c') = Some (p, rest)"
      using Cons.prems(2) Cons.hyps(2)[symmetric] More c'(2) by simp
    ultimately obtain d where "read_loop deadline st' c' = Returned (Some p, d)"
        "stream d = rest" "sock_open d"
      using Cons.hyps(1)[of c' st'] c'(2) by auto
    with More ck c' show ?thesis by (subst read_loop.simps) simp
  qed
qed

lemma next_byte_sound:
  "next_byte d c = Returned (r, c') \<Longrightarrow>
   (case r of Some b \<Rightarrow> stream c = b # stream c' | None \<Rightarrow> stream c' = stream c)"
proof (induction "length (clock_reads c)" arbitrary: c rule: less_induct)
  case less
  show ?case
  proof (cases rule: next_byte_cases[where c = c and d = d])
    case (idle t ts rs)
    then show ?thesis
      using less.prems less.hyps[of "c\<lparr>clock_reads := ts, arrivals := rs\<rparr>"]
      by (simp add: next_byte_eqs(6)[OF idle] stream_def split: option.splits)
  qed (use less.prems in \<open>auto simp: next_byte_eqs stream_def\<close>)
qed

lemma stream_clock [simp]: "stream (c\<lparr>clock_reads := ts\<rparr>) = stream c"
  by (simp add: stream_def)

text \<open>One turn of the loop of \<open>read_frame\<close>, by cases on its guard and the byte read.\<close>

lemma read_loop_step:
  assumes "clock_reads c = t # ts" and "t < d"
  shows "next_byte d (c\<lparr>clock_reads := ts\<rparr>) = Returned (None, c') \<Longrightarrow>
           read_loop d st c = read_loop d st c'"
    and "next_byte d (c\<lparr>clock_reads := ts\<rparr>) = Returned (Some b, c') \<Longrightarrow> feed st b = More st' \<Longrightarrow>
           read_loop d st c = read_loop d st' c'"
    and "next_byte d (c\<lparr>clock_reads := ts\<rparr>) = Returned (Some b, c') \<Longrightarrow> feed st b = Done p \<Longrightarrow>
           read_loop d st c = Returned (Some p, c')"
    and "next_byte d (c\<lparr>clock_reads := ts\<rparr>) = Ran_out \<Longrightarrow> read_loop d st c = Ran_out"
    and "next_byte d (c\<lparr>clock_reads := ts\<rparr>) = Raised e \<Longrightarrow> read_loop d st c = Raised e"
  using assms by (subst read_loop.simps, simp)+

lemma read_loop_end:
  "clock_reads c = [] \<Longrightarrow> read_loop d st c = Ran_out"
  "clock_reads c = t # ts \<Longrightarrow> d \<le> t \<Longrightarrow> read_loop d st c = Returned (None, c\<lparr>clock_reads := ts\<rparr>)"
  by (subst read_loop.simps, simp)+

definition read_sound :: "rx_state \<Rightarrow> conn \<Rightarrow> byte list option \<Rightarrow> conn \<Rightarrow> bool" where
  "read_sound st c r c' =
     (case r of
        Some p \<Rightarrow> decode_from st (stream c) = Some (p, stream c')
      | None \<Rightarrow> (\<exists>used. stream c = used @ stream c' \<and> decode_from st used = None))"

lemma read_loop_sound: "read_loop d st c = Returned (r, c') \<Longrightarrow> read_sound st c r c'"
proof (induction "length (clock_reads c)" arbitrary: st c rule: less_induct)
  case less
  show ?case
  proof (cases "clock_reads c")
    case Nil
    with less.prems show ?thesis by (simp add: read_loop_end)
  next
    case ck: (Cons t ts)
    show ?thesis
    proof (cases "t < d")
      case False
      with ck less.prems show ?thesis by (auto simp: read_loop_end read_sound_def)
    next
      case True
      note step = read_loop_step[OF ck True]
      show ?thesis
      proof (cases "next_byte d (c\<lparr>clock_reads := ts\<rparr>)")
        case (Returned bc)
        then obtain ob c1 where nb: "next_byte d (c\<lparr>clock_reads := ts\<rparr>) = Returned (ob, c1)"
          by (cases bc) auto
        have len: "length (clock_reads c1) < length (clock_reads c)"
          using next_byte_clock[OF nb] ck by simp
        note IH = less.hyps[OF len] and snd1 = next_byte_sound[OF nb]
        show ?thesis
        proof (cases ob)
          case None
          with nb step(1) less.prems have "read_loop d st c1 = Returned (r, c')" by simp
          from IH[OF this] None snd1 show ?thesis by (simp add: read_sound_def split: option.splits)
        next
          case (Some b)
          with snd1 have str: "stream c = b # stream c1" by simp
          show ?thesis
          proof (cases "feed st b")
            case (Done p)
            with nb Some step(3) less.prems str show ?thesis by (auto simp: read_sound_def)
          next
            case (More st')
            with nb Some step(2) less.prems have "read_loop d st' c1 = Returned (r, c')" by simp
            from IH[OF this] show ?thesis
              using str More by (cases r) (auto simp: read_sound_def intro: exI[of _ "b # u" for u])
          qed
        qed
      qed (use less.prems step in auto)
    qed
  qed
qed

section \<open>A call always comes back\<close>

text \<open>
  With a clock that never goes back and at least two readings past the deadline, the reads
  of an open connection end before the script does: the byte source gives up at the first
  late reading and the loop at the second.
\<close>

definition late_twice :: "int \<Rightarrow> int list \<Rightarrow> bool" where
  "late_twice d ts \<longleftrightarrow> sorted ts \<and> 2 \<le> length (filter (\<lambda>t. d \<le> t) ts)"

definition due :: "int \<Rightarrow> int list \<Rightarrow> bool" where
  "due d ts \<longleftrightarrow> late_twice d ts \<or> sorted ts \<and> ts \<noteq> [] \<and> d \<le> hd ts"

lemma sorted_late:
  "sorted (t # ts) \<Longrightarrow> d \<le> t \<Longrightarrow> filter (\<lambda>x. d \<le> x) ts = ts"
  by (rule filter_True) auto

definition supplied :: "conn \<Rightarrow> bool" where
  "supplied c \<longleftrightarrow> sock_open c \<and> length (clock_reads c) \<le> length (arrivals c)"

lemma next_byte_returns:
  "supplied c \<Longrightarrow> late_twice d (clock_reads c) \<Longrightarrow>
   \<exists>r c'. next_byte d c = Returned (r, c') \<and> supplied c' \<and> due d (clock_reads c')"
proof (induction "length (clock_reads c)" arbitrary: c rule: less_induct)
  case less
  note d = less.prems[unfolded supplied_def late_twice_def]
  show ?case
  proof (cases rule: next_byte_cases[where c = c and d = d])
    case (idle t ts rs)
    let ?c = "c\<lparr>clock_reads := ts, arrivals := rs\<rparr>"
    have "supplied ?c" "late_twice d (clock_reads ?c)"
      using d idle by (auto simp: supplied_def late_twice_def)
    with less.hyps[of ?c] idle(2) show ?thesis
      by (simp add: next_byte_eqs(6)[OF idle])
  next
    case (late t ts)
    then have "filter (\<lambda>x. d \<le> x) ts = ts" "2 \<le> length (t # ts)"
      using d sorted_late[of t ts d] by auto
    with late d show ?thesis
      by (cases ts) (auto simp: next_byte_eqs supplied_def due_def)
  qed (use d in \<open>auto simp: next_byte_eqs supplied_def due_def late_twice_def\<close>)
qed

lemma read_loop_returns:
  "supplied c \<Longrightarrow> due d (clock_reads c) \<Longrightarrow> \<exists>r c'. read_loop d st c = Returned (r, c')"
proof (induction "length (clock_reads c)" arbitrary: st c rule: less_induct)
  case less
  then obtain t ts where ck: "clock_reads c = t # ts"
    by (cases "clock_reads c") (auto simp: due_def late_twice_def)
  show ?case
  proof (cases "t < d")
    case False
    with ck show ?thesis by (simp add: read_loop_end)
  next
    case True
    let ?c = "c\<lparr>clock_reads := ts\<rparr>"
    have "supplied ?c" "late_twice d (clock_reads ?c)"
      using less.prems ck True by (auto simp: supplied_def due_def late_twice_def)
    then obtain r c1 where nb: "next_byte d ?c = Returned (r, c1)" "supplied c1" "due d (clock_reads c1)"
      using next_byte_returns by blast
    have "length (clock_reads c1) < length (clock_reads c)"
      using next_byte_clock[OF nb(1)] ck by simp
    note IH = less.hyps[OF this nb(2,3)]
    show ?thesis
    proof (cases r)
      case None
      then show ?thesis using read_loop_step(1)[OF ck True] nb(1) IH by simp
    next
      case (Some b)
      then show ?thesis
        using read_loop_step(2,3)[OF ck True] nb(1) IH by (cases "feed st b") force+
    qed
  qed
qed

section \<open>Properties\<close>

text \<open>
  C2. Delivery.  When the bytes still to come are noise without a start byte, one framed
  payload and anything after it, in whatever chunks and with whatever receive timeouts, and
  the deadline is far enough, \<open>read_frame\<close> returns exactly that payload and leaves exactly
  the bytes after the frame for the next call.
\<close>

theorem read_frame_receives:
  assumes "clock_reads c = now # ts" and "SOF \<notin> set junk"
    and "stream c = junk @ frame p @ rest"
    and "timely (now + timeout) (c\<lparr>clock_reads := ts\<rparr>)"
  shows "\<exists>c'. read_frame timeout c = Returned (Some p, c') \<and> stream c' = rest"
proof -
  have "decode (stream c) = Some (p, rest)"
    using assms(2,3) studio.dec_after_junk[of junk p rest] by (auto simp: list_all_iff)
  then have "decode_from rx_start (stream (c\<lparr>clock_reads := ts\<rparr>)) = Some (p, rest)"
    by (simp add: decode_def)
  from read_loop_refines[OF assms(4) this] assms(1) show ?thesis
    by (auto simp: read_frame_def)
qed

definition sample_conn :: conn where
  "sample_conn = \<lparr>sock_open = True, rx = [0x0A], tx = [], clock_reads = [0 .. 20],
     arrivals = [Recv_timeout, Chunk [0xAB, 0x41, 0xAC], Chunk [0xAD, 0xAD, 0xAB]]\<rparr>"

theorem read_frame_receives_witness:
  "\<exists>c'. read_frame 100 sample_conn = Returned (Some [0x41, 0xAD], c') \<and> stream c' = [0xAB]"
proof (rule read_frame_receives[of sample_conn 0 "[1 .. 20]" "[0x0A]"])
  show "clock_reads sample_conn = 0 # [1 .. 20]" by (simp add: sample_conn_def upto.simps)
  show "SOF \<notin> set [0x0A]" by (simp add: SOF_def)
  show "stream sample_conn = [0x0A] @ frame [0x41, 0xAD] @ [0xAB]"
    by (simp add: sample_conn_def stream_def frame_def SPECIAL_def SOF_def ESC_def EOF_def)
  show "timely (0 + 100) (sample_conn\<lparr>clock_reads := [1 .. 20]\<rparr>)"
    by (auto simp: timely_def sample_conn_def stream_def list_all_iff)
qed

text \<open>
  C3. Soundness.  A payload that \<open>read_frame\<close> returns is the first complete frame of the
  bytes received, and the connection then holds exactly the bytes after it; when the call
  gives up, the bytes it consumed held no complete frame.  Nothing is invented and no
  complete frame is skipped.
\<close>

theorem read_frame_sound:
  assumes "read_frame timeout c = Returned (r, c')"
  shows "case r of Some p \<Rightarrow> decode (stream c) = Some (p, stream c')
     | None \<Rightarrow> (\<exists>used. stream c = used @ stream c' \<and> decode used = None)"
proof -
  obtain now ts where "read_loop (now + timeout) rx_start (c\<lparr>clock_reads := ts\<rparr>) = Returned (r, c')"
    using assms by (auto simp: read_frame_def split: list.splits)
  from read_loop_sound[OF this] show ?thesis
    by (simp add: read_sound_def decode_def split: option.splits)
qed

theorem read_frame_sound_witness:
  "\<exists>c'. read_frame 5 (sample_conn\<lparr>rx := frame [0x41]\<rparr>) = Returned (Some [0x41], c') \<and>
     decode (stream (sample_conn\<lparr>rx := frame [0x41]\<rparr>)) = Some ([0x41], stream c')"
proof -
  have "\<exists>c'. read_frame 5 (sample_conn\<lparr>rx := frame [0x41]\<rparr>) = Returned (Some [0x41], c')"
    by (simp add: read_frame_def sample_conn_def upto.simps read_loop.simps next_byte.simps
        frame_def SPECIAL_def feed_def rx_start_def SOF_def ESC_def EOF_def)
  then show ?thesis using read_frame_sound by fastforce
qed

text \<open>
  C4. The timeout is honoured.  On an open socket with a clock that never goes back,
  \<open>read_frame\<close> returns (a payload or \<open>None\<close>) once the clock has passed the deadline,
  whatever the peer sends and even when the link is broken; it never raises.
\<close>

theorem read_frame_returns:
  assumes "sock_open c" and "clock_reads c = now # ts"
    and "late_twice (now + timeout) ts" and "length ts \<le> length (arrivals c)"
  shows "\<exists>r c'. read_frame timeout c = Returned (r, c')"
  using assms read_loop_returns[of "c\<lparr>clock_reads := ts\<rparr>" "now + timeout" rx_start]
  by (simp add: read_frame_def supplied_def due_def)

theorem read_frame_returns_witness:
  "\<exists>r c'. read_frame 2 (sample_conn\<lparr>clock_reads := [0, 1, 1, 2, 3],
      arrivals := [Recv_error, Chunk [], Recv_timeout, Chunk [0xAB]]\<rparr>) = Returned (r, c')"
  by (rule read_frame_returns[of _ 0 "[1, 1, 2, 3]"]) (simp_all add: sample_conn_def late_twice_def)

text \<open>
  C28. A stream of requests.  However many payloads are framed one after the other, with any
  noise that contains no start byte between them, decoding takes back exactly those payloads
  in order.
\<close>

theorem frame_stream_roundtrip:
  assumes "list_all (\<lambda>(js, p). SOF \<notin> set js) jps"
  shows "take_messages decode (length jps) (concat (map (\<lambda>(js, p). js @ frame p) jps) @ rest)
     = Some (map snd jps, rest)"
proof (rule studio.take_messages_junk)
  show "list_all (\<lambda>(js, p). list_all (\<lambda>b. b \<noteq> SOF) js) jps"
    using assms by (auto simp: list_all_iff)
qed

theorem frame_stream_roundtrip_witness:
  "take_messages decode (length [([1, 2 :: byte], [0xAB, 3 :: byte]), ([], [])])
     (concat (map (\<lambda>(js, p). js @ frame p) [([1, 2 :: byte], [0xAB, 3 :: byte]), ([], [])]) @ [9])
   = Some (map snd [([1, 2 :: byte], [0xAB, 3 :: byte]), ([], [])], [9])"
  by (rule frame_stream_roundtrip) (simp add: SOF_def)

text \<open>
  Framing is unambiguous: framed payloads are never prefixes of one another, whatever
  follows them, and distinct payloads have distinct frames.
\<close>

theorem frame_prefix_free: "frame p @ r = frame q @ s \<longleftrightarrow> p = q \<and> r = s"
  using studio.prefix_free by blast

end
