(* ===== verification/Hex_Payload.thy ===== *)
theory Hex_Payload
  imports Rpc_Framing
begin

text \<open>
  The request payload files: \<open>render_hex\<close> and \<open>parse_hex_file\<close> of
  \<open>scripts/lib/ble/studio_requests.py\<close>, and the build-time converter
  \<open>ble-studio-host/hex2inc.py\<close>, which reads the same format and prints a C table.
  Files are their text; a request is a value of type \<open>'r\<close> and \<open>ser\<close> its
  \<open>SerializeToString\<close> (protobuf is not part of the repository).
\<close>

section \<open>Hexadecimal text\<close>

text \<open>\<open>data.hex().upper()\<close> and \<open>bytes.fromhex(text)\<close>.\<close>

definition hex_text :: "byte list \<Rightarrow> string" where
  "hex_text bs = concat (map hex_byte bs)"

definition ascii_space :: "char \<Rightarrow> bool" where
  "ascii_space c = (let n = (of_char c :: nat) in 9 \<le> n \<and> n \<le> 13 \<or> n = 32)"

fun fromhex :: "string \<Rightarrow> byte list option" where
  "fromhex [] = Some []"
| "fromhex (c # cs) =
     (if ascii_space c then fromhex cs
      else (case hex_val c of
         None \<Rightarrow> None
       | Some h \<Rightarrow>
          (case cs of
             [] \<Rightarrow> None
           | d # ds \<Rightarrow>
              (case hex_val d of
                 None \<Rightarrow> None
               | Some l \<Rightarrow> map_option (\<lambda>bs. word_of_nat (h * 16 + l) # bs) (fromhex ds)))))"

lemma ascii_space_py_space: "ascii_space c \<Longrightarrow> py_space c"
  by (auto simp: ascii_space_def py_space_def Let_def)

lemma fromhex_hex_text [py_simps]: "fromhex (hex_text bs) = Some bs"
proof (induction bs)
  case Nil
  then show ?case by (simp add: hex_text_def)
next
  case (Cons b bs)
  have "\<not> ascii_space (hex_char n)" for n
    using ascii_space_py_space hex_char_not_space by blast
  with Cons hex_byte_halves[of b] show ?case
    by (simp add: hex_text_def hex_byte_def)
qed

lemma hex_text_clean:
  "c \<in> set (hex_text bs) \<Longrightarrow> \<not> py_space c \<and> \<not> line_break c \<and> c \<noteq> CHR ''#''"
  by (induction bs) (auto simp: hex_text_def hex_byte_def hex_char_neq)

lemma hex_text_Nil_iff [simp]: "hex_text bs = [] \<longleftrightarrow> bs = []"
  by (cases bs) (simp_all add: hex_text_def hex_byte_def)

section \<open>Writing the file\<close>

text \<open>
  \<open>_normalize\<close>: a request may come with its name or without one; a bare request is named
  after its position.
\<close>

datatype 'r entry = Named string 'r | Bare 'r

fun normalize_from :: "nat \<Rightarrow> 'r entry list \<Rightarrow> (string \<times> 'r) list" where
  "normalize_from i [] = []"
| "normalize_from i (Named n r # es) = (n, r) # normalize_from (Suc i) es"
| "normalize_from i (Bare r # es) = (''request_'' @ dec_of_nat i, r) # normalize_from (Suc i) es"

definition normalize :: "'r entry list \<Rightarrow> (string \<times> 'r) list" where
  "normalize es = normalize_from 0 es"

fun entry_request :: "'r entry \<Rightarrow> 'r" where
  "entry_request (Named n r) = r"
| "entry_request (Bare r) = r"

lemma normalize_from_requests: "map snd (normalize_from i es) = map entry_request es"
  by (induction i es rule: normalize_from.induct) auto

definition hex_header :: "string list" where
  "hex_header =
     [''# GENERATED studio_requests payload file -- DO NOT EDIT.'',
      ''# Edit the source (studio_requests.json, or your generator script)'',
      ''# and regenerate instead.'',
      ''#'',
      ''# One hex-encoded, framed (SOF/ESC/EOF) zmk.studio.Request per line;'',
      ''# the ble-studio-host app sends them in order, one per response.'']"

definition request_lines :: "('r \<Rightarrow> byte list) \<Rightarrow> string \<times> 'r \<Rightarrow> string list" where
  "request_lines ser = (\<lambda>(name, req). [''# '' @ name, hex_text (frame (ser req))])"

definition render_hex :: "('r \<Rightarrow> byte list) \<Rightarrow> 'r entry list \<Rightarrow> string" where
  "render_hex ser requests =
     py_join [lf] (hex_header @ concat (map (request_lines ser) (normalize requests))) @ [lf]"

section \<open>Reading the file\<close>

definition comment_or_blank :: "string \<Rightarrow> bool" where
  "comment_or_blank raw = (let line = py_strip raw in line = [] \<or> hd line = CHR ''#'')"

definition hex_error :: string where
  "hex_error = ''non-hexadecimal number found in fromhex() arg''"

definition bytes_fromhex :: "string \<Rightarrow> byte list result" where
  "bytes_fromhex line = (case fromhex line of None \<Rightarrow> Inl (ValueError hex_error) | Some b \<Rightarrow> Inr b)"

fun parse_lines :: "string list \<Rightarrow> byte list list result" where
  "parse_lines [] = Inr []"
| "parse_lines (raw # raws) =
     (if comment_or_blank raw then parse_lines raws
      else bind_result (bytes_fromhex (py_strip raw)) (\<lambda>b.
           bind_result (parse_lines raws) (\<lambda>bs. Inr (b # bs))))"

definition parse_hex_file :: "string \<Rightarrow> byte list list result" where
  "parse_hex_file text = parse_lines (splitlines text)"

text \<open>
  \<open>hex2inc.py\<close> has its own copy of the reader, which numbers the lines and turns the
  \<open>ValueError\<close> into a \<open>SystemExit\<close> that names the line.
\<close>

definition hex2inc_error :: "string \<Rightarrow> nat \<Rightarrow> string \<Rightarrow> exn" where
  "hex2inc_error path lineno err =
     SystemExit (path @ '':'' @ dec_of_nat lineno @ '': not a hex line: '' @ err)"

fun hex2inc_lines :: "string \<Rightarrow> nat \<Rightarrow> string list \<Rightarrow> byte list list result" where
  "hex2inc_lines path lineno [] = Inr []"
| "hex2inc_lines path lineno (raw # raws) =
     (if comment_or_blank raw then hex2inc_lines path (Suc lineno) raws
      else (case fromhex (py_strip raw) of
         None \<Rightarrow> Inl (hex2inc_error path lineno hex_error)
       | Some b \<Rightarrow> bind_result (hex2inc_lines path (Suc lineno) raws) (\<lambda>bs. Inr (b # bs))))"

definition hex2inc_parse_hex_file :: "string \<Rightarrow> string \<Rightarrow> byte list list result" where
  "hex2inc_parse_hex_file path text = hex2inc_lines path 1 (splitlines text)"

section \<open>What both readers promise\<close>

text \<open>
  The reading contract: the lines that are neither blank nor comments, in order, each
  decoded; one bad line makes the whole file an error.
\<close>

definition payload_lines :: "string list \<Rightarrow> string list" where
  "payload_lines ls = map py_strip (filter (\<lambda>l. \<not> comment_or_blank l) ls)"

locale hex_file_reader =
  fixes read :: "nat \<Rightarrow> string list \<Rightarrow> byte list list result"
  assumes read_Nil: "read n [] = Inr []"
    and read_skip: "comment_or_blank raw \<Longrightarrow> read n (raw # ls) = read (Suc n) ls"
    and read_line: "\<not> comment_or_blank raw \<Longrightarrow> fromhex (py_strip raw) = Some b \<Longrightarrow>
      read n (raw # ls) = bind_result (read (Suc n) ls) (\<lambda>bs. Inr (b # bs))"
    and read_bad: "\<not> comment_or_blank raw \<Longrightarrow> fromhex (py_strip raw) = None \<Longrightarrow>
      \<not> is_ok (read n (raw # ls))"
begin

lemma read_Inr_iff:
  "read n ls = Inr ps \<longleftrightarrow> map fromhex (payload_lines ls) = map Some ps"
proof (induction ls arbitrary: n ps)
  case Nil
  then show ?case by (auto simp: read_Nil payload_lines_def)
next
  case (Cons raw ls)
  show ?case
  proof (cases "comment_or_blank raw")
    case True
    with Cons show ?thesis by (simp add: read_skip payload_lines_def)
  next
    case False
    show ?thesis
    proof (cases "fromhex (py_strip raw)")
      case None
      with False have "\<not> is_ok (read n (raw # ls))" by (rule read_bad)
      with None False show ?thesis
        by (cases ps) (auto simp: payload_lines_def)
    next
      case (Some b)
      with False Cons show ?thesis
        by (cases ps) (auto simp: read_line bind_result_Inr_iff payload_lines_def)
    qed
  qed
qed

lemma read_written:
  assumes "list_all comment_or_blank header"
    and "list_all (\<lambda>(c, p). comment_or_blank c \<and> p \<noteq> []) cps"
  shows "read n (header @ concat (map (\<lambda>(c, p). [c, hex_text p]) cps)) = Inr (map snd cps)"
proof -
  have line: "p \<noteq> [] \<Longrightarrow> \<not> comment_or_blank (hex_text p) \<and> py_strip (hex_text p) = hex_text p" for p
    using py_strip_id[of "hex_text p"] hex_text_clean[of _ p]
    by (auto simp: comment_or_blank_def)
  have "payload_lines (header @ concat (map (\<lambda>(c, p). [c, hex_text p]) cps)) = map (hex_text \<circ> snd) cps"
    using assms line by (induction cps) (auto simp: payload_lines_def list_all_iff)
  then show ?thesis by (simp add: read_Inr_iff fromhex_hex_text)
qed

end

interpretation requests: hex_file_reader "\<lambda>_. parse_lines"
  by unfold_locales (auto simp: bytes_fromhex_def)

interpretation hex2inc: hex_file_reader "hex2inc_lines path" for path
  by unfold_locales auto

section \<open>The C table of hex2inc\<close>

definition c_literal :: "byte \<Rightarrow> string" where
  "c_literal b = ''0x'' @ hex_byte b"

fun rows_of :: "byte list \<Rightarrow> byte list list" where
  "rows_of [] = []"
| "rows_of (b # bs) = take 12 (b # bs) # rows_of (drop 12 (b # bs))"

definition c_row :: "byte list \<Rightarrow> string" where
  "c_row bs = ''    '' @ py_join '', '' (map c_literal bs) @ '',''"

definition c_array :: "string \<Rightarrow> byte list \<Rightarrow> string" where
  "c_array name data =
     ''static const uint8_t '' @ name @ ''[] = {'' @ [lf] @
     py_join [lf] (map c_row (rows_of data)) @ [lf] @ ''};''"

definition array_name :: "nat \<Rightarrow> string" where
  "array_name idx = ''studio_request_'' @ dec_of_nat idx"

definition table_entry :: "nat \<Rightarrow> string" where
  "table_entry idx = ''    { '' @ array_name idx @ '', sizeof('' @ array_name idx @ '') },''"

definition render_head :: "string \<Rightarrow> string list" where
  "render_head source_name =
     [''/*'',
      '' * GENERATED from '' @ source_name @ '' by hex2inc.py -- DO NOT EDIT.'',
      '' * Framed zmk.studio.Request payloads (SOF/ESC/EOF), in send order.'',
      '' */'',
      []]"

definition struct_lines :: "string list" where
  "struct_lines = [''static const struct {'', ''    const uint8_t *data;'', ''    size_t len;'',
     ''} studio_requests[] = {'']"

definition tail_lines :: "string list" where
  "tail_lines = [''};'', [],
     ''#define STUDIO_REQUESTS_COUNT (sizeof(studio_requests) / sizeof(studio_requests[0]))'']"

definition indexed :: "byte list list \<Rightarrow> (nat \<times> byte list) list" where
  "indexed payloads = zip [0..<length payloads] payloads"

definition render :: "byte list list \<Rightarrow> string \<Rightarrow> string" where
  "render payloads source_name =
     (let arrays = concat (map (\<lambda>(idx, payload). [c_array (array_name idx) payload, []])
            (indexed payloads));
          entries = map (\<lambda>(idx, payload). table_entry idx) (indexed payloads)
      in py_join [lf]
        (render_head source_name @ arrays @ struct_lines @ entries @ tail_lines @ [[]]))"

text \<open>\<open>main\<close>, past its argument check: the text written to the destination.\<close>

definition hex2inc_main :: "string \<Rightarrow> string \<Rightarrow> string \<Rightarrow> string result" where
  "hex2inc_main src source_name text =
     bind_result (hex2inc_parse_hex_file src text) (\<lambda>payloads.
       if payloads = [] then Inl (SystemExit (src @ '': no request payloads found''))
       else Inr (render payloads source_name))"

section \<open>Reading the table back\<close>

text \<open>
  What the C compiler takes from the generated file, as far as it matters here: the byte
  literals of each array, and the table that names the arrays in send order.
\<close>

fun c_bytes :: "string \<Rightarrow> byte list" where
  "c_bytes [] = []"
| "c_bytes (c # cs) =
     (case cs of
        x # h # l # rest \<Rightarrow>
          if c = CHR ''0'' \<and> x = CHR ''x'' then
            (case (hex_val h, hex_val l) of
               (Some a, Some b) \<Rightarrow> word_of_nat (a * 16 + b) # c_bytes rest
             | _ \<Rightarrow> c_bytes cs)
          else c_bytes cs
      | _ \<Rightarrow> [])"

definition array_mark :: string where "array_mark = ''static const uint8_t ''"
definition table_mark :: string where "table_mark = ''    { ''"

fun read_arrays :: "(string \<times> byte list) option \<Rightarrow> string list \<Rightarrow> (string \<times> byte list) list" where
  "read_arrays cur [] = []"
| "read_arrays cur (l # ls) =
     (if prefix array_mark l
      then read_arrays (Some (takeWhile (\<lambda>c. c \<noteq> CHR ''['') (drop (length array_mark) l), [])) ls
      else (case cur of
         None \<Rightarrow> read_arrays None ls
       | Some (n, bs) \<Rightarrow>
           if l = ''};'' then (n, bs) # read_arrays None ls
           else read_arrays (Some (n, bs @ c_bytes l)) ls))"

definition read_table :: "string list \<Rightarrow> string list" where
  "read_table ls = map (\<lambda>l. takeWhile (\<lambda>c. c \<noteq> CHR '','') (drop (length table_mark) l))
     (filter (prefix table_mark) ls)"

definition table_payloads :: "string \<Rightarrow> byte list option list" where
  "table_payloads text =
     map (map_of (read_arrays None (splitlines text))) (read_table (splitlines text))"

lemma c_bytes_literal [simp]: "c_bytes (c_literal b @ s) = b # c_bytes s"
  using hex_byte_halves[of b] by (simp add: c_literal_def hex_byte_def)

lemma c_bytes_skip: "c \<noteq> CHR ''0'' \<Longrightarrow> c_bytes (c # cs) = c_bytes cs"
  by (cases cs; cases "tl cs"; cases "tl (tl cs)") auto

lemma c_bytes_no_zero: "CHR ''0'' \<notin> set pre \<Longrightarrow> c_bytes (pre @ s) = c_bytes s"
proof (induction pre)
  case (Cons a pre)
  then show ?case using c_bytes_skip[of a "pre @ s"] by auto
qed simp

lemma c_bytes_row_body: "c_bytes (py_join '', '' (map c_literal bs) @ '','') = bs"
proof (induction bs rule: induct_list012)
  case (3 b b' bs)
  have "c_bytes ('', '' @ s) = c_bytes s" for s
    by (rule c_bytes_no_zero) simp
  with 3 show ?case by simp
qed (simp_all add: c_bytes_literal[of _ "'',''"] del: c_bytes.simps, simp_all add: c_bytes_skip)

lemma c_bytes_row [simp]: "c_bytes (c_row bs) = bs"
proof -
  have "c_bytes (''    '' @ s) = c_bytes s" for s
    by (rule c_bytes_no_zero) simp
  then show ?thesis by (simp add: c_row_def c_bytes_row_body del: c_bytes.simps append_Cons)
qed

lemma concat_rows_of [simp]: "concat (rows_of bs) = bs"
  by (induction bs rule: rows_of.induct) (simp_all del: take_Suc_Cons drop_Suc_Cons)

lemma rows_of_width: "r \<in> set (rows_of bs) \<Longrightarrow> 1 \<le> length r \<and> length r \<le> 12"
  by (induction bs rule: rows_of.induct) auto

text \<open>The same text as a list of lines.\<close>

definition c_array_lines :: "string \<Rightarrow> byte list \<Rightarrow> string list" where
  "c_array_lines name data =
     [array_mark @ name @ ''[] = {''] @ (if data = [] then [[]] else map c_row (rows_of data)) @ [''};'']"

definition render_lines :: "byte list list \<Rightarrow> string \<Rightarrow> string list" where
  "render_lines payloads source_name =
     render_head source_name
     @ concat (map (\<lambda>(i, p). c_array_lines (array_name i) p @ [[]]) (indexed payloads))
     @ struct_lines @ map (\<lambda>(i, p). table_entry i) (indexed payloads) @ tail_lines"

lemma py_join_final: "xs \<noteq> [] \<Longrightarrow> py_join [lf] (xs @ [[]]) = unlines xs"
  by (induction "[lf]" xs rule: py_join.induct) auto

lemma py_join_split:
  "xs \<noteq> [] \<Longrightarrow> ys \<noteq> [] \<Longrightarrow> py_join [lf] (xs @ ys) = unlines xs @ py_join [lf] ys"
proof (induction "[lf]" xs rule: py_join.induct)
  case (2 x)
  then show ?case by (cases ys) auto
qed auto

lemma rows_of_Nil_iff [simp]: "rows_of d = [] \<longleftrightarrow> d = []"
  by (cases d) auto

lemma c_array_join: "c_array name data @ [lf] = unlines (c_array_lines name data)"
proof -
  have "py_join [lf] (map c_row (rows_of data)) @ [lf]
      = unlines (if data = [] then [[]] else map c_row (rows_of data))"
    using py_join_unlines[of "map c_row (rows_of data)"] by simp
  then show ?thesis by (simp add: c_array_def c_array_lines_def array_mark_def)
qed

lemma render_unlines: "render payloads src = unlines (render_lines payloads src)"
proof -
  have arr: "unlines (concat (map (\<lambda>(i, p). [c_array (array_name i) p, []]) ips))
      = unlines (concat (map (\<lambda>(i, p). c_array_lines (array_name i) p @ [[]]) ips))" for ips
  proof (induction ips)
    case (Cons ip ips)
    obtain i p where "ip = (i, p)" by (cases ip) auto
    then show ?case
      using Cons c_array_join[of "array_name i" p, symmetric] by simp
  qed simp
  let ?ls = "render_head src
      @ concat (map (\<lambda>(i, p). [c_array (array_name i) p, []]) (indexed payloads))
      @ struct_lines @ map (\<lambda>(i, p). table_entry i) (indexed payloads) @ tail_lines"
  have "render payloads src = py_join [lf] (?ls @ [[]])"
    by (simp only: render_def Let_def append_assoc)
  also have "\<dots> = unlines ?ls"
    by (rule py_join_final) (simp add: render_head_def)
  finally have "render payloads src = unlines ?ls" .
  then show ?thesis by (simp add: arr render_lines_def)
qed

abbreviation unbroken :: "string \<Rightarrow> bool" where
  "unbroken l \<equiv> list_all (\<lambda>c. \<not> line_break c) l"

lemma unbroken_join: "unbroken sep \<Longrightarrow> list_all unbroken xs \<Longrightarrow> unbroken (py_join sep xs)"
  by (induction sep xs rule: py_join.induct) auto

lemma unbroken_dec [simp]: "unbroken (dec_of_nat n)"
  by (auto simp: list_all_iff line_break_def Let_def dest!: dec_of_nat_digits)

lemma unbroken_name [simp]: "unbroken (array_name i)"
  by (simp add: array_name_def) (simp add: line_break_def)

lemma unbroken_row [simp]: "unbroken (c_row bs)"
proof -
  have "list_all unbroken (map c_literal bs)"
    by (auto simp: list_all_iff c_literal_def hex_byte_def) (simp_all add: line_break_def)
  then have "unbroken (py_join '', '' (map c_literal bs))"
    by (intro unbroken_join) (auto simp: line_break_def)
  then show ?thesis by (simp add: c_row_def) (simp add: line_break_def)
qed

lemma unbroken_array: "list_all unbroken (c_array_lines (array_name i) p)"
  by (auto simp: c_array_lines_def array_mark_def list_all_iff[of unbroken])
    (simp_all add: line_break_def)

lemma unbroken_entry: "unbroken (table_entry i)"
  by (simp add: table_entry_def) (simp add: line_break_def)

lemma unbroken_lines: "unbroken src \<Longrightarrow> list_all unbroken (render_lines payloads src)"
  using unbroken_array unbroken_entry
  by (auto simp: render_lines_def list_all_iff[of unbroken] struct_lines_def tail_lines_def render_head_def)
    (auto simp: line_break_def)

lemma not_array_mark: "hd (l @ [lf]) \<noteq> CHR ''s'' \<Longrightarrow> \<not> prefix array_mark l"
  by (cases l) (auto simp: array_mark_def)

lemma c_row_shape: "\<exists>t. c_row bs = CHR '' '' # CHR '' '' # CHR '' '' # CHR '' '' # t \<and> hd t \<noteq> CHR ''{''"
proof (cases bs)
  case Nil
  then show ?thesis by (simp add: c_row_def)
next
  case (Cons b bs')
  then show ?thesis by (cases bs') (simp_all add: c_row_def c_literal_def)
qed

lemma c_row_marks:
  "\<not> prefix array_mark (c_row bs)" "c_row bs \<noteq> ''};''" "\<not> prefix table_mark (c_row bs)"
proof -
  obtain t where "c_row bs = CHR '' '' # CHR '' '' # CHR '' '' # CHR '' '' # t" "hd t \<noteq> CHR ''{''"
    using c_row_shape by blast
  then show "\<not> prefix array_mark (c_row bs)" "c_row bs \<noteq> ''};''" "\<not> prefix table_mark (c_row bs)"
    by (cases t; simp add: array_mark_def table_mark_def)+
qed

lemma read_arrays_rows:
  "read_arrays (Some (n, bs)) (map c_row rs @ ls) = read_arrays (Some (n, bs @ concat rs)) ls"
  by (induction rs arbitrary: bs) (simp_all add: c_row_marks)

lemma read_arrays_skip:
  "list_all (\<lambda>l. \<not> prefix array_mark l) ls \<Longrightarrow> read_arrays None (ls @ rest) = read_arrays None rest"
  by (induction ls) auto

lemma read_arrays_array:
  assumes "CHR ''['' \<notin> set name"
  shows "read_arrays None (c_array_lines name data @ rest) = (name, data) # read_arrays None rest"
proof -
  have name: "takeWhile (\<lambda>c. c \<noteq> CHR ''['') (name @ ''[] = {'') = name"
    using assms by (induction name) auto
  have fin: "read_arrays (Some (name, bs)) (''};'' # rest) = (name, bs) # read_arrays None rest" for bs
    by (simp add: array_mark_def)
  show ?thesis
  proof (cases "data = []")
    case True
    then show ?thesis
      using name fin by (simp add: c_array_lines_def array_mark_def)
  next
    case False
    then show ?thesis
      using name fin read_arrays_rows[of name "[]" "rows_of data" "''};'' # rest"]
      by (simp add: c_array_lines_def)
  qed
qed

lemma array_name_chars: "CHR ''['' \<notin> set (array_name i)" "CHR '','' \<notin> set (array_name i)"
  by (auto simp: array_name_def dest: dec_of_nat_digits)

lemma array_name_inject [simp]: "array_name i = array_name j \<longleftrightarrow> i = j"
  by (simp add: array_name_def)

lemma read_arrays_all:
  "read_arrays None (concat (map (\<lambda>(i, p). c_array_lines (array_name i) p @ [[]]) ips) @ rest)
     = map (\<lambda>(i, p). (array_name i, p)) ips @ read_arrays None rest"
proof (induction ips)
  case Nil
  then show ?case by simp
next
  case (Cons ip ips)
  obtain i p where "ip = (i, p)" by (cases ip) auto
  moreover have "\<not> prefix array_mark []" by (simp add: array_mark_def)
  ultimately show ?case
    using Cons read_arrays_array[OF array_name_chars(1), of i p] by simp
qed

lemma other_lines_marks:
  "list_all (\<lambda>l. \<not> prefix array_mark l \<and> \<not> prefix table_mark l) (render_head src)"
  "list_all (\<lambda>l. \<not> prefix array_mark l \<and> \<not> prefix table_mark l) struct_lines"
  "list_all (\<lambda>l. \<not> prefix array_mark l \<and> \<not> prefix table_mark l) tail_lines"
  by (simp_all add: render_head_def struct_lines_def tail_lines_def array_mark_def table_mark_def)

lemma table_entry_marks: "prefix table_mark (table_entry i)" "\<not> prefix array_mark (table_entry i)"
  by (simp_all add: table_entry_def table_mark_def array_mark_def)

lemma array_lines_no_table: "filter (prefix table_mark) (c_array_lines n d) = []"
  by (auto simp: c_array_lines_def filter_empty_conv c_row_marks array_mark_def)
    (simp_all add: table_mark_def)

lemma read_arrays_render:
  "read_arrays None (render_lines payloads src) = map (\<lambda>(i, p). (array_name i, p)) (indexed payloads)"
proof -
  let ?ips = "indexed payloads"
  have "list_all (\<lambda>l. \<not> prefix array_mark l)
      (struct_lines @ map (\<lambda>(i, p). table_entry i) ?ips @ tail_lines)"
    using other_lines_marks(2,3) by (auto simp: list_all_iff table_entry_marks)
  then have "read_arrays None (struct_lines @ map (\<lambda>(i, p). table_entry i) ?ips @ tail_lines) = []"
    using read_arrays_skip[of _ "[]"] by fastforce
  moreover have "list_all (\<lambda>l. \<not> prefix array_mark l) (render_head src)"
    using other_lines_marks(1) by (auto simp: list_all_iff)
  ultimately show ?thesis
    by (simp add: render_lines_def read_arrays_skip read_arrays_all)
qed

lemma read_table_render:
  "read_table (render_lines payloads src) = map (\<lambda>(i, p). array_name i) (indexed payloads)"
proof -
  have entry: "takeWhile (\<lambda>c. c \<noteq> CHR '','') (drop (length table_mark) (table_entry i)) = array_name i" for i
  proof -
    have "takeWhile (\<lambda>c. c \<noteq> CHR '','') (array_name i @ CHR '','' # s) = array_name i" for s
      using array_name_chars(2)[of i] by (induction "array_name i") (auto simp: takeWhile_append)
    then show ?thesis by (simp add: table_entry_def table_mark_def)
  qed
  have arr: "filter (prefix table_mark)
      (concat (map (\<lambda>(i, p). c_array_lines (array_name i) p @ [[]]) ips)) = []" for ips
    by (induction ips) (auto simp: array_lines_no_table, simp add: table_mark_def)
  have none: "list_all (\<lambda>l. \<not> prefix array_mark l \<and> \<not> prefix table_mark l) ls \<Longrightarrow>
      filter (prefix table_mark) ls = []" for ls
    by (auto simp: list_all_iff filter_empty_conv)
  have "filter (prefix table_mark) (map (\<lambda>(i, p). table_entry i) ips)
      = map (\<lambda>(i, p). table_entry i) ips" for ips :: "(nat \<times> byte list) list"
    by (auto intro!: filter_True simp: table_entry_marks)
  with arr show ?thesis
    by (simp add: read_table_def render_lines_def none other_lines_marks entry comp_def
        case_prod_unfold)
qed

section \<open>Properties\<close>

lemma header_comments: "list_all comment_or_blank hex_header"
  by (simp add: hex_header_def comment_or_blank_def py_space_def py_strip_Cons)

lemma named_comment: "comment_or_blank (''# '' @ name)"
  by (simp add: comment_or_blank_def py_space_def py_strip_Cons)

lemma render_hex_unlines:
  "render_hex ser es = unlines (hex_header @ concat (map (request_lines ser) (normalize es)))"
  unfolding render_hex_def by (rule py_join_unlines) (simp add: hex_header_def)

lemma render_hex_parses:
  assumes "list_all (\<lambda>(n, r). unbroken n) (normalize es)"
  shows "parse_hex_file (render_hex ser es) = Inr (map (\<lambda>e. frame (ser (entry_request e))) es)"
proof -
  let ?cps = "map (\<lambda>(n, r). (''# '' @ n, frame (ser r))) (normalize es)"
  let ?ls = "hex_header @ concat (map (\<lambda>(c, p). [c, hex_text p]) ?cps)"
  have ls: "hex_header @ concat (map (request_lines ser) (normalize es)) = ?ls"
    by (simp add: request_lines_def comp_def case_prod_unfold)
  have "list_all unbroken hex_header"
    by (simp add: hex_header_def line_break_def)
  moreover have "list_all unbroken (concat (map (\<lambda>(c, p). [c, hex_text p]) ?cps))"
    using assms by (fastforce simp: list_all_iff line_break_def dest: hex_text_clean)
  ultimately have "splitlines (render_hex ser es) = ?ls"
    unfolding render_hex_unlines ls by (intro splitlines_unlines) simp
  moreover have "parse_lines ?ls = Inr (map snd ?cps)"
    using named_comment
    by (intro requests.read_written[OF header_comments]) (auto simp: list_all_iff)
  moreover have "map snd ?cps = map (\<lambda>e. frame (ser (entry_request e))) es"
    using arg_cong[OF normalize_from_requests[of 0 es], of "map (\<lambda>r. frame (ser r))"]
    by (simp add: normalize_def comp_def case_prod_unfold)
  ultimately show ?thesis by (simp add: parse_hex_file_def)
qed

text \<open>
  C19. Rendering requests to a payload file and parsing the file gives back the framed
  serialisation of every request, in order, whatever the requests are called as long as no
  name holds a line break.
\<close>

theorem render_hex_roundtrip:
  assumes "list_all (\<lambda>(n, r). unbroken n) (normalize es)"
  shows "parse_hex_file (render_hex ser es) = Inr (map (\<lambda>e. frame (ser (entry_request e))) es)"
  by (rule render_hex_parses[OF assms])

theorem render_hex_roundtrip_witness:
  "parse_hex_file (render_hex (\<lambda>n. [word_of_nat n, 0xAB]) [Named ''first'' 1, Bare 2])
     = Inr (map (\<lambda>e. frame [word_of_nat (entry_request e), 0xAB]) [Named ''first'' 1, Bare 2])"
  by (rule render_hex_roundtrip)
    (simp add: normalize_def dec_of_nat.simps line_break_def)

text \<open>
  C37. The two readers of the payload format accept the same files and agree on every
  payload: the converter of the host app and the Python library cannot disagree.
\<close>

theorem hex_readers_agree:
  "hex2inc_parse_hex_file path text = Inr ps \<longleftrightarrow> parse_hex_file text = Inr ps"
  unfolding hex2inc_parse_hex_file_def parse_hex_file_def
  by (simp add: hex2inc.read_Inr_iff requests.read_Inr_iff)

definition bad_line :: "string \<Rightarrow> bool" where
  "bad_line raw \<longleftrightarrow> \<not> comment_or_blank raw \<and> fromhex (py_strip raw) = None"

lemma hex2inc_lines_error:
  "hex2inc_lines path n ls = Inl e \<Longrightarrow>
   \<exists>k < length ls. e = hex2inc_error path (n + k) hex_error \<and> bad_line (ls ! k)
     \<and> (\<forall>j < k. \<not> bad_line (ls ! j))"
proof (induction ls arbitrary: n)
  case Nil
  then show ?case by simp
next
  case (Cons raw ls)
  show ?case
  proof (cases "bad_line raw")
    case True
    with Cons.prems have "e = hex2inc_error path n hex_error"
      by (simp add: bad_line_def)
    with True show ?thesis by (intro exI[of _ 0]) simp
  next
    case False
    with Cons.prems have "hex2inc_lines path (Suc n) ls = Inl e"
      by (auto simp: bad_line_def bind_result_Inl_iff split: if_splits option.splits)
    from Cons.IH[OF this] obtain k where "k < length ls" "e = hex2inc_error path (Suc n + k) hex_error"
        "bad_line (ls ! k)" "\<forall>j<k. \<not> bad_line (ls ! j)" by blast
    with False show ?thesis
      by (intro exI[of _ "Suc k"]) (auto simp: nth_Cons split: nat.splits)
  qed
qed

text \<open>
  A rejected file is reported with the number of its first line that is neither blank,
  nor a comment, nor hexadecimal: every line before it is readable.
\<close>

lemma hex2inc_names_first_bad_line:
  assumes "hex2inc_parse_hex_file path text = Inl e"
  shows "\<exists>k < length (splitlines text). e = hex2inc_error path (Suc k) hex_error
     \<and> bad_line (splitlines text ! k) \<and> (\<forall>j < k. \<not> bad_line (splitlines text ! j))"
  using hex2inc_lines_error[of path 1 "splitlines text" e] assms
  by (simp add: hex2inc_parse_hex_file_def)

definition sample_hex :: string where
  "sample_hex = unlines [''# two requests'', ''AB0ZAD'']"

lemma hex2inc_names_first_bad_line_witness:
  "\<exists>k < length (splitlines sample_hex).
     hex2inc_error ''f'' 2 hex_error = hex2inc_error ''f'' (Suc k) hex_error
     \<and> bad_line (splitlines sample_hex ! k) \<and> (\<forall>j < k. \<not> bad_line (splitlines sample_hex ! j))"
  by (rule hex2inc_names_first_bad_line)
    (simp add: sample_hex_def hex2inc_parse_hex_file_def line_break_def lf_def cr_def
      comment_or_blank_def py_strip_Cons py_rstrip_Cons py_space_def hex_val_def
      ascii_space_def py_rstrip_def py_strip_def py_lstrip_def numeral_2_eq_2)

lemma table_of_render:
  assumes "unbroken source_name"
  shows "table_payloads (render payloads source_name) = map Some payloads"
proof -
  let ?ips = "indexed payloads"
  have split: "splitlines (render payloads source_name) = render_lines payloads source_name"
    unfolding render_unlines by (rule splitlines_unlines[OF unbroken_lines[OF assms]])
  have "map fst (map (\<lambda>(i, p). (array_name i, p)) ?ips) = map array_name [0..<length payloads]"
    by (rule nth_equalityI) (simp_all add: indexed_def)
  then have dist: "distinct (map fst (map (\<lambda>(i, p). (array_name i, p)) ?ips))"
    by (simp add: distinct_map inj_on_def)
  have look: "(i, p) \<in> set ?ips \<Longrightarrow> map_of (map (\<lambda>(i, p). (array_name i, p)) ?ips) (array_name i) = Some p" for i p
    by (rule map_of_is_SomeI[OF dist]) force
  have "table_payloads (render payloads source_name)
      = map (\<lambda>(i, p). map_of (map (\<lambda>(i, p). (array_name i, p)) ?ips) (array_name i)) ?ips"
    by (simp add: table_payloads_def split read_arrays_render read_table_render comp_def case_prod_unfold)
  also have "\<dots> = map (\<lambda>(i, p). Some p) ?ips"
    using look by (intro map_cong) auto
  also have "\<dots> = map Some payloads"
    by (rule nth_equalityI) (simp_all add: indexed_def)
  finally show ?thesis .
qed

text \<open>
  C20. The C table that \<open>hex2inc.py\<close> prints holds the payloads: each table entry names an
  array of the file, and the bytes of these arrays, in table order, are the payloads in
  send order.
\<close>

theorem render_table_payloads:
  assumes "unbroken source_name"
  shows "table_payloads (render payloads source_name) = map Some payloads"
  by (rule table_of_render[OF assms])

theorem render_table_payloads_witness:
  "table_payloads (render [[0xAB, 0xAD], []] ''studio_requests.hex'') = map Some [[0xAB, 0xAD], []]"
  by (rule render_table_payloads) (simp add: line_break_def)

end
