(* ===== verification/Mmio_Models.thy ===== *)
theory Mmio_Models
  imports Py_Prelude
begin

unbundle bit_operations_syntax

text \<open>
  The register-level peripheral models of \<open>scripts/lib/renode/platforms/models\<close> that have no
  crypto: \<open>nvmc.py\<close>, \<open>ficr.py\<close>, \<open>usbd_stub.py\<close> and \<open>qspi_stub.py\<close>.  Renode calls a model
  with a request; the model answers a read with a value.  The system bus is Renode's, so its
  operations are parameters: a bus operation takes the bus and returns \<open>None\<close> where the call
  raises, or a value, with the bus after the call.
\<close>

section \<open>Requests and the bus\<close>

datatype request = Init | Read int | Write int int

fun is_read :: "request \<Rightarrow> bool" where
  "is_read (Read off) = True"
| "is_read _ = False"

type_synonym ('b, 'a) bus_op = "'b \<Rightarrow> 'a option \<times> 'b"

definition bus_ret :: "'a \<Rightarrow> ('b, 'a) bus_op" where
  "bus_ret x b = (Some x, b)"

definition bus_bind :: "('b, 'a) bus_op \<Rightarrow> ('a \<Rightarrow> ('b, 'c) bus_op) \<Rightarrow> ('b, 'c) bus_op" where
  "bus_bind m f b = (case m b of (None, b') \<Rightarrow> (None, b') | (Some x, b') \<Rightarrow> f x b')"

fun bus_each :: "('x \<Rightarrow> ('b, unit) bus_op) \<Rightarrow> 'x list \<Rightarrow> ('b, unit) bus_op" where
  "bus_each f [] = bus_ret ()"
| "bus_each f (x # xs) = bus_bind (f x) (\<lambda>_. bus_each f xs)"

lemma bus_ret_apply [simp]: "bus_ret x b = (Some x, b)"
  by (simp add: bus_ret_def)

lemma bus_bind_Some [simp]: "m b = (Some x, b') \<Longrightarrow> bus_bind m f b = f x b'"
  by (simp add: bus_bind_def)

lemma bus_bind_None [simp]: "m b = (None, b') \<Longrightarrow> bus_bind m f b = (None, b')"
  by (simp add: bus_bind_def)

lemma bus_each_append:
  "bus_each f (xs @ ys) b = bus_bind (bus_each f xs) (\<lambda>_. bus_each f ys) b"
  by (induction xs arbitrary: b) (auto simp: bus_bind_def split: prod.splits option.splits)

text \<open>A run of requests: the final state and the answers of the reads.\<close>

fun run_requests :: "('s \<Rightarrow> request \<Rightarrow> 's \<times> int option) \<Rightarrow> 's \<Rightarrow> request list \<Rightarrow> 's \<times> int option list"
where
  "run_requests step s [] = (s, [])"
| "run_requests step s (r # rs) =
     (let (s', v) = step s r; (s'', vs) = run_requests step s' rs in (s'', v # vs))"

section \<open>The contract of a register model\<close>

text \<open>
  What firmware and the harness rely on whatever the model: a request never breaks the
  model's invariant, every read is answered, only reads are answered, and a read is a pure
  observation, so polling a register any number of times is harmless.
\<close>

locale mmio_model =
  fixes inv :: "'s \<Rightarrow> bool"
    and step :: "'s \<Rightarrow> request \<Rightarrow> 's \<times> int option"
  assumes inv_step: "inv s \<Longrightarrow> inv (fst (step s r))"
    and read_pure: "inv s \<Longrightarrow> fst (step s (Read off)) = s"
    and answers: "inv s \<Longrightarrow> snd (step s r) \<noteq> None \<longleftrightarrow> is_read r"
begin

lemma inv_run: "inv s \<Longrightarrow> inv (fst (run_requests step s rs))"
proof (induction rs arbitrary: s)
  case (Cons r rs)
  then show ?case using inv_step[of s r] by (auto simp: split_beta Let_def)
qed simp

lemma reads_change_nothing:
  "inv s \<Longrightarrow> fst (run_requests step s rs) = fst (run_requests step s (filter (\<lambda>r. \<not> is_read r) rs))"
proof (induction rs arbitrary: s)
  case (Cons r rs)
  have "inv (fst (step s r))" using Cons.prems by (rule inv_step)
  then show ?case
    using Cons read_pure[OF Cons.prems] by (cases r) (auto simp: split_beta Let_def)
qed simp

lemma polling: "inv s \<Longrightarrow> run_requests step s (replicate n (Read off)) =
    (s, replicate n (snd (step s (Read off))))"
proof (induction n)
  case (Suc n)
  then show ?case
    using read_pure[OF Suc.prems, of off] by (cases "step s (Read off)") (simp add: Let_def)
qed simp

lemma every_read_answered:
  "inv s \<Longrightarrow> map (\<lambda>v. v \<noteq> None) (snd (run_requests step s rs)) = map is_read rs"
proof (induction rs arbitrary: s)
  case (Cons r rs)
  have "inv (fst (step s r))" using Cons.prems by (rule inv_step)
  then show ?case using Cons answers[OF Cons.prems] by (simp add: split_beta Let_def)
qed simp

end

section \<open>USBD and QSPI stubs\<close>

definition usbd_step :: "unit \<Rightarrow> request \<Rightarrow> unit \<times> int option" where
  "usbd_step s r = (case r of
     Init \<Rightarrow> (s, None)
   | Read off \<Rightarrow> (s, Some (if off = 0x400 then 0x800 else 0))
   | Write off v \<Rightarrow> (s, None))"

definition qspi_step :: "unit \<Rightarrow> request \<Rightarrow> unit \<times> int option" where
  "qspi_step s r = (case r of
     Init \<Rightarrow> (s, None)
   | Read off \<Rightarrow> (s, Some (if off = 0x100 then 1 else if off = 0x604 then 0x8 else 0))
   | Write off v \<Rightarrow> (s, None))"

interpretation usbd: mmio_model "\<lambda>_. True" usbd_step
  by unfold_locales (auto simp: usbd_step_def split: request.splits)

interpretation qspi: mmio_model "\<lambda>_. True" qspi_step
  by unfold_locales (auto simp: qspi_step_def split: request.splits)

section \<open>FICR\<close>

definition DEVICEADDR0 :: int where "DEVICEADDR0 = 0xE7E7E7E7"
definition DEVICEADDR1 :: int where "DEVICEADDR1 = 0x0000C0E7"

definition ficr_vals :: "int \<Rightarrow> int \<Rightarrow> (int \<times> int) list" where
  "ficr_vals addr0 addr1 =
     [(0x010, 0x00001000), (0x014, 0x00000100), (0x060, 0x12345678), (0x064, 0x9ABCDEF0),
      (0x080, 0xA1A2A3A4), (0x084, 0xB1B2B3B4), (0x088, 0xC1C2C3C4), (0x08C, 0xD1D2D3D4),
      (0x090, 0x11121314), (0x094, 0x21222324), (0x098, 0x31323334), (0x09C, 0x41424344),
      (0x0A0, 0x00000001), (0x0A4, addr0), (0x0A8, addr1), (0x100, 0x00052840),
      (0x104, 0x41414130), (0x108, 0x00002004), (0x10C, 0x00000100), (0x110, 0x00000400)]"

definition ficr_step :: "int \<Rightarrow> int \<Rightarrow> unit \<Rightarrow> request \<Rightarrow> unit \<times> int option" where
  "ficr_step addr0 addr1 s r = (case r of
     Init \<Rightarrow> (s, None)
   | Read off \<Rightarrow> (s, Some (case map_of (ficr_vals addr0 addr1) off of None \<Rightarrow> 0xFFFFFFFF | Some v \<Rightarrow> v))
   | Write off v \<Rightarrow> (s, None))"

interpretation ficr: mmio_model "\<lambda>_. True" "ficr_step addr0 addr1" for addr0 addr1
  by unfold_locales (auto simp: ficr_step_def split: request.splits)

section \<open>NVMC\<close>

definition PAGE_SIZE :: int where "PAGE_SIZE = 0x1000"

definition OFF_READY :: int where "OFF_READY = 0x400"
definition OFF_READYNEXT :: int where "OFF_READYNEXT = 0x408"
definition OFF_CONFIG :: int where "OFF_CONFIG = 0x504"
definition OFF_ERASEPAGE :: int where "OFF_ERASEPAGE = 0x508"
definition OFF_ERASEALL :: int where "OFF_ERASEALL = 0x50C"
definition OFF_ERASEPCR0 :: int where "OFF_ERASEPCR0 = 0x510"
definition OFF_ERASEUICR :: int where "OFF_ERASEUICR = 0x514"
definition OFF_ERASEPAGEPARTIAL :: int where "OFF_ERASEPAGEPARTIAL = 0x518"
definition OFF_ERASEPAGEPARTIALCFG :: int where "OFF_ERASEPAGEPARTIALCFG = 0x51C"

lemmas nvmc_offsets = OFF_READY_def OFF_READYNEXT_def OFF_CONFIG_def OFF_ERASEPAGE_def
  OFF_ERASEALL_def OFF_ERASEPCR0_def OFF_ERASEUICR_def OFF_ERASEPAGEPARTIAL_def
  OFF_ERASEPAGEPARTIALCFG_def

record nvmc_state =
  config :: int
  erasepagepartialcfg :: int

definition nvmc_init :: nvmc_state where
  "nvmc_init = \<lparr>config = 0, erasepagepartialcfg = 0\<rparr>"

text \<open>\<open>write_dword\<close> stands for \<open>SystemBus.WriteDoubleWord\<close>.\<close>

definition erase_page :: "(int \<Rightarrow> int \<Rightarrow> ('b, unit) bus_op) \<Rightarrow> int \<Rightarrow> ('b, unit) bus_op" where
  "erase_page write_dword addr =
     (let base = addr AND NOT (PAGE_SIZE - 1)
      in bus_each (\<lambda>i. write_dword (base + i) 0xFFFFFFFF) (map (\<lambda>k. 4 * int k) [0..<nat (PAGE_SIZE div 4)]))"

definition nvmc_write ::
  "(int \<Rightarrow> int \<Rightarrow> ('b, unit) bus_op) \<Rightarrow> nvmc_state \<times> 'b \<Rightarrow> int \<Rightarrow> int \<Rightarrow> nvmc_state \<times> 'b"
where
  "nvmc_write write_dword = (\<lambda>(st, b) off v.
     if off = OFF_CONFIG then (st\<lparr>config := v\<rparr>, b)
     else if off \<in> {OFF_ERASEPAGE, OFF_ERASEPCR0, OFF_ERASEPAGEPARTIAL} then
       (st, snd (erase_page write_dword v b))
     else if off = OFF_ERASEPAGEPARTIALCFG then (st\<lparr>erasepagepartialcfg := v\<rparr>, b)
     else (st, b))"

definition nvmc_read :: "nvmc_state \<Rightarrow> int \<Rightarrow> int" where
  "nvmc_read st off =
     (if off \<in> {OFF_READY, OFF_READYNEXT} then 1
      else if off = OFF_CONFIG then config st
      else if off = OFF_ERASEPAGEPARTIALCFG then erasepagepartialcfg st
      else 0)"

definition nvmc_step ::
  "(int \<Rightarrow> int \<Rightarrow> ('b, unit) bus_op) \<Rightarrow> nvmc_state \<times> 'b \<Rightarrow> request \<Rightarrow> (nvmc_state \<times> 'b) \<times> int option"
where
  "nvmc_step write_dword s r = (case r of
     Init \<Rightarrow> (((fst s)\<lparr>config := 0, erasepagepartialcfg := 0\<rparr>, snd s), None)
   | Read off \<Rightarrow> (s, Some (nvmc_read (fst s) off))
   | Write off v \<Rightarrow> (nvmc_write write_dword s off v, None))"

interpretation nvmc: mmio_model "\<lambda>_. True" "nvmc_step write_dword" for write_dword
  by unfold_locales (auto simp: nvmc_step_def split: request.splits)

text \<open>
  The documented behaviour of a memory-mapped bus: a double word written to mapped bytes
  succeeds and replaces exactly those four bytes, least significant first.
\<close>

definition dword_bus ::
  "(int \<Rightarrow> bool) \<Rightarrow> ('b \<Rightarrow> int \<Rightarrow> int) \<Rightarrow> (int \<Rightarrow> int \<Rightarrow> ('b, unit) bus_op) \<Rightarrow> bool"
where
  "dword_bus mapped mem write_dword \<longleftrightarrow>
     (\<forall>b a v. (\<forall>x \<in> {a..<a + 4}. mapped x) \<longrightarrow> 0 \<le> v \<longrightarrow> v < 2 ^ 32 \<longrightarrow>
        fst (write_dword a v b) = Some () \<and>
        (\<forall>x. mem (snd (write_dword a v b)) x =
           (if a \<le> x \<and> x < a + 4 then v div 2 ^ (8 * nat (x - a)) mod 256 else mem b x)))"

lemma page_base: "addr AND NOT (PAGE_SIZE - 1) = addr div 4096 * 4096"
proof -
  have "addr AND NOT (mask 12) = push_bit 12 (drop_bit 12 addr)"
    by (rule bit_eqI) (auto simp: bit_simps)
  moreover have "mask 12 = PAGE_SIZE - 1"
    by (simp add: mask_eq_exp_minus_1 PAGE_SIZE_def)
  ultimately show ?thesis
    by (simp add: push_bit_eq_mult drop_bit_eq_div)
qed

lemma ff_byte: "(0::int) \<le> k \<Longrightarrow> k < 4 \<Longrightarrow> 0xFFFFFFFF div 2 ^ (8 * nat k) mod 256 = (0xFF :: int)"
proof -
  assume "0 \<le> k" "k < 4"
  then have "k = 0 \<or> k = 1 \<or> k = 2 \<or> k = 3" by arith
  then show ?thesis by auto
qed

lemma erase_prefix:
  assumes "dword_bus mapped mem write_dword" and "\<forall>x \<in> {base..<base + 4 * int n}. mapped x"
  shows "\<exists>b'. bus_each (\<lambda>i. write_dword (base + i) 0xFFFFFFFF) (map (\<lambda>k. 4 * int k) [0..<n]) b = (Some (), b')
    \<and> (\<forall>x. mem b' x = (if base \<le> x \<and> x < base + 4 * int n then 0xFF else mem b x))"
  using assms(2)
proof (induction n)
  case 0
  then show ?case by simp
next
  case (Suc n)
  obtain b1 where b1: "bus_each (\<lambda>i. write_dword (base + i) 0xFFFFFFFF) (map (\<lambda>k. 4 * int k) [0..<n]) b = (Some (), b1)"
      "\<forall>x. mem b1 x = (if base \<le> x \<and> x < base + 4 * int n then 0xFF else mem b x)"
    using Suc by auto
  let ?a = "base + 4 * int n"
  have "\<forall>x \<in> {?a..<?a + 4}. mapped x" using Suc.prems by auto
  with assms(1) have w: "fst (write_dword ?a 0xFFFFFFFF b1) = Some ()"
      "\<forall>x. mem (snd (write_dword ?a 0xFFFFFFFF b1)) x =
         (if ?a \<le> x \<and> x < ?a + 4 then 0xFFFFFFFF div 2 ^ (8 * nat (x - ?a)) mod 256 else mem b1 x)"
    by (auto simp: dword_bus_def)
  obtain b2 where b2: "write_dword ?a 0xFFFFFFFF b1 = (Some (), b2)"
    using w(1) by (cases "write_dword ?a 0xFFFFFFFF b1") auto
  have "\<forall>x. mem b2 x = (if ?a \<le> x \<and> x < ?a + 4 then 0xFF else mem b1 x)"
    using w(2) b2 ff_byte[of "x - ?a" for x] by auto
  then have "\<forall>x. mem b2 x = (if base \<le> x \<and> x < base + 4 * int (Suc n) then 0xFF else mem b x)"
    using b1(2) by auto
  with b1 b2 show ?case by (simp add: bus_each_append)
qed

section \<open>Device identities\<close>

text \<open>
  \<open>device_addr_for_machine\<close> of \<open>renode_harness.py\<close>, and the two words that
  \<open>_materialize_ficr\<close> writes into a machine's copy of \<open>ficr.py\<close>.
\<close>

definition DEFAULT_DEVICE_ADDR :: int where "DEFAULT_DEVICE_ADDR = 0xC0E7E7E7E7E7"

definition device_addr_for_machine :: "int \<Rightarrow> int" where
  "device_addr_for_machine index =
     (let msb = DEFAULT_DEVICE_ADDR AND 0xFF0000000000;
          low = ((DEFAULT_DEVICE_ADDR AND 0xFFFFFFFFFF) + index) AND 0xFFFFFFFFFF
      in msb OR low)"

definition ficr_addr0 :: "int \<Rightarrow> int" where
  "ficr_addr0 device_addr = device_addr AND 0xFFFFFFFF"

definition ficr_addr1 :: "int \<Rightarrow> int" where
  "ficr_addr1 device_addr = drop_bit 32 device_addr AND 0xFFFF"

lemma and_ones: "(x :: int) AND (2 ^ n - 1) = x mod 2 ^ n"
  by (simp add: take_bit_eq_mod flip: take_bit_eq_mask mask_eq_exp_minus_1)

lemma device_addr_value:
  "device_addr_for_machine index = 0xC0 * 2 ^ 40 + (0xE7E7E7E7E7 + index) mod 2 ^ 40"
proof -
  let ?low = "(0xE7E7E7E7E7 + index) mod 2 ^ 40"
  have low: "((DEFAULT_DEVICE_ADDR AND 0xFFFFFFFFFF) + index) AND 0xFFFFFFFFFF = ?low"
    using and_ones[of "0xE7E7E7E7E7 + index" 40] by (simp add: DEFAULT_DEVICE_ADDR_def)
  have "(0xC00000000000 :: int) OR ?low = 0xC00000000000 + ?low"
  proof (rule disjunctive_add[symmetric])
    fix n
    have "bit (0xC00000000000 :: int) n \<Longrightarrow> 40 \<le> n"
    proof (rule ccontr)
      assume "bit (0xC00000000000 :: int) n" "\<not> 40 \<le> n"
      then have "bit (take_bit 40 (0xC00000000000 :: int)) n" by (simp only: bit_take_bit_iff) simp
      moreover have "take_bit 40 (0xC00000000000 :: int) = 0" by (simp add: take_bit_eq_mod)
      ultimately show False by simp
    qed
    moreover have "bit ?low n \<Longrightarrow> n < 40"
      using bit_take_bit_iff[of 40 "0xE7E7E7E7E7 + index" n] by (simp add: take_bit_eq_mod)
    ultimately show "\<not> bit (0xC00000000000 :: int) n \<or> \<not> bit ?low n" by fastforce
  qed
  with low show ?thesis
    by (simp add: device_addr_for_machine_def Let_def DEFAULT_DEVICE_ADDR_def)
qed

text \<open>A concrete memory for the witnesses: every address is mapped.\<close>

type_synonym ram = "int \<Rightarrow> int"

definition ram_write_dword :: "int \<Rightarrow> int \<Rightarrow> (ram, unit) bus_op" where
  "ram_write_dword a v m =
     (Some (), \<lambda>x. if a \<le> x \<and> x < a + 4 then v div 2 ^ (8 * nat (x - a)) mod 256 else m x)"

lemma ram_dword_bus: "dword_bus (\<lambda>_. True) (\<lambda>m. m) ram_write_dword"
  by (simp add: dword_bus_def ram_write_dword_def)

section \<open>Properties\<close>

text \<open>
  C17. Erasing a flash page.  Writing an address to any of the three page-erase registers
  fills the 4 KiB page that holds the address with 0xFF, changes no byte outside it, and
  leaves the controller's registers alone.
\<close>

theorem nvmc_erases_page:
  assumes "dword_bus mapped mem write_dword"
    and "off \<in> {OFF_ERASEPAGE, OFF_ERASEPCR0, OFF_ERASEPAGEPARTIAL}"
    and "\<forall>x. x div 4096 = addr div 4096 \<longrightarrow> mapped x"
  shows "fst (fst (nvmc_step write_dword (st, b) (Write off addr))) = st \<and>
    (\<forall>x. mem (snd (fst (nvmc_step write_dword (st, b) (Write off addr)))) x =
       (if x div 4096 = addr div 4096 then 0xFF else mem b x))"
proof -
  let ?base = "addr div 4096 * 4096"
  have in_page: "?base \<le> x \<and> x < ?base + 4096 \<longleftrightarrow> x div 4096 = addr div 4096" for x :: int
  proof
    assume "x div 4096 = addr div 4096"
    then show "?base \<le> x \<and> x < ?base + 4096"
      using div_mult_mod_eq[of x 4096] pos_mod_bound[of 4096 x] pos_mod_sign[of 4096 x] by linarith
  next
    assume "?base \<le> x \<and> x < ?base + 4096"
    then show "x div 4096 = addr div 4096"
      by (intro int_div_pos_eq[of x 4096 _ "x - ?base"]) auto
  qed
  have "\<forall>x \<in> {?base..<?base + 4 * int 1024}. mapped x"
    using assms(3) in_page by auto
  from erase_prefix[OF assms(1) this, of b] obtain b' where
    "bus_each (\<lambda>i. write_dword (?base + i) 0xFFFFFFFF) (map (\<lambda>k. 4 * int k) [0..<1024]) b = (Some (), b')"
    and mem: "\<forall>x. mem b' x = (if ?base \<le> x \<and> x < ?base + 4096 then 0xFF else mem b x)"
    by auto
  then have "erase_page write_dword addr b = (Some (), b')"
    using page_base[of addr] by (simp add: erase_page_def PAGE_SIZE_def)
  then show ?thesis
    using assms(2) mem in_page by (auto simp: nvmc_step_def nvmc_write_def nvmc_offsets)
qed

theorem nvmc_erases_page_witness:
  "fst (fst (nvmc_step ram_write_dword (nvmc_init, \<lambda>_. 0) (Write OFF_ERASEPAGE 0xEC010))) = nvmc_init \<and>
   (\<forall>x. snd (fst (nvmc_step ram_write_dword (nvmc_init, \<lambda>_. 0) (Write OFF_ERASEPAGE 0xEC010))) x =
      (if x div 4096 = 0xEC010 div 4096 then 0xFF else 0))"
  using nvmc_erases_page[OF ram_dword_bus, of OFF_ERASEPAGE "0xEC010" nvmc_init "\<lambda>_. 0"] by simp

text \<open>
  No erase and no write ever leaves the flash controller busy, whatever the bus does,
  failing calls included: after any requests the two ready registers read 1, so a driver
  that polls them never spins, and polling changes nothing.
\<close>

theorem nvmc_always_ready:
  assumes "off \<in> {OFF_READY, OFF_READYNEXT}"
  shows "run_requests (nvmc_step write_dword) (fst (run_requests (nvmc_step write_dword) s rs))
      (replicate n (Read off))
    = (fst (run_requests (nvmc_step write_dword) s rs), replicate n (Some 1))"
  using assms nvmc.polling[OF TrueI, of write_dword _ n off]
  by (auto simp: nvmc_step_def nvmc_read_def)

theorem nvmc_always_ready_witness:
  "run_requests (nvmc_step (\<lambda>_ _ b. (None, b)))
      (fst (run_requests (nvmc_step (\<lambda>_ _ b. (None, b))) (nvmc_init, ()) [Write OFF_ERASEPAGE 0xEC000]))
      (replicate 2 (Read OFF_READY))
    = (fst (run_requests (nvmc_step (\<lambda>_ _ b. (None, b))) (nvmc_init, ()) [Write OFF_ERASEPAGE 0xEC000]),
       replicate 2 (Some 1))"
  by (rule nvmc_always_ready) simp

text \<open>
  C38. Machine identities.  Two machines of one emulation never share a BLE address while
  their indices differ by less than \<open>2 ^ 40\<close>; every address is a 48-bit static-random
  address (top byte 0xC0); and machine 0 keeps the default address.
\<close>

theorem device_addrs_distinct:
  assumes "0 \<le> i" "i < 2 ^ 40" "0 \<le> j" "j < 2 ^ 40" "i \<noteq> j"
  shows "device_addr_for_machine i \<noteq> device_addr_for_machine j
    \<and> device_addr_for_machine i div 2 ^ 40 = 0xC0
    \<and> device_addr_for_machine 0 = DEFAULT_DEVICE_ADDR"
proof -
  have "(0xE7E7E7E7E7 + i) mod 2 ^ 40 \<noteq> (0xE7E7E7E7E7 + j) mod 2 ^ 40"
  proof
    assume "(0xE7E7E7E7E7 + i) mod 2 ^ 40 = (0xE7E7E7E7E7 + j) mod 2 ^ 40"
    then have "2 ^ 40 dvd ((0xE7E7E7E7E7 + i) - (0xE7E7E7E7E7 + j))"
      by (rule mod_eq_dvd_iff[THEN iffD1])
    then have "2 ^ 40 dvd \<bar>i - j\<bar>" by simp
    moreover have "\<bar>i - j\<bar> < 2 ^ 40" "0 < \<bar>i - j\<bar>" using assms by auto
    ultimately show False using zdvd_imp_le[of "2 ^ 40" "\<bar>i - j\<bar>"] by linarith
  qed
  moreover have "0 \<le> (0xE7E7E7E7E7 + i) mod 2 ^ 40" "(0xE7E7E7E7E7 + i) mod 2 ^ 40 < 2 ^ 40"
    by simp_all
  ultimately show ?thesis
    by (simp add: device_addr_value DEFAULT_DEVICE_ADDR_def)
qed

theorem device_addrs_distinct_witness:
  "device_addr_for_machine 0 \<noteq> device_addr_for_machine 2
    \<and> device_addr_for_machine 0 div 2 ^ 40 = 0xC0
    \<and> device_addr_for_machine 0 = DEFAULT_DEVICE_ADDR"
  by (rule device_addrs_distinct) simp_all

text \<open>
  A machine serves its own identity: the two \<open>DEVICEADDR\<close> words that firmware reads
  from the FICR copy materialised for machine \<open>i\<close>, put together, are exactly the address of
  machine \<open>i\<close>, and the default copy serves that of machine 0.
\<close>

theorem ficr_serves_identity:
  "\<exists>lo hi. snd (ficr_step (ficr_addr0 (device_addr_for_machine i)) (ficr_addr1 (device_addr_for_machine i))
        () (Read 0x0A4)) = Some lo
    \<and> snd (ficr_step (ficr_addr0 (device_addr_for_machine i)) (ficr_addr1 (device_addr_for_machine i))
        () (Read 0x0A8)) = Some hi
    \<and> hi * 2 ^ 32 + lo = device_addr_for_machine i
    \<and> ficr_addr0 (device_addr_for_machine 0) = DEVICEADDR0
    \<and> ficr_addr1 (device_addr_for_machine 0) = DEVICEADDR1"
proof -
  let ?a = "device_addr_for_machine i"
  have "0 \<le> (0xE7E7E7E7E7 + i) mod 2 ^ 40" "(0xE7E7E7E7E7 + i) mod 2 ^ 40 < 2 ^ 40" by simp_all
  then have "0 \<le> ?a" "?a < 2 ^ 48" by (simp_all add: device_addr_value)
  then have "?a div 2 ^ 32 < 2 ^ 16" "0 \<le> ?a div 2 ^ 32"
    by (simp_all add: div_less_iff_less_mult pos_imp_zdiv_nonneg_iff)
  then have "ficr_addr1 ?a = ?a div 2 ^ 32"
    using and_ones[of "?a div 2 ^ 32" 16] by (simp add: ficr_addr1_def drop_bit_eq_div)
  moreover have "ficr_addr0 ?a = ?a mod 2 ^ 32"
    using and_ones[of ?a 32] by (simp add: ficr_addr0_def)
  moreover have "?a div 2 ^ 32 * 2 ^ 32 + ?a mod 2 ^ 32 = ?a"
    by (rule div_mult_mod_eq)
  moreover have "ficr_addr0 (device_addr_for_machine 0) = DEVICEADDR0"
      "ficr_addr1 (device_addr_for_machine 0) = DEVICEADDR1"
    by (simp_all add: device_addr_value ficr_addr0_def ficr_addr1_def DEVICEADDR0_def
        DEVICEADDR1_def drop_bit_eq_div)
  ultimately show ?thesis
    by (simp add: ficr_step_def ficr_vals_def)
qed

end
