(* ===== verification/Fake_Ccm.thy ===== *)
theory Fake_Ccm
  imports Mmio_Models
begin

text \<open>
  The fake AES-CCM peripheral \<open>scripts/lib/renode/platforms/models/ccm.py\<close>: an identity
  transform with a dummy 4-byte MIC that both ends of an emulated BLE link run.  The model
  keeps its registers and events per machine; the memory it transforms is Renode's, reached
  through the parameters \<open>rd\<close> (\<open>SystemBus.ReadByte\<close>) and \<open>wr\<close> (\<open>SystemBus.WriteByte\<close>).
\<close>

definition MIC_LEN :: int where "MIC_LEN = 4"

definition TASKS_KSGEN :: int where "TASKS_KSGEN = 0x000"
definition TASKS_CRYPT :: int where "TASKS_CRYPT = 0x004"
definition TASKS_STOP :: int where "TASKS_STOP = 0x008"
definition EVENTS_ENDKSGEN :: int where "EVENTS_ENDKSGEN = 0x100"
definition EVENTS_ENDCRYPT :: int where "EVENTS_ENDCRYPT = 0x104"
definition EVENTS_ERROR :: int where "EVENTS_ERROR = 0x108"
definition SHORTS :: int where "SHORTS = 0x200"
definition MICSTATUS :: int where "MICSTATUS = 0x400"
definition MODE :: int where "MODE = 0x504"
definition INPTR :: int where "INPTR = 0x50C"
definition OUTPTR :: int where "OUTPTR = 0x510"

lemmas ccm_offsets = TASKS_KSGEN_def TASKS_CRYPT_def TASKS_STOP_def EVENTS_ENDKSGEN_def
  EVENTS_ENDCRYPT_def EVENTS_ERROR_def SHORTS_def MICSTATUS_def MODE_def INPTR_def OUTPTR_def

record ccm_op =
  op_mode :: int
  op_inptr :: int
  op_outptr :: int

record ccm_state =
  regs :: "int \<rightharpoonup> int"
  endksgen :: int
  endcrypt :: int
  error :: int
  micstatus :: int
  pending :: "ccm_op option"

definition ccm_fresh :: ccm_state where
  "ccm_fresh = \<lparr>regs = Map.empty, endksgen = 0, endcrypt = 0, error = 0, micstatus = 0, pending = None\<rparr>"

definition reg_get :: "ccm_state \<Rightarrow> int \<Rightarrow> int" where
  "reg_get st off = (case regs st off of None \<Rightarrow> 0 | Some v \<Rightarrow> v)"

section \<open>The transform\<close>

type_synonym 'b rd_op = "int \<Rightarrow> ('b, int) bus_op"
type_synonym 'b wr_op = "int \<Rightarrow> int \<Rightarrow> ('b, unit) bus_op"

definition PAY :: int where "PAY = 3"

definition upto_int :: "int \<Rightarrow> int list" where
  "upto_int n = map int [0..<nat n]"

definition copy_payload :: "'b rd_op \<Rightarrow> 'b wr_op \<Rightarrow> int \<Rightarrow> int \<Rightarrow> int \<Rightarrow> ('b, unit) bus_op" where
  "copy_payload rd wr inptr outptr n =
     bus_each (\<lambda>i. bus_bind (rd (inptr + PAY + i)) (\<lambda>v. wr (outptr + PAY + i) v)) (upto_int n)"

text \<open>The body of the \<open>try\<close> block up to the events; it returns \<open>length\<close>.\<close>

definition transform_pdu :: "'b rd_op \<Rightarrow> 'b wr_op \<Rightarrow> bool \<Rightarrow> int \<Rightarrow> int \<Rightarrow> ('b, int) bus_op" where
  "transform_pdu rd wr decrypt inptr outptr =
     bus_bind (rd inptr) (\<lambda>header.
     bus_bind (rd (inptr + 1)) (\<lambda>len.
     bus_bind (wr outptr header) (\<lambda>_.
     if len = 0 then bus_bind (wr (outptr + 1) 0) (\<lambda>_. bus_ret len)
     else if decrypt then
       (let plain_len = (if len - MIC_LEN < 0 then 0 else len - MIC_LEN) in
        bus_bind (wr (outptr + 1) plain_len) (\<lambda>_.
        bus_bind (wr (outptr + 2) 0) (\<lambda>_.
        bus_bind (copy_payload rd wr inptr outptr plain_len) (\<lambda>_. bus_ret len))))
     else
       bus_bind (wr (outptr + 1) (len + MIC_LEN)) (\<lambda>_.
       bus_bind (wr (outptr + 2) 0) (\<lambda>_.
       bus_bind (copy_payload rd wr inptr outptr len) (\<lambda>_.
       bus_bind (bus_each (\<lambda>i. wr (outptr + PAY + len + i) 0xA5) (upto_int MIC_LEN))
         (\<lambda>_. bus_ret len)))))))"

text \<open>The debug dump reads up to eight payload bytes, and can raise like any read.\<close>

definition dump_pdu :: "'b rd_op \<Rightarrow> int \<Rightarrow> int \<Rightarrow> ('b, unit) bus_op" where
  "dump_pdu rd inptr len =
     bus_each (\<lambda>i. bus_bind (rd (inptr + PAY + i)) (\<lambda>_. bus_ret ())) (upto_int (min len 8))"

definition do_transform :: "'b rd_op \<Rightarrow> 'b wr_op \<Rightarrow> ccm_state \<times> 'b \<Rightarrow> ccm_state \<times> 'b" where
  "do_transform rd wr = (\<lambda>(st, b).
     (case pending st of
        None \<Rightarrow> (st, b)
      | Some op \<Rightarrow>
         (let st1 = st\<lparr>pending := None\<rparr>;
              decrypt = (op_mode op = 1);
              done = st1\<lparr>endcrypt := 1, error := 0, micstatus := (if decrypt then 1 else 0)\<rparr>
          in if op_inptr op = 0 \<or> op_outptr op = 0 then (done, b)
             else
               (case transform_pdu rd wr decrypt (op_inptr op) (op_outptr op) b of
                  (None, b') \<Rightarrow> (st1\<lparr>error := 1, endcrypt := 1\<rparr>, b')
                | (Some len, b') \<Rightarrow>
                   (case dump_pdu rd (op_inptr op) len b' of
                      (None, b'') \<Rightarrow> (done\<lparr>error := 1, endcrypt := 1\<rparr>, b'')
                    | (Some _, b'') \<Rightarrow> (done, b''))))))"

definition schedule :: "'b rd_op \<Rightarrow> 'b wr_op \<Rightarrow> ccm_state \<times> 'b \<Rightarrow> ccm_state \<times> 'b" where
  "schedule rd wr = (\<lambda>(st, b).
     do_transform rd wr
       (st\<lparr>pending := Some \<lparr>op_mode = reg_get st MODE AND 0x1,
                            op_inptr = reg_get st INPTR,
                            op_outptr = reg_get st OUTPTR\<rparr>\<rparr>, b))"

section \<open>Register accesses\<close>

definition ccm_read :: "'b rd_op \<Rightarrow> 'b wr_op \<Rightarrow> ccm_state \<times> 'b \<Rightarrow> int \<Rightarrow> (ccm_state \<times> 'b) \<times> int" where
  "ccm_read rd wr s off =
     (let s' = (if off \<in> {EVENTS_ENDCRYPT, MICSTATUS} then do_transform rd wr s else s);
          st = fst s'
      in (s', if off = EVENTS_ENDKSGEN then endksgen st
              else if off = EVENTS_ENDCRYPT then endcrypt st
              else if off = EVENTS_ERROR then error st
              else if off = MICSTATUS then micstatus st
              else reg_get st off))"

definition ccm_write :: "'b rd_op \<Rightarrow> 'b wr_op \<Rightarrow> ccm_state \<times> 'b \<Rightarrow> int \<Rightarrow> int \<Rightarrow> ccm_state \<times> 'b" where
  "ccm_write rd wr = (\<lambda>(st, b) off v.
     if off = TASKS_KSGEN then
       (let st' = st\<lparr>endksgen := 1\<rparr> in
        if reg_get st' SHORTS AND 0x1 \<noteq> 0 then schedule rd wr (st', b) else (st', b))
     else if off = TASKS_CRYPT then schedule rd wr (st, b)
     else if off = TASKS_STOP then (st\<lparr>pending := None\<rparr>, b)
     else if off \<in> {EVENTS_ENDKSGEN, EVENTS_ENDCRYPT, EVENTS_ERROR} then
       (if off = EVENTS_ENDKSGEN then (st\<lparr>endksgen := v\<rparr>, b)
        else if off = EVENTS_ENDCRYPT then (st\<lparr>endcrypt := v\<rparr>, b)
        else (st\<lparr>error := v\<rparr>, b))
     else (st\<lparr>regs := (regs st)(off \<mapsto> v)\<rparr>, b))"

definition ccm_step ::
  "'b rd_op \<Rightarrow> 'b wr_op \<Rightarrow> ccm_state \<times> 'b \<Rightarrow> request \<Rightarrow> (ccm_state \<times> 'b) \<times> int option"
where
  "ccm_step rd wr s r = (case r of
     Init \<Rightarrow> (s, None)
   | Read off \<Rightarrow> (case ccm_read rd wr s off of (s', v) \<Rightarrow> (s', Some v))
   | Write off v \<Rightarrow> (ccm_write rd wr s off v, None))"

text \<open>
  \<open>_state\<close>: the file serves every machine of the emulation; the state is looked up by the
  machine's name and created on its first access.  \<open>buses\<close> holds each machine's own bus.
\<close>

type_synonym 'b ccm_world = "(string \<rightharpoonup> ccm_state) \<times> (string \<Rightarrow> 'b)"

definition machine_state :: "(string \<rightharpoonup> ccm_state) \<Rightarrow> string \<Rightarrow> ccm_state" where
  "machine_state root key = (case root key of None \<Rightarrow> ccm_fresh | Some st \<Rightarrow> st)"

definition ccm_request ::
  "'b rd_op \<Rightarrow> 'b wr_op \<Rightarrow> string \<Rightarrow> 'b ccm_world \<Rightarrow> request \<Rightarrow> 'b ccm_world \<times> int option"
where
  "ccm_request rd wr key w r =
     (if r = Init then (w, None)
      else (case ccm_step rd wr (machine_state (fst w) key, snd w key) r of
        ((st, b), v) \<Rightarrow> (((fst w)(key \<mapsto> st), (snd w)(key := b)), v)))"

section \<open>The eager transform\<close>

definition ccm_idle :: "ccm_state \<times> 'b \<Rightarrow> bool" where
  "ccm_idle s \<longleftrightarrow> pending (fst s) = None"

lemma do_transform_idle: "ccm_idle (do_transform rd wr s)"
  by (auto simp: do_transform_def ccm_idle_def Let_def split: prod.splits option.splits)

lemma do_transform_noop: "ccm_idle s \<Longrightarrow> do_transform rd wr s = s"
  by (cases s) (simp add: do_transform_def ccm_idle_def)

lemma schedule_idle: "ccm_idle (schedule rd wr s)"
  by (simp add: schedule_def do_transform_idle split: prod.splits)

lemma ccm_write_idle: "ccm_idle s \<Longrightarrow> ccm_idle (ccm_write rd wr s off v)"
  using schedule_idle[of rd wr, unfolded ccm_idle_def]
  by (cases s) (simp add: ccm_write_def Let_def ccm_idle_def)

lemma ccm_read_idle: "ccm_idle s \<Longrightarrow> fst (ccm_read rd wr s off) = s"
  by (auto simp: ccm_read_def Let_def do_transform_noop)

interpretation ccm: mmio_model ccm_idle "ccm_step rd wr" for rd wr
proof unfold_locales
  fix s :: "ccm_state \<times> 'a" and r
  assume "ccm_idle s"
  then show "ccm_idle (fst (ccm_step rd wr s r))"
  proof (cases r)
    case (Read off)
    with \<open>ccm_idle s\<close> ccm_read_idle[of s rd wr off] show ?thesis
      by (cases "ccm_read rd wr s off") (auto simp: ccm_step_def)
  qed (simp_all add: ccm_step_def ccm_write_idle)
next
  fix s :: "ccm_state \<times> 'a" and off
  assume "ccm_idle s"
  then show "fst (ccm_step rd wr s (Read off)) = s"
    using ccm_read_idle[of s rd wr off]
    by (cases "ccm_read rd wr s off") (auto simp: ccm_step_def)
next
  fix s :: "ccm_state \<times> 'a" and r
  show "(snd (ccm_step rd wr s r) \<noteq> None) = is_read r"
    by (cases r) (auto simp: ccm_step_def split: prod.splits)
qed

section \<open>What the transform does to memory\<close>

text \<open>
  The documented behaviour of a byte-addressed bus: mapped bytes read back what they hold, a
  value that fits a byte can be written, and nothing else changes.
\<close>

definition byte_bus :: "(int \<Rightarrow> bool) \<Rightarrow> ('b \<Rightarrow> int \<Rightarrow> int) \<Rightarrow> 'b rd_op \<Rightarrow> 'b wr_op \<Rightarrow> bool" where
  "byte_bus mapped mem rd wr \<longleftrightarrow>
     (\<forall>b a. mapped a \<longrightarrow> rd a b = (Some (mem b a), b) \<and> 0 \<le> mem b a \<and> mem b a < 256) \<and>
     (\<forall>b a v. mapped a \<longrightarrow> 0 \<le> v \<longrightarrow> v < 256 \<longrightarrow>
        fst (wr a v b) = Some () \<and> mem (snd (wr a v b)) = (mem b)(a := v))"

text \<open>A PDU in memory: header, length, a reserved byte, then the payload.\<close>

definition pdu_at :: "(int \<Rightarrow> int) \<Rightarrow> int \<Rightarrow> int \<Rightarrow> int list \<Rightarrow> bool" where
  "pdu_at m a hdr bs \<longleftrightarrow>
     m a = hdr \<and> m (a + 1) = int (length bs) \<and> (\<forall>k < length bs. m (a + 3 + int k) = bs ! k)"

definition region :: "int \<Rightarrow> int \<Rightarrow> int set" where
  "region a n = {a..<a + n}"

lemma in_region [simp]: "x \<in> region a n \<longleftrightarrow> a \<le> x \<and> x < a + n"
  by (auto simp: region_def)

lemma byte_busD:
  assumes "byte_bus mapped mem rd wr" and "mapped a"
  shows "rd a b = (Some (mem b a), b)" "0 \<le> mem b a" "mem b a < 256"
    and "0 \<le> v \<Longrightarrow> v < 256 \<Longrightarrow> \<exists>b'. wr a v b = (Some (), b') \<and> mem b' = (mem b)(a := v)"
  using assms by (auto simp: byte_bus_def) (metis prod.collapse)

lemma copy_ok:
  assumes bus: "byte_bus mapped mem rd wr"
    and map: "\<forall>k < n. mapped (i + 3 + int k) \<and> mapped (d + 3 + int k)"
    and sep: "i + 3 + int n \<le> d + 3 \<or> d + 3 + int n \<le> i + 3"
  shows "\<exists>b'. copy_payload rd wr i d (int n) b = (Some (), b') \<and>
    mem b' = (\<lambda>x. if d + 3 \<le> x \<and> x < d + 3 + int n then mem b (x - d + i) else mem b x)"
proof -
  let ?f = "\<lambda>k. bus_bind (rd (i + PAY + k)) (\<lambda>v. wr (d + PAY + k) v)"
  have "m \<le> n \<Longrightarrow> \<exists>b'. bus_each ?f (map int [0..<m]) b = (Some (), b') \<and>
    mem b' = (\<lambda>x. if d + 3 \<le> x \<and> x < d + 3 + int m then mem b (x - d + i) else mem b x)" for m
  proof (induction m)
    case 0
    then show ?case by auto
  next
    case (Suc m)
    then obtain b1 where b1: "bus_each ?f (map int [0..<m]) b = (Some (), b1)"
      "mem b1 = (\<lambda>x. if d + 3 \<le> x \<and> x < d + 3 + int m then mem b (x - d + i) else mem b x)"
      by auto
    have mp: "mapped (i + 3 + int m)" "mapped (d + 3 + int m)" using map Suc.prems by auto
    note r = byte_busD(1-3)[OF bus mp(1), of b1]
    have src: "mem b1 (i + 3 + int m) = mem b (i + 3 + int m)"
      using sep Suc.prems by (auto simp: b1(2))
    obtain b2 where b2: "wr (d + 3 + int m) (mem b (i + 3 + int m)) b1 = (Some (), b2)"
      "mem b2 = (mem b1)(d + 3 + int m := mem b (i + 3 + int m))"
      using byte_busD(4)[OF bus mp(2), of "mem b (i + 3 + int m)" b1] r src by auto
    have "bus_each ?f (map int [0..<Suc m]) b = (Some (), b2)"
      using b1(1) r(1) src b2(1) by (simp add: bus_each_append PAY_def)
    moreover have "mem b2 = (\<lambda>x. if d + 3 \<le> x \<and> x < d + 3 + int (Suc m) then mem b (x - d + i) else mem b x)"
      unfolding b2(2) b1(2) by (auto simp: fun_eq_iff intro: arg_cong[of _ _ "mem b"])
    ultimately show ?case by blast
  qed
  from this[of n] show ?thesis by (simp add: copy_payload_def upto_int_def)
qed

lemma fill_ok:
  assumes bus: "byte_bus mapped mem rd wr" and map: "\<forall>k < n. mapped (d + int k)"
    and v: "0 \<le> v" "v < 256"
  shows "\<exists>b'. bus_each (\<lambda>k. wr (d + k) v) (map int [0..<n]) b = (Some (), b') \<and>
    mem b' = (\<lambda>x. if d \<le> x \<and> x < d + int n then v else mem b x)"
  using map
proof (induction n)
  case 0
  then show ?case by auto
next
  case (Suc n)
  then obtain b1 where b1: "bus_each (\<lambda>k. wr (d + k) v) (map int [0..<n]) b = (Some (), b1)"
    "mem b1 = (\<lambda>x. if d \<le> x \<and> x < d + int n then v else mem b x)"
    by auto
  obtain b2 where b2: "wr (d + int n) v b1 = (Some (), b2)" "mem b2 = (mem b1)(d + int n := v)"
    using byte_busD(4)[OF bus _ v, of "d + int n" b1] Suc.prems by auto
  have "mem b2 = (\<lambda>x. if d \<le> x \<and> x < d + int (Suc n) then v else mem b x)"
    unfolding b2(2) b1(2) by (auto simp: fun_eq_iff)
  with b1(1) b2(1) show ?case by (simp add: bus_each_append)
qed

lemma dump_ok:
  assumes bus: "byte_bus mapped mem rd wr" and map: "\<forall>k < n. mapped (i + 3 + int k)"
  shows "dump_pdu rd i (int n) b = (Some (), b)"
proof -
  have "m \<le> n \<Longrightarrow> bus_each (\<lambda>k. bus_bind (rd (i + PAY + k)) (\<lambda>_. bus_ret ())) (map int [0..<m]) b
      = (Some (), b)" for m
    using map by (induction m) (simp_all add: bus_each_append PAY_def byte_busD(1)[OF bus])
  moreover have "nat (min (int n) 8) = min n 8" by (simp add: min_def)
  ultimately show ?thesis by (simp add: dump_pdu_def upto_int_def)
qed

text \<open>
  The buffers of an operation: \<open>n\<close> bytes from \<open>i\<close> and \<open>m\<close> bytes from \<open>d\<close>, mapped and
  apart.
\<close>

definition buffers :: "(int \<Rightarrow> bool) \<Rightarrow> int \<Rightarrow> int \<Rightarrow> int \<Rightarrow> int \<Rightarrow> bool" where
  "buffers mapped i n d m \<longleftrightarrow>
     i \<noteq> 0 \<and> d \<noteq> 0 \<and> (\<forall>x \<in> region i n \<union> region d m. mapped x) \<and> (i + n \<le> d \<or> d + m \<le> i)"

definition same_outside :: "int set \<Rightarrow> (int \<Rightarrow> int) \<Rightarrow> (int \<Rightarrow> int) \<Rightarrow> bool" where
  "same_outside A m m' \<longleftrightarrow> (\<forall>x. x \<notin> A \<longrightarrow> m' x = m x)"

definition mic :: "int list" where "mic = [0xA5, 0xA5, 0xA5, 0xA5]"

lemma header_ok:
  assumes bus: "byte_bus mapped mem rd wr" and "mapped d" "mapped (d + 1)" "mapped (d + 2)"
    and "0 \<le> h" "h < 256" "0 \<le> l" "l < 256"
  obtains b1 b2 b3 where "wr d h b = (Some (), b1)" "wr (d + 1) l b1 = (Some (), b2)"
    "wr (d + 2) 0 b2 = (Some (), b3)" "mem b3 = (mem b)(d := h, d + 1 := l, d + 2 := 0)"
proof -
  obtain b1 where 1: "wr d h b = (Some (), b1)" "mem b1 = (mem b)(d := h)"
    using byte_busD(4)[OF bus assms(2) assms(5,6)] by blast
  obtain b2 where 2: "wr (d + 1) l b1 = (Some (), b2)" "mem b2 = (mem b1)(d + 1 := l)"
    using byte_busD(4)[OF bus assms(3) assms(7,8)] by blast
  obtain b3 where 3: "wr (d + 2) 0 b2 = (Some (), b3)" "mem b3 = (mem b2)(d + 2 := 0)"
    using byte_busD(4)[OF bus assms(4), of 0] by auto
  show thesis using that[OF 1(1) 2(1) 3(1)] 1 2 3 by simp
qed

lemma transform_encrypt:
  assumes bus: "byte_bus mapped mem rd wr" and pdu: "pdu_at (mem b) i h bs"
    and len: "bs \<noteq> []" "length bs \<le> 251"
    and buf: "buffers mapped i (3 + int (length bs)) d (7 + int (length bs))"
  shows "\<exists>b'. transform_pdu rd wr False i d b = (Some (int (length bs)), b') \<and>
    pdu_at (mem b') d h (bs @ mic) \<and> same_outside (region d (7 + int (length bs))) (mem b) (mem b')"
proof -
  let ?n = "length bs"
  have mp: "mapped x" if "x \<in> region i (3 + int ?n) \<union> region d (7 + int ?n)" for x
    using buf that by (auto simp: buffers_def)
  have mi: "mapped i" "mapped (i + 1)" and md: "mapped d" "mapped (d + 1)" "mapped (d + 2)"
    by (auto intro!: mp)
  have rd: "rd i b = (Some h, b)" "rd (i + 1) c = (Some (mem c (i + 1)), c)" "0 \<le> h" "h < 256" for c
    using byte_busD(1-3)[OF bus mi(1), of b] byte_busD(1)[OF bus mi(2), of c] pdu
    by (auto simp: pdu_at_def)
  have ln: "mem b (i + 1) = int ?n" using pdu by (simp add: pdu_at_def)
  obtain b1 b2 b3 where w: "wr d h b = (Some (), b1)" "wr (d + 1) (int ?n + 4) b1 = (Some (), b2)"
    "wr (d + 2) 0 b2 = (Some (), b3)" "mem b3 = (mem b)(d := h, d + 1 := int ?n + 4, d + 2 := 0)"
    using header_ok[OF bus md rd(3,4), of "int ?n + 4" b] len(2) by auto
  have sep: "i + 3 + int ?n \<le> d \<or> d + 7 + int ?n \<le> i" using buf by (auto simp: buffers_def)
  obtain b4 where c: "copy_payload rd wr i d (int ?n) b3 = (Some (), b4)"
    "mem b4 = (\<lambda>x. if d + 3 \<le> x \<and> x < d + 3 + int ?n then mem b3 (x - d + i) else mem b3 x)"
    using copy_ok[OF bus, of ?n i d b3] mp sep by auto
  obtain b5 where f: "bus_each (\<lambda>k. wr (d + PAY + int ?n + k) 0xA5) (map int [0..<4]) b4 = (Some (), b5)"
    "mem b5 = (\<lambda>x. if d + 3 + int ?n \<le> x \<and> x < d + 3 + int ?n + 4 then 0xA5 else mem b4 x)"
    using fill_ok[OF bus, of 4 "d + 3 + int ?n" "0xA5" b4] mp by (auto simp: PAY_def)
  have upto: "upto_int MIC_LEN = map int [0..<4]" by (simp add: upto_int_def MIC_LEN_def)
  have run: "transform_pdu rd wr False i d b = (Some (int ?n), b5)"
    using len(1) rd ln w c(1) f(1) by (simp add: transform_pdu_def upto) (simp add: MIC_LEN_def)
  have pay: "mem b5 (d + 3 + int k) = (bs @ mic) ! k" if "k < ?n + 4" for k
  proof (cases "k < ?n")
    case True
    then have "mem b3 (i + 3 + int k) = bs ! k"
      using pdu sep by (auto simp: w(4) pdu_at_def)
    moreover have "i + 3 + int k = 3 + int k + i" by simp
    ultimately have "mem b3 (3 + int k + i) = bs ! k" by (rule subst[rotated])
    with True show ?thesis by (simp add: f(2) c(2) nth_append)
  next
    case False
    with that have j: "k = ?n + (k - ?n)" "k - ?n < 4" by auto
    let ?j = "k - ?n"
    from j(2) have "?j = 0 \<or> ?j = 1 \<or> ?j = 2 \<or> ?j = 3" by arith
    then have "mic ! ?j = 0xA5" by (elim disjE) (simp_all add: mic_def)
    with False that show ?thesis by (simp add: f(2) nth_append)
  qed
  have "pdu_at (mem b5) d h (bs @ mic)"
    using pay by (auto simp: pdu_at_def mic_def f(2) c(2) w(4))
  moreover have "same_outside (region d (7 + int ?n)) (mem b) (mem b5)"
    by (auto simp: same_outside_def f(2) c(2) w(4))
  ultimately show ?thesis using run by blast
qed

lemma transform_decrypt:
  assumes bus: "byte_bus mapped mem rd wr" and pdu: "pdu_at (mem b) i h (bs @ tl4)"
    and len: "length tl4 = 4" "length bs \<le> 251"
    and buf: "buffers mapped i (7 + int (length bs)) d (3 + int (length bs))"
  shows "\<exists>b'. transform_pdu rd wr True i d b = (Some (int (length bs) + 4), b') \<and>
    pdu_at (mem b') d h bs \<and> same_outside (region d (3 + int (length bs))) (mem b) (mem b')"
proof -
  let ?n = "length bs"
  have mp: "mapped x" if "x \<in> region i (7 + int ?n) \<union> region d (3 + int ?n)" for x
    using buf that by (auto simp: buffers_def)
  have mi: "mapped i" "mapped (i + 1)" and md: "mapped d" "mapped (d + 1)" "mapped (d + 2)"
    by (auto intro!: mp)
  have rd: "rd i b = (Some h, b)" "rd (i + 1) c = (Some (mem c (i + 1)), c)" "0 \<le> h" "h < 256" for c
    using byte_busD(1-3)[OF bus mi(1), of b] byte_busD(1)[OF bus mi(2), of c] pdu
    by (auto simp: pdu_at_def)
  have ln: "mem b (i + 1) = int ?n + 4" using pdu len(1) by (simp add: pdu_at_def)
  obtain b1 b2 b3 where w: "wr d h b = (Some (), b1)" "wr (d + 1) (int ?n) b1 = (Some (), b2)"
    "wr (d + 2) 0 b2 = (Some (), b3)" "mem b3 = (mem b)(d := h, d + 1 := int ?n, d + 2 := 0)"
    using header_ok[OF bus md rd(3,4), of "int ?n" b] len(2) by auto
  have sep: "i + 7 + int ?n \<le> d \<or> d + 3 + int ?n \<le> i" using buf by (auto simp: buffers_def)
  obtain b4 where c: "copy_payload rd wr i d (int ?n) b3 = (Some (), b4)"
    "mem b4 = (\<lambda>x. if d + 3 \<le> x \<and> x < d + 3 + int ?n then mem b3 (x - d + i) else mem b3 x)"
    using copy_ok[OF bus, of ?n i d b3] mp sep by auto
  have run: "transform_pdu rd wr True i d b = (Some (int ?n + 4), b4)"
    using rd ln w c(1) by (simp add: transform_pdu_def MIC_LEN_def Let_def)
  have "mem b4 (d + 3 + int k) = bs ! k" if "k < ?n" for k
  proof -
    have "mem b3 (i + 3 + int k) = bs ! k"
      using pdu sep that by (auto simp: w(4) pdu_at_def nth_append)
    moreover have "i + 3 + int k = 3 + int k + i" by simp
    ultimately have "mem b3 (3 + int k + i) = bs ! k" by (rule subst[rotated])
    with that show ?thesis by (simp add: c(2))
  qed
  then have "pdu_at (mem b4) d h bs" by (auto simp: pdu_at_def c(2) w(4))
  moreover have "same_outside (region d (3 + int ?n)) (mem b) (mem b4)"
    by (auto simp: same_outside_def c(2) w(4))
  ultimately show ?thesis using run by blast
qed

lemma transform_empty:
  assumes bus: "byte_bus mapped mem rd wr" and pdu: "pdu_at (mem b) i h []"
    and map: "mapped i" "mapped (i + 1)" "mapped d" "mapped (d + 1)"
  shows "\<exists>b'. transform_pdu rd wr dec i d b = (Some 0, b') \<and>
    pdu_at (mem b') d h [] \<and> same_outside (region d 2) (mem b) (mem b')"
proof -
  have rd: "rd i b = (Some h, b)" "rd (i + 1) b = (Some 0, b)" "0 \<le> h" "h < 256"
    using byte_busD(1-3)[OF bus map(1), of b] byte_busD(1)[OF bus map(2), of b] pdu
    by (auto simp: pdu_at_def)
  obtain b1 where 1: "wr d h b = (Some (), b1)" "mem b1 = (mem b)(d := h)"
    using byte_busD(4)[OF bus map(3) rd(3,4)] by blast
  obtain b2 where 2: "wr (d + 1) 0 b1 = (Some (), b2)" "mem b2 = (mem b1)(d + 1 := 0)"
    using byte_busD(4)[OF bus map(4), of 0] by auto
  have "transform_pdu rd wr dec i d b = (Some 0, b2)"
    using rd 1(1) 2(1) by (simp add: transform_pdu_def)
  then show ?thesis
    using 1(2) 2(2) by (auto simp: pdu_at_def same_outside_def)
qed

section \<open>An encrypted link\<close>

text \<open>
  The register writes of the controller on the transmit side (key-stream generation with the
  ENDKSGEN to CRYPT shortcut) and on the receive side (CRYPT triggered by the radio).
\<close>

definition tx_requests :: "int \<Rightarrow> int \<Rightarrow> request list" where
  "tx_requests i d = [Write MODE 0, Write INPTR i, Write OUTPTR d, Write SHORTS 1, Write TASKS_KSGEN 1]"

definition rx_requests :: "int \<Rightarrow> int \<Rightarrow> request list" where
  "rx_requests i d = [Write MODE 1, Write INPTR i, Write OUTPTR d, Write TASKS_CRYPT 1]"

text \<open>The PDU that a buffer holds, as the radio and the link layer read it.\<close>

definition frame_of :: "(int \<Rightarrow> int) \<Rightarrow> int \<Rightarrow> int \<times> int list" where
  "frame_of m a = (m a, map (\<lambda>k. m (a + 3 + int k)) [0..<nat (m (a + 1))])"

lemma frame_of_pdu: "pdu_at m a h bs \<Longrightarrow> frame_of m a = (h, bs)"
  by (auto simp: frame_of_def pdu_at_def intro: nth_equalityI)

lemma pdu_frame_of: "frame_of m a = (h, bs) \<Longrightarrow> 0 \<le> m (a + 1) \<Longrightarrow> pdu_at m a h bs"
  by (auto simp: frame_of_def pdu_at_def)

definition ccm_done :: "int \<Rightarrow> ccm_state \<Rightarrow> bool" where
  "ccm_done micst st \<longleftrightarrow> endcrypt st = 1 \<and> error st = 0 \<and> micstatus st = micst \<and> pending st = None"

lemma do_transform_ok:
  assumes "pending st = Some \<lparr>op_mode = m, op_inptr = i, op_outptr = d\<rparr>" "i \<noteq> 0" "d \<noteq> 0"
    and "transform_pdu rd wr (m = 1) i d b = (Some n, b')" "dump_pdu rd i n b' = (Some (), b')"
  shows "\<exists>st'. do_transform rd wr (st, b) = (st', b') \<and> ccm_done (if m = 1 then 1 else 0) st'"
  using assms by (simp add: do_transform_def Let_def ccm_done_def)

lemma run_tx:
  "\<exists>st'. fst (run_requests (ccm_step rd wr) (st, b) (tx_requests i d)) = do_transform rd wr (st', b)
    \<and> pending st' = Some \<lparr>op_mode = 0, op_inptr = i, op_outptr = d\<rparr>
    \<and> micstatus st' = micstatus st"
  by (rule exI[of _ "st\<lparr>regs := (regs st)(MODE \<mapsto> 0, INPTR \<mapsto> i, OUTPTR \<mapsto> d, SHORTS \<mapsto> 1),
        endksgen := 1, pending := Some \<lparr>op_mode = 0, op_inptr = i, op_outptr = d\<rparr>\<rparr>"])
    (simp add: tx_requests_def ccm_step_def ccm_write_def schedule_def reg_get_def ccm_offsets
      Let_def split_beta)

lemma run_rx:
  "\<exists>st'. fst (run_requests (ccm_step rd wr) (st, b) (rx_requests i d)) = do_transform rd wr (st', b)
    \<and> pending st' = Some \<lparr>op_mode = 1, op_inptr = i, op_outptr = d\<rparr>
    \<and> micstatus st' = micstatus st"
  by (rule exI[of _ "st\<lparr>regs := (regs st)(MODE \<mapsto> 1, INPTR \<mapsto> i, OUTPTR \<mapsto> d),
        pending := Some \<lparr>op_mode = 1, op_inptr = i, op_outptr = d\<rparr>\<rparr>"])
    (simp add: rx_requests_def ccm_step_def ccm_write_def schedule_def reg_get_def ccm_offsets
      Let_def split_beta)

lemma buffers_mapped:
  "buffers mapped i n d m \<Longrightarrow> x \<in> region i n \<union> region d m \<Longrightarrow> mapped x"
  by (auto simp: buffers_def)

lemma tx_ok:
  assumes bus: "byte_bus mapped mem rd wr" and pdu: "pdu_at (mem b) i h bs" and len: "length bs \<le> 251"
    and buf: "buffers mapped i (3 + int (length bs)) d (7 + int (length bs))"
  shows "\<exists>st' b'. fst (run_requests (ccm_step rd wr) (st, b) (tx_requests i d)) = (st', b') \<and>
    ccm_done 0 st' \<and> pdu_at (mem b') d h (if bs = [] then [] else bs @ mic)"
proof -
  obtain st1 where st1: "fst (run_requests (ccm_step rd wr) (st, b) (tx_requests i d)) = do_transform rd wr (st1, b)"
    "pending st1 = Some \<lparr>op_mode = 0, op_inptr = i, op_outptr = d\<rparr>"
    using run_tx[of rd wr st b i d] by blast
  have nz: "i \<noteq> 0" "d \<noteq> 0" using buf by (auto simp: buffers_def)
  have mp: "mapped i" "mapped (i + 1)" "mapped d" "mapped (d + 1)"
    by (auto intro!: buffers_mapped[OF buf])
  obtain b' where "transform_pdu rd wr False i d b = (Some (int (length bs)), b')"
    "pdu_at (mem b') d h (if bs = [] then [] else bs @ mic)"
    using transform_encrypt[OF bus pdu _ len buf] transform_empty[OF bus _ mp, of b h False] pdu
    by (cases "bs = []") auto
  moreover have "dump_pdu rd i (int (length bs)) b' = (Some (), b')"
    by (rule dump_ok[OF bus]) (auto intro!: buffers_mapped[OF buf])
  ultimately show ?thesis
    using do_transform_ok[OF st1(2) nz, of rd wr b "int (length bs)" b'] st1(1) by auto
qed

lemma rx_ok:
  assumes bus: "byte_bus mapped mem rd wr" and len: "length bs \<le> 251"
    and pdu: "pdu_at (mem b) i h (if bs = [] then [] else bs @ mic)"
    and buf: "buffers mapped i (7 + int (length bs)) d (3 + int (length bs))"
  shows "\<exists>st' b'. fst (run_requests (ccm_step rd wr) (st, b) (rx_requests i d)) = (st', b') \<and>
    ccm_done 1 st' \<and> pdu_at (mem b') d h bs"
proof -
  obtain st1 where st1: "fst (run_requests (ccm_step rd wr) (st, b) (rx_requests i d)) = do_transform rd wr (st1, b)"
    "pending st1 = Some \<lparr>op_mode = 1, op_inptr = i, op_outptr = d\<rparr>"
    using run_rx[of rd wr st b i d] by blast
  have nz: "i \<noteq> 0" "d \<noteq> 0" using buf by (auto simp: buffers_def)
  have mp: "mapped i" "mapped (i + 1)" "mapped d" "mapped (d + 1)"
    by (auto intro!: buffers_mapped[OF buf])
  have m4: "length mic = 4" by (simp add: mic_def)
  let ?n = "if bs = [] then 0 else length bs + 4"
  obtain b' where "transform_pdu rd wr True i d b = (Some (int ?n), b')" "pdu_at (mem b') d h bs"
    using transform_decrypt[OF bus _ m4 len buf] transform_empty[OF bus _ mp, of b h True] pdu
    by (cases "bs = []") auto
  moreover have "dump_pdu rd i (int ?n) b' = (Some (), b')"
    by (rule dump_ok[OF bus]) (auto intro!: buffers_mapped[OF buf] split: if_splits)
  ultimately show ?thesis
    using do_transform_ok[OF st1(2) nz, of rd wr b "int ?n" b'] st1(1) by auto
qed

text \<open>
  A byte register of the bus refuses a value that does not fit: the conversion of the written
  number to a byte raises before the bus is touched.
\<close>

definition refuses_wide :: "'b wr_op \<Rightarrow> bool" where
  "refuses_wide wr \<longleftrightarrow> (\<forall>a v b. 256 \<le> v \<longrightarrow> wr a v b = (None, b))"

lemma transform_too_long:
  assumes bus: "byte_bus mapped mem rd wr" and ref: "refuses_wide wr"
    and pdu: "pdu_at (mem b) i h bs" and len: "252 \<le> length bs"
    and map: "mapped i" "mapped (i + 1)" "mapped d"
  shows "\<exists>b'. transform_pdu rd wr False i d b = (None, b') \<and> mem b' = (mem b)(d := h)"
proof -
  have rd: "rd i b = (Some h, b)" "rd (i + 1) b = (Some (int (length bs)), b)" "0 \<le> h" "h < 256"
    using byte_busD(1-3)[OF bus map(1), of b] byte_busD(1)[OF bus map(2), of b] pdu
    by (auto simp: pdu_at_def)
  obtain b1 where w: "wr d h b = (Some (), b1)" "mem b1 = (mem b)(d := h)"
    using byte_busD(4)[OF bus map(3) rd(3,4)] by blast
  have "wr (d + 1) (int (length bs) + MIC_LEN) b1 = (None, b1)"
    using ref len by (simp add: refuses_wide_def MIC_LEN_def)
  moreover have "int (length bs) \<noteq> 0" using len by auto
  ultimately show ?thesis using rd w by (auto simp: transform_pdu_def)
qed

text \<open>The requests of all machines, in the order in which they reach the shared file.\<close>

fun run_world ::
  "'b rd_op \<Rightarrow> 'b wr_op \<Rightarrow> 'b ccm_world \<Rightarrow> (string \<times> request) list \<Rightarrow> 'b ccm_world"
where
  "run_world rd wr w [] = w"
| "run_world rd wr w ((key, r) # rs) = run_world rd wr (fst (ccm_request rd wr key w r)) rs"

definition view :: "'b ccm_world \<Rightarrow> string \<Rightarrow> ccm_state \<times> 'b" where
  "view w k = (machine_state (fst w) k, snd w k)"

lemma view_request:
  "view (fst (ccm_request rd wr key w r)) k =
     (if k = key then fst (ccm_step rd wr (view w k) r) else view w k)"
  by (cases r) (auto simp: ccm_request_def view_def machine_state_def ccm_step_def split: prod.splits)

text \<open>A concrete memory for the witnesses.\<close>

definition ram_mem :: "ram \<Rightarrow> int \<Rightarrow> int" where "ram_mem m a = m a mod 256"

definition ram_read :: "ram rd_op" where "ram_read a m = (Some (m a mod 256), m)"

definition ram_write :: "ram wr_op" where
  "ram_write a v m = (if 0 \<le> v \<and> v < 256 then (Some (), m(a := v)) else (None, m))"

lemma ram_byte_bus: "byte_bus (\<lambda>_. True) ram_mem ram_read ram_write"
  by (auto simp: byte_bus_def ram_read_def ram_write_def ram_mem_def)

definition sample_ram :: ram where
  "sample_ram a = (if a = 0x100 then 2 else if a = 0x101 then 2 else if a = 0x103 then 7
     else if a = 0x104 then 9 else 0)"

section \<open>Properties\<close>

text \<open>
  C5. An encrypted link works end to end.  Whatever both machines did before, a PDU of up to
  251 payload bytes that one machine encrypts, and that arrives as it was on air at the other
  machine, is decrypted there to the same header and payload, with the completion event set,
  no error and the MIC reported good; on air a non-empty payload carries a 4-byte MIC.
\<close>

theorem ccm_link_roundtrip:
  assumes "byte_bus mapped mem rd wr"
    and "frame_of (mem b1) i1 = (h, bs)" and "length bs \<le> 251"
    and "buffers mapped i1 (3 + int (length bs)) o1 (7 + int (length bs))"
    and "fst (run_requests (ccm_step rd wr) (st1, b1) (tx_requests i1 o1)) = (st1', b1')"
    and "frame_of (mem b2) i2 = frame_of (mem b1') o1"
    and "buffers mapped i2 (7 + int (length bs)) o2 (3 + int (length bs))"
    and "fst (run_requests (ccm_step rd wr) (st2, b2) (rx_requests i2 o2)) = (st2', b2')"
  shows "frame_of (mem b2') o2 = (h, bs) \<and> ccm_done 1 st2' \<and>
    frame_of (mem b1') o1 = (h, if bs = [] then [] else bs @ mic)"
proof -
  have "mapped (i1 + 1)" by (rule buffers_mapped[OF assms(4)]) simp
  then have "pdu_at (mem b1) i1 h bs"
    using assms(2) byte_busD(2)[OF assms(1)] by (intro pdu_frame_of) auto
  from tx_ok[OF assms(1) this assms(3,4), of st1] assms(5)
  have air: "frame_of (mem b1') o1 = (h, if bs = [] then [] else bs @ mic)"
    by (auto intro: frame_of_pdu)
  have "mapped (i2 + 1)" by (rule buffers_mapped[OF assms(7)]) simp
  then have "pdu_at (mem b2) i2 h (if bs = [] then [] else bs @ mic)"
    using assms(6) air byte_busD(2)[OF assms(1)] by (intro pdu_frame_of) auto
  from rx_ok[OF assms(1,3) this assms(7), of st2] assms(8) air
  show ?thesis by (auto intro: frame_of_pdu)
qed

theorem ccm_link_roundtrip_witness:
  "\<exists>st1' b1' st2' b2'.
     fst (run_requests (ccm_step ram_read ram_write) (ccm_fresh, sample_ram) (tx_requests 0x100 0x200)) = (st1', b1')
     \<and> fst (run_requests (ccm_step ram_read ram_write) (ccm_fresh, b1') (rx_requests 0x200 0x300)) = (st2', b2')
     \<and> frame_of (ram_mem b2') 0x300 = (2, [7, 9]) \<and> ccm_done 1 st2'
     \<and> frame_of (ram_mem b1') 0x200 = (2, if [7, 9] = ([] :: int list) then [] else [7, 9] @ mic)"
proof -
  obtain st1' b1' where 1: "fst (run_requests (ccm_step ram_read ram_write) (ccm_fresh, sample_ram)
      (tx_requests 0x100 0x200)) = (st1', b1')" by fastforce
  obtain st2' b2' where 2: "fst (run_requests (ccm_step ram_read ram_write) (ccm_fresh, b1')
      (rx_requests 0x200 0x300)) = (st2', b2')" by fastforce
  have f: "frame_of (ram_mem sample_ram) 0x100 = (2, [7, 9])"
    by (simp add: frame_of_def ram_mem_def sample_ram_def upt_rec)
  have b: "buffers (\<lambda>_. True) 0x100 (3 + int (length [7, 9 :: int])) 0x200 (7 + int (length [7, 9 :: int]))"
    "buffers (\<lambda>_. True) 0x200 (7 + int (length [7, 9 :: int])) 0x300 (3 + int (length [7, 9 :: int]))"
    by (simp_all add: buffers_def)
  show ?thesis
    using ccm_link_roundtrip[OF ram_byte_bus f _ b(1) 1 refl b(2) 2] 1 2 by auto
qed

text \<open>
  C31. The transform is eager.  After any requests from a fresh peripheral no operation is
  pending, so the output buffer is final when the triggering write returns, and reading any
  register, any number of times, changes neither memory nor state.
\<close>

theorem ccm_eager:
  "pending (fst (fst (run_requests (ccm_step rd wr) (ccm_fresh, b) rs))) = None \<and>
   run_requests (ccm_step rd wr) (fst (run_requests (ccm_step rd wr) (ccm_fresh, b) rs)) (replicate n (Read off))
     = (fst (run_requests (ccm_step rd wr) (ccm_fresh, b) rs),
        replicate n (snd (ccm_step rd wr (fst (run_requests (ccm_step rd wr) (ccm_fresh, b) rs)) (Read off))))"
proof -
  have "ccm_idle (ccm_fresh, b)" by (simp add: ccm_idle_def ccm_fresh_def)
  then have idle: "ccm_idle (fst (run_requests (ccm_step rd wr) (ccm_fresh, b) rs))"
    by (rule ccm.inv_run)
  then show ?thesis
    using ccm.polling[OF idle, of rd wr n off] by (simp add: ccm_idle_def)
qed

text \<open>
  C32. Machines do not disturb one another.  However the requests of the machines interleave on
  the one shared file, each machine ends with the registers, events and memory that its own
  requests alone give.
\<close>

theorem ccm_machines_isolated:
  "view (run_world rd wr w rs) k =
     fst (run_requests (ccm_step rd wr) (view w k) (map snd (filter (\<lambda>kr. fst kr = k) rs)))"
proof (induction rs arbitrary: w)
  case (Cons kr rs)
  obtain key r where kr: "kr = (key, r)" by fastforce
  show ?case
    using Cons.IH[of "fst (ccm_request rd wr key w r)"]
    by (auto simp: kr view_request split_beta Let_def)
qed simp

text \<open>
  C33. A PDU too long for a MIC is an error, not garbage.  When the plaintext has 252 or more
  bytes the length field cannot hold the MIC: the operation completes with the error event
  set, the MIC status keeps its old value, and of the output buffer only the header byte was
  written.
\<close>

theorem ccm_oversized_pdu:
  assumes "byte_bus mapped mem rd wr" and "refuses_wide wr"
    and "pdu_at (mem b) i h bs" and "252 \<le> length bs"
    and "mapped i" and "mapped (i + 1)" and "mapped d" and "i \<noteq> 0" and "d \<noteq> 0"
  shows "\<exists>st' b'. fst (run_requests (ccm_step rd wr) (st, b) (tx_requests i d)) = (st', b') \<and>
    error st' = 1 \<and> endcrypt st' = 1 \<and> pending st' = None \<and> micstatus st' = micstatus st \<and>
    mem b' = (mem b)(d := h)"
proof -
  obtain st1 where st1: "fst (run_requests (ccm_step rd wr) (st, b) (tx_requests i d)) = do_transform rd wr (st1, b)"
    "pending st1 = Some \<lparr>op_mode = 0, op_inptr = i, op_outptr = d\<rparr>" "micstatus st1 = micstatus st"
    using run_tx[of rd wr st b i d] by blast
  obtain b' where "transform_pdu rd wr False i d b = (None, b')" "mem b' = (mem b)(d := h)"
    using transform_too_long[OF assms(1-7)] by blast
  with st1 assms(8,9) show ?thesis by (simp add: do_transform_def Let_def)
qed

definition long_ram :: ram where
  "long_ram a = (if a = 0x100 then 2 else if a = 0x101 then 252 else 0)"

theorem ccm_oversized_pdu_witness:
  "\<exists>st' b'. fst (run_requests (ccm_step ram_read ram_write) (ccm_fresh, long_ram) (tx_requests 0x100 0x300)) = (st', b') \<and>
    error st' = 1 \<and> endcrypt st' = 1 \<and> pending st' = None \<and> micstatus st' = micstatus ccm_fresh \<and>
    ram_mem b' = (ram_mem long_ram)(0x300 := 2)"
  by (rule ccm_oversized_pdu[OF ram_byte_bus, where bs = "replicate 252 0"])
    (simp_all add: refuses_wide_def ram_write_def pdu_at_def ram_mem_def long_ram_def)

end
