(* ===== verification/Rtt_Capture.thy ===== *)
theory Rtt_Capture
  imports Py_Prelude
begin

text \<open>
  \<open>scripts/lib/renode/segger_rtt_writeskip.py\<close>, which Renode runs: the hook on
  \<open>SEGGER_RTT_WriteSkipNoLock\<close> and its installation on every CPU that has the symbol.  The bus and
  the symbol table are functions; registers hold 32-bit words.
\<close>

record cpu_state =
  reg :: "nat \<Rightarrow> 32 word"
  pc :: "32 word"
  lr :: "32 word"

text \<open>The body of the hook: what the console displays, and the CPU afterwards.\<close>

definition write_hook :: "(nat \<Rightarrow> byte) \<Rightarrow> cpu_state \<Rightarrow> byte list \<times> cpu_state" where
  "write_hook read_byte cpu =
     (let pointer = unat (reg cpu 1); len = unat (reg cpu 2) in
      (map (\<lambda>i. read_byte (pointer + i)) [0..<len],
       cpu\<lparr>reg := (reg cpu)(0 := word_of_nat len), pc := lr cpu\<rparr>))"

definition RTT_SYMBOL :: string where "RTT_SYMBOL = ''SEGGER_RTT_WriteSkipNoLock''"

text \<open>\<open>symbols_of cpu name\<close> is \<open>TryGetAllSymbolAddresses\<close>; the result is the hooks and the CPUs warned about.\<close>

definition setup_rtt :: "(nat \<Rightarrow> string \<Rightarrow> (nat list) option) \<Rightarrow> nat list \<Rightarrow> (nat \<times> nat) list \<times> nat list" where
  "setup_rtt symbols_of cpus =
     (concat (map (\<lambda>c. case symbols_of c RTT_SYMBOL of None \<Rightarrow> [] | Some addrs \<Rightarrow> map (\<lambda>a. (c, a)) addrs) cpus),
      filter (\<lambda>c. symbols_of c RTT_SYMBOL = None) cpus)"

text \<open>A CPU that reaches an address with a hook runs the hook, otherwise it does as the firmware says.\<close>

definition cpu_step ::
  "(nat \<times> nat) list \<Rightarrow> (nat \<Rightarrow> byte) \<Rightarrow> (cpu_state \<Rightarrow> cpu_state) \<Rightarrow> nat \<Rightarrow> cpu_state \<Rightarrow> byte list \<times> cpu_state"
where
  "cpu_step hooks read_byte firmware c cpu =
     (if (c, unat (pc cpu)) \<in> set hooks then write_hook read_byte cpu else ([], firmware cpu))"

lemma setup_rtt_hooks:
  "(c, a) \<in> set (fst (setup_rtt symbols_of cpus)) \<longleftrightarrow>
     c \<in> set cpus \<and> (\<exists>addrs. symbols_of c RTT_SYMBOL = Some addrs \<and> a \<in> set addrs)"
proof -
  have "(c, a) \<in> set (fst (setup_rtt symbols_of cpus)) \<longleftrightarrow>
      (\<exists>d \<in> set cpus. (c, a) \<in> set (case symbols_of d RTT_SYMBOL of None \<Rightarrow> [] | Some addrs \<Rightarrow> map (\<lambda>a. (d, a)) addrs))"
    by (auto simp: setup_rtt_def)
  also have "\<dots> \<longleftrightarrow> c \<in> set cpus \<and> (\<exists>addrs. symbols_of c RTT_SYMBOL = Some addrs \<and> a \<in> set addrs)"
    by (force split: option.splits)
  finally show ?thesis .
qed

text \<open>
  A call of the RTT writer is captured whole and replaced by a return: the console shows the \<open>r2\<close> bytes
  at \<open>r1\<close>, the caller gets their number in \<open>r0\<close>, and no other register changes.
\<close>

lemma rtt_call_captured:
  assumes "c \<in> set cpus" and "symbols_of c RTT_SYMBOL = Some addrs" and "unat (pc cpu) \<in> set addrs"
    and "cpu_step (fst (setup_rtt symbols_of cpus)) read_byte firmware c cpu = (out, cpu')"
  shows "length out = unat (reg cpu 2) \<and> (\<forall>i < length out. out ! i = read_byte (unat (reg cpu 1) + i)) \<and>
    reg cpu' 0 = reg cpu 2 \<and> pc cpu' = lr cpu \<and> lr cpu' = lr cpu \<and> (\<forall>n. n \<noteq> 0 \<longrightarrow> reg cpu' n = reg cpu n)"
proof -
  have "(c, unat (pc cpu)) \<in> set (fst (setup_rtt symbols_of cpus))"
    using assms(1-3) by (auto simp: setup_rtt_hooks)
  then have "write_hook read_byte cpu = (out, cpu')" using assms(4) by (simp add: cpu_step_def)
  then show ?thesis by (auto simp: write_hook_def Let_def)
qed

text \<open>A CPU without the symbol runs its firmware unchanged.\<close>

lemma rtt_absent:
  "symbols_of c RTT_SYMBOL = None \<Longrightarrow>
     cpu_step (fst (setup_rtt symbols_of cpus)) read_byte firmware c cpu = ([], firmware cpu)"
  using setup_rtt_hooks[of c "unat (pc cpu)" symbols_of cpus] by (simp add: cpu_step_def)

end
