(* ===== verification/Link_Axes.thy ===== *)
theory Link_Axes
  imports Py_Prelude Complex_Main "HOL-Library.Char_ord" "HOL-Library.List_Lexorder"
begin

text \<open>
  The transport axes of the Renode tests and the two front ends that dispatch on them:
  \<open>resolve_links\<close>, \<open>canonical_mode\<close> and \<open>main\<close> of \<open>scripts/lib/renode/renode_smoke.py\<close>, and
  \<open>do_run\<close> with its helpers of \<open>scripts/zmk_renode_test.py\<close>.  The file system, the Renode
  installation, the west manifest, the smoke runs and the test processes are what the
  commands find in their environment: they are fields of \<open>host_env\<close>.  Times are \<^typ>\<open>rat\<close>.
\<close>

section \<open>The axes\<close>

type_synonym links = "string \<times> string"

definition HOST_LINKS :: "string list" where "HOST_LINKS = [''usb'', ''ble'', ''none'']"
definition SPLIT_LINKS :: "string list" where "SPLIT_LINKS = [''none'', ''wired'', ''ble'']"

definition MODE_PRESETS :: "(string \<times> links) list" where
  "MODE_PRESETS = [(''ble'', (''ble'', ''none'')), (''usb'', (''usb'', ''none'')),
     (''wired-split'', (''usb'', ''wired'')), (''ble-split'', (''ble'', ''ble''))]"

definition SUPPORTED_LINKS :: "links list" where
  "SUPPORTED_LINKS = [(''ble'', ''none''), (''usb'', ''none''), (''usb'', ''wired''),
     (''ble'', ''ble''), (''none'', ''wired'')]"

lemmas axes_defs = HOST_LINKS_def SPLIT_LINKS_def MODE_PRESETS_def SUPPORTED_LINKS_def

definition canonical_mode :: "string \<Rightarrow> string \<Rightarrow> string" where
  "canonical_mode host split =
     (case filter (\<lambda>(name, pair). pair = (host, split)) MODE_PRESETS of
        (name, pair) # _ \<Rightarrow> name
      | [] \<Rightarrow> host @ ''+'' @ split)"

text \<open>The five \<open>ValueError\<close>s of \<open>resolve_links\<close>, with the values their messages show.\<close>

datatype link_error =
    Both_vocabularies
  | Unknown_mode string
  | Unknown_host_link string
  | Unknown_split_link string
  | Unsupported_combination string string

definition or_none :: "string option \<Rightarrow> string" where
  "or_none v = (case v of None \<Rightarrow> ''none'' | Some s \<Rightarrow> if s = [] then ''none'' else s)"

definition resolve_links ::
  "string option \<Rightarrow> string option \<Rightarrow> string option \<Rightarrow> link_error + links"
where
  "resolve_links mode host_link split_link =
     (let axes_given = (host_link \<noteq> None \<or> split_link \<noteq> None) in
      case mode of
        Some m \<Rightarrow>
          if axes_given then Inl Both_vocabularies
          else (case map_of MODE_PRESETS m of
                  None \<Rightarrow> Inl (Unknown_mode m)
                | Some pair \<Rightarrow> Inr pair)
      | None \<Rightarrow>
          if \<not> axes_given then Inr (''ble'', ''none'')
          else
            let host = or_none host_link; split = or_none split_link in
            if host \<notin> set HOST_LINKS then Inl (Unknown_host_link host)
            else if split \<notin> set SPLIT_LINKS then Inl (Unknown_split_link split)
            else if (host, split) \<notin> set SUPPORTED_LINKS then Inl (Unsupported_combination host split)
            else Inr (host, split))"

lemma resolve_supported:
  "resolve_links m h s = Inr p \<Longrightarrow>
     p = (''ble'', ''none'') \<or> p = (''usb'', ''none'') \<or> p = (''usb'', ''wired'') \<or>
     p = (''ble'', ''ble'') \<or> p = (''none'', ''wired'')"
  by (auto simp: resolve_links_def Let_def SUPPORTED_LINKS_def MODE_PRESETS_def
      split: option.splits if_splits)

section \<open>The environment and the smoke runs\<close>

definition STORAGE_ADDR_DEFAULT :: int where "STORAGE_ADDR_DEFAULT = 0xEC000"
definition STORAGE_SIZE_DEFAULT :: int where "STORAGE_SIZE_DEFAULT = 0x8000"

text \<open>A call of one of the \<open>run_*_smoke\<close> functions, with the arguments it is given.\<close>

datatype smoke_call =
    Split_smoke (central: string) (peripheral: string) (boot_limit: rat)
  | Ble_split_smoke (central: string) (peripheral: string) (host_app: string)
      (budget: rat) (nvs_addr: int) (nvs_size: int) (quantum: "string option")
  | Usb_wired_smoke (central: string) (peripheral: string) (protos: string)
      (boot_limit: rat) (rpc_limit: rat) (nvs_addr: int) (nvs_size: int)
  | Ble_studio_smoke (central: string) (host_app: string)
      (budget: rat) (nvs_addr: int) (nvs_size: int) (quantum: "string option")
  | Liveness_smoke (central: string) (min_run: rat) (nvs_addr: int) (nvs_size: int) (with_rtt: bool)
  | Usb_smoke (central: string) (protos: string)
      (boot_limit: rat) (rpc_limit: rat) (nvs_addr: int) (nvs_size: int)

fun call_links :: "smoke_call \<Rightarrow> links" where
  "call_links (Split_smoke _ _ _) = (''none'', ''wired'')"
| "call_links (Ble_split_smoke _ _ _ _ _ _ _) = (''ble'', ''ble'')"
| "call_links (Usb_wired_smoke _ _ _ _ _ _ _) = (''usb'', ''wired'')"
| "call_links (Ble_studio_smoke _ _ _ _ _ _) = (''ble'', ''none'')"
| "call_links (Liveness_smoke _ _ _ _ _) = (''ble'', ''none'')"
| "call_links (Usb_smoke _ _ _ _ _ _) = (''usb'', ''none'')"

record host_env =
  is_file :: "string \<Rightarrow> bool"
  is_dir :: "string \<Rightarrow> bool"
  absolute :: "string \<Rightarrow> string"
  glob_protos :: "string \<Rightarrow> string list"
  glob_tests :: "string \<Rightarrow> string list"
  renode_at :: "string \<Rightarrow> string option"
  smoke_run :: "string \<Rightarrow> smoke_call \<Rightarrow> unit result"
  manifest :: "(string \<times> string) list result"
  topdir :: string
  has_protobuf :: bool
  environ :: "string \<rightharpoonup> string"
  lib_renode_dir :: string
  test_exit :: "(string \<rightharpoonup> string) \<Rightarrow> string \<Rightarrow> int"

text \<open>\<open>find_studio_proto_dir\<close>: the conventional directory, or the first match of the search.\<close>

definition find_studio_proto_dir :: "host_env \<Rightarrow> string \<Rightarrow> string result" where
  "find_studio_proto_dir env west_top =
     (let direct = path_join west_top ''dependencies/modules/msgs/zmk-studio-messages/proto/zmk'' in
      if is_dir env direct then Inr direct
      else (case sort_key path_parts (glob_protos env west_top) of
              m # _ \<Rightarrow> Inr m
            | [] \<Rightarrow> Inl (OSError ''could not find zmk-studio-messages proto dir'')))"

record common_args =
  elf :: string
  mode :: "string option"
  host_link :: "string option"
  split_link :: "string option"
  host_elf :: "string option"
  peripheral_elf :: "string option"
  boot_timeout :: rat
  min_virtual :: rat
  virtual_budget :: rat
  steady_quantum :: "string option"
  rtt :: bool
  renode_version :: string

section \<open>\<open>renode_smoke.main\<close>\<close>

record smoke_args = common_args +
  studio_proto_dir :: "string option"
  west_topdir :: "string option"
  rpc_timeout :: rat
  storage_addr :: int
  storage_size :: int

text \<open>A front end's result is the smoke runs it made, in order, and what it returned or raised.\<close>

definition smoke_proto_dir :: "host_env \<Rightarrow> smoke_args \<Rightarrow> string option result" where
  "smoke_proto_dir env a =
     (case studio_proto_dir a of
        Some d \<Rightarrow> Inr (Some d)
      | None \<Rightarrow>
          (case west_topdir a of
             None \<Rightarrow> Inr None
           | Some w \<Rightarrow> bind_result (find_studio_proto_dir env w) (\<lambda>d. Inr (Some d))))"

definition run_and_report :: "host_env \<Rightarrow> string \<Rightarrow> smoke_call \<Rightarrow> smoke_call list \<times> int result" where
  "run_and_report env renode c =
     ([c], (case smoke_run env renode c of
              Inr _ \<Rightarrow> Inr 0
            | Inl (AssertionError _) \<Rightarrow> Inr 1
            | Inl e \<Rightarrow> Inl e))"

definition smoke_dispatch ::
  "host_env \<Rightarrow> smoke_args \<Rightarrow> string \<Rightarrow> links \<Rightarrow> smoke_call list \<times> int result"
where
  "smoke_dispatch env a renode p =
     (if p = (''none'', ''wired'') then
        run_and_report env renode (Split_smoke (elf a) (the (peripheral_elf a)) (boot_timeout a))
      else if p = (''ble'', ''ble'') then
        (case host_elf a of
           None \<Rightarrow> ([], Inr 2)
         | Some h \<Rightarrow>
             if \<not> is_file env h then ([], Inr 2)
             else run_and_report env renode
               (Ble_split_smoke (elf a) (the (peripheral_elf a)) h (virtual_budget a)
                 (storage_addr a) (storage_size a) (steady_quantum a)))
      else if p = (''usb'', ''wired'') then
        (case smoke_proto_dir env a of
           Inl e \<Rightarrow> ([], Inl e)
         | Inr None \<Rightarrow> ([], Inr 2)
         | Inr (Some d) \<Rightarrow> run_and_report env renode
             (Usb_wired_smoke (elf a) (the (peripheral_elf a)) d (boot_timeout a) (rpc_timeout a)
               (storage_addr a) (storage_size a)))
      else if p = (''ble'', ''none'') then
        (case host_elf a of
           Some h \<Rightarrow>
             if \<not> is_file env h then ([], Inr 2)
             else run_and_report env renode
               (Ble_studio_smoke (elf a) h (virtual_budget a) (storage_addr a) (storage_size a)
                 (steady_quantum a))
         | None \<Rightarrow> run_and_report env renode
             (Liveness_smoke (elf a) (min_virtual a) (storage_addr a) (storage_size a) (rtt a)))
      else if p = (''usb'', ''none'') then
        (case smoke_proto_dir env a of
           Inl e \<Rightarrow> ([], Inl e)
         | Inr None \<Rightarrow> ([], Inr 2)
         | Inr (Some d) \<Rightarrow> run_and_report env renode
             (Usb_smoke (elf a) d (boot_timeout a) (rpc_timeout a) (storage_addr a) (storage_size a)))
      else ([], Inr 2))"

definition smoke_main :: "host_env \<Rightarrow> smoke_args \<Rightarrow> smoke_call list \<times> int result" where
  "smoke_main env a =
     (if \<not> is_file env (elf a) then ([], Inr 2)
      else
        (case resolve_links (mode a) (host_link a) (split_link a) of
           Inl _ \<Rightarrow> ([], Inr 2)
         | Inr (host, split) \<Rightarrow>
             if host_elf a \<noteq> None \<and> host \<noteq> ''ble'' then ([], Inr 2)
             else if peripheral_elf a \<noteq> None \<and> split = ''none'' then ([], Inr 2)
             else if split \<noteq> ''none'' \<and>
                 (case peripheral_elf a of None \<Rightarrow> True | Some q \<Rightarrow> \<not> is_file env q) then ([], Inr 2)
             else
               (case renode_at env (renode_version a) of
                  None \<Rightarrow> ([], Inr 2)
                | Some renode \<Rightarrow> smoke_dispatch env a renode (host, split))))"

section \<open>\<open>west zmk-renode-test\<close>\<close>

record test_args = common_args +
  tests_dir :: "string option"
  skip_smoke :: bool
  storage_addr_given :: "int option"
  storage_size_given :: "int option"

text \<open>What \<open>log.die\<close> is called with; it raises \<open>SystemExit\<close>.\<close>

datatype die_reason =
    Elf_not_found string
  | Bad_links link_error
  | Host_elf_without_ble
  | Peripheral_without_split
  | No_renode
  | Host_elf_not_found string
  | Peripheral_required
  | Peripheral_not_found string
  | Host_elf_required
  | Protobuf_required
  | Smoke_failed string
  | Tests_dir_not_found string
  | Module_tests_failed "string list"

datatype outcome = Finished | Died die_reason | Raised exn

definition given :: "string option \<Rightarrow> bool" where
  "given v \<longleftrightarrow> (\<exists>s. v = Some s \<and> s \<noteq> [])"

lemma given_simps [simp, code]: "given None = False" "given (Some s) = (s \<noteq> [])"
  by (auto simp: given_def)

definition given_addr :: "test_args \<Rightarrow> int" where
  "given_addr a = (case storage_addr_given a of None \<Rightarrow> STORAGE_ADDR_DEFAULT | Some x \<Rightarrow> x)"

definition given_size :: "test_args \<Rightarrow> int" where
  "given_size a = (case storage_size_given a of None \<Rightarrow> STORAGE_SIZE_DEFAULT | Some x \<Rightarrow> x)"

definition given_quantum :: "test_args \<Rightarrow> string option" where
  "given_quantum a = (if given (steady_quantum a) then steady_quantum a else None)"

text \<open>The common end of the \<open>_run_*_smoke\<close> helpers: only an assertion failure is a verdict.\<close>

definition smoke_or_die :: "host_env \<Rightarrow> string \<Rightarrow> smoke_call \<Rightarrow> smoke_call list \<times> outcome" where
  "smoke_or_die env renode c =
     ([c], (case smoke_run env renode c of
              Inr _ \<Rightarrow> Finished
            | Inl (AssertionError m) \<Rightarrow> Died (Smoke_failed m)
            | Inl e \<Rightarrow> Raised e))"

definition run_ble_studio_smoke ::
  "host_env \<Rightarrow> test_args \<Rightarrow> string \<Rightarrow> string \<Rightarrow> string \<Rightarrow> smoke_call list \<times> outcome"
where
  "run_ble_studio_smoke env a dut host renode = smoke_or_die env renode
     (Ble_studio_smoke dut host (virtual_budget a) (given_addr a) (given_size a) (given_quantum a))"

definition run_ble_split_smoke ::
  "host_env \<Rightarrow> test_args \<Rightarrow> string \<Rightarrow> string \<Rightarrow> string \<Rightarrow> string \<Rightarrow> smoke_call list \<times> outcome"
where
  "run_ble_split_smoke env a cent per host renode = smoke_or_die env renode
     (Ble_split_smoke cent per host (max (virtual_budget a) 120) (given_addr a) (given_size a)
       (given_quantum a))"

definition run_ble_liveness_smoke ::
  "host_env \<Rightarrow> test_args \<Rightarrow> string \<Rightarrow> string \<Rightarrow> smoke_call list \<times> outcome"
where
  "run_ble_liveness_smoke env a dut renode = smoke_or_die env renode
     (Liveness_smoke dut (min_virtual a) (given_addr a) (given_size a) (rtt a))"

definition run_split_smoke ::
  "host_env \<Rightarrow> test_args \<Rightarrow> string \<Rightarrow> string \<Rightarrow> string \<Rightarrow> smoke_call list \<times> outcome"
where
  "run_split_smoke env a cent per renode = smoke_or_die env renode
     (Split_smoke cent per (boot_timeout a))"

text \<open>\<open>_find_studio_proto_dir\<close>: the manifest first, then the search under the workspace.\<close>

definition test_proto_dir :: "host_env \<Rightarrow> string result" where
  "test_proto_dir env = bind_result (manifest env) (\<lambda>projects.
     (case filter (\<lambda>(name, path). name = ''zmk-studio-messages'') projects of
        (name, path) # _ \<Rightarrow>
          (let candidate = path_join path ''proto/zmk'' in
           if is_dir env candidate then Inr candidate else find_studio_proto_dir env (topdir env))
      | [] \<Rightarrow> find_studio_proto_dir env (topdir env)))"

definition with_protos ::
  "host_env \<Rightarrow> (string \<Rightarrow> smoke_call list \<times> outcome) \<Rightarrow> smoke_call list \<times> outcome"
where
  "with_protos env k =
     (if \<not> has_protobuf env then ([], Died Protobuf_required)
      else (case test_proto_dir env of Inl e \<Rightarrow> ([], Raised e) | Inr d \<Rightarrow> k d))"

definition run_usb_smoke ::
  "host_env \<Rightarrow> test_args \<Rightarrow> string \<Rightarrow> string \<Rightarrow> smoke_call list \<times> outcome"
where
  "run_usb_smoke env a dut renode = with_protos env (\<lambda>d. smoke_or_die env renode
     (Usb_smoke dut d (boot_timeout a) 10 (given_addr a) (given_size a)))"

definition run_usb_wired_smoke ::
  "host_env \<Rightarrow> test_args \<Rightarrow> string \<Rightarrow> string \<Rightarrow> string \<Rightarrow> smoke_call list \<times> outcome"
where
  "run_usb_wired_smoke env a cent per renode = with_protos env (\<lambda>d. smoke_or_die env renode
     (Usb_wired_smoke cent per d (boot_timeout a) 10 (given_addr a) (given_size a)))"

definition test_dispatch ::
  "host_env \<Rightarrow> test_args \<Rightarrow> string \<Rightarrow> string option \<Rightarrow> string option \<Rightarrow> string \<Rightarrow> links \<Rightarrow>
     smoke_call list \<times> outcome"
where
  "test_dispatch env a dut host per renode p =
     (if p = (''ble'', ''ble'') then run_ble_split_smoke env a dut (the per) (the host) renode
      else if p = (''ble'', ''none'') then
        (case host of
           Some h \<Rightarrow> run_ble_studio_smoke env a dut h renode
         | None \<Rightarrow> run_ble_liveness_smoke env a dut renode)
      else if p = (''none'', ''wired'') then run_split_smoke env a dut (the per) renode
      else if p = (''usb'', ''wired'') then run_usb_wired_smoke env a dut (the per) renode
      else if p = (''usb'', ''none'') then run_usb_smoke env a dut renode
      else ([], Died (Bad_links (Unsupported_combination (fst p) (snd p)))))"

text \<open>The environment that \<open>_run_module_tests\<close> gives to a module's own tests.\<close>

definition module_env :: "host_env \<Rightarrow> test_args \<Rightarrow> string \<Rightarrow> links \<Rightarrow> (string \<rightharpoonup> string)" where
  "module_env env a dut p =
     (let host = fst p; split = snd p;
          existing = (case environ env ''PYTHONPATH'' of None \<Rightarrow> [] | Some v \<Rightarrow> v);
          e0 = (environ env)(''PYTHONPATH'' \<mapsto>
                 lib_renode_dir env @ (if existing = [] then [] else '':'' @ existing));
          e1 = e0(''ZMK_RENODE_HOST_LINK'' \<mapsto> host, ''ZMK_RENODE_SPLIT_LINK'' \<mapsto> split,
                  ''ZMK_RENODE_MODE'' \<mapsto> canonical_mode host split, ''ZMK_RENODE_ELF'' \<mapsto> dut);
          e2 = (if split \<noteq> ''none''
                then e1(''ZMK_RENODE_PERIPHERAL_ELF'' \<mapsto> absolute env (the (peripheral_elf a))) else e1);
          e3 = (if host \<in> {''ble'', ''usb''} \<or> split = ''ble''
                then e2(''ZMK_RENODE_STORAGE_ADDR'' \<mapsto> py_hex (given_addr a),
                        ''ZMK_RENODE_STORAGE_SIZE'' \<mapsto> py_hex (given_size a)) else e2)
      in if host = ''ble'' \<and> given (host_elf a)
         then e3(''ZMK_RENODE_HOST_ELF'' \<mapsto> absolute env (the (host_elf a))) else e3)"

text \<open>The tests that were run, and the outcome.\<close>

definition run_module_tests ::
  "host_env \<Rightarrow> test_args \<Rightarrow> string \<Rightarrow> links \<Rightarrow> string list \<times> outcome"
where
  "run_module_tests env a dut p =
     (let dir = absolute env (the (tests_dir a)) in
      if \<not> is_dir env dir then ([], Died (Tests_dir_not_found dir))
      else
        let files = sort_key path_parts (glob_tests env dir) in
        if files = [] then ([], Finished)
        else
          let failures = filter (\<lambda>f. test_exit env (module_env env a dut p) f \<noteq> 0) files in
          (files, if failures = [] then Finished else Died (Module_tests_failed failures)))"

text \<open>The two stages of \<open>do_run\<close> after its checks: the smoke test, then the module's own tests.\<close>

definition test_stages ::
  "host_env \<Rightarrow> test_args \<Rightarrow> string \<Rightarrow> string option \<Rightarrow> string option \<Rightarrow> string \<Rightarrow> links \<Rightarrow>
     smoke_call list \<times> string list \<times> outcome"
where
  "test_stages env a dut h per renode p =
     (let (calls, out) = (if skip_smoke a then ([], Finished)
                          else test_dispatch env a dut h per renode p) in
      if out = Finished \<and> given (tests_dir a) then
        let (files, out') = run_module_tests env a dut p in (calls, files, out')
      else (calls, [], out))"

text \<open>\<open>do_run\<close>: the smoke runs made, the module tests run, and the outcome.\<close>

definition do_run :: "host_env \<Rightarrow> test_args \<Rightarrow> smoke_call list \<times> string list \<times> outcome" where
  "do_run env a =
     (let dut = absolute env (elf a); die = (\<lambda>r. ([], [], Died r)) in
      if \<not> is_file env dut then die (Elf_not_found dut)
      else case resolve_links (mode a) (host_link a) (split_link a) of
        Inl e \<Rightarrow> die (Bad_links e)
      | Inr (host, split) \<Rightarrow>
        if given (host_elf a) \<and> host \<noteq> ''ble'' then die Host_elf_without_ble
        else if given (peripheral_elf a) \<and> split = ''none'' then die Peripheral_without_split
        else case renode_at env (renode_version a) of
          None \<Rightarrow> die No_renode
        | Some renode \<Rightarrow>
          let h = (if host = ''ble'' \<and> given (host_elf a)
                   then Some (absolute env (the (host_elf a))) else None) in
          if h \<noteq> None \<and> \<not> is_file env (the h) then die (Host_elf_not_found (the h))
          else if split \<noteq> ''none'' \<and> \<not> given (peripheral_elf a) then die Peripheral_required
          else
            let per = (if split \<noteq> ''none'' then Some (absolute env (the (peripheral_elf a))) else None) in
            if per \<noteq> None \<and> \<not> is_file env (the per) then die (Peripheral_not_found (the per))
            else if (host, split) = (''ble'', ''ble'') \<and> h = None then die Host_elf_required
            else test_stages env a dut h per renode (host, split))"

lemma resolve_links_axes:
  "p \<in> set SUPPORTED_LINKS \<Longrightarrow> resolve_links None (Some (fst p)) (Some (snd p)) = Inr p"
  by (auto simp: resolve_links_def axes_defs or_none_def Let_def)

section \<open>Dispatch\<close>

text \<open>A dispatch makes the one run of its pair, or ends without a run.\<close>

definition dispatched ::
  "(smoke_call \<Rightarrow> smoke_call list \<times> 'r) \<Rightarrow> ('r \<Rightarrow> bool) \<Rightarrow> links \<Rightarrow> smoke_call list \<times> 'r \<Rightarrow> bool"
where
  "dispatched report refused p x \<longleftrightarrow>
     (\<exists>c. x = report c \<and> call_links c = p) \<or> (fst x = [] \<and> refused (snd x))"

lemma dispatched_run: "call_links c = p \<Longrightarrow> dispatched report refused p (report c)"
  by (auto simp: dispatched_def)

lemma dispatched_none: "refused r \<Longrightarrow> dispatched report refused p ([], r)"
  by (simp add: dispatched_def)

lemma smoke_dispatch_dispatched:
  "p \<in> set SUPPORTED_LINKS \<Longrightarrow>
     dispatched (run_and_report env renode) (\<lambda>r. \<forall>code. r = Inr code \<longrightarrow> code = 2) p
       (smoke_dispatch env a renode p)"
  by (cases "host_elf a"; cases "smoke_proto_dir env a"; cases "projr (smoke_proto_dir env a)")
    (auto simp: SUPPORTED_LINKS_def smoke_dispatch_def dispatched_none
      dispatched_run[of _ _ "run_and_report env renode"])

lemma run_and_report_code:
  "run_and_report env renode c = (calls, Inr code) \<Longrightarrow>
     calls = [c] \<and> (code = 0 \<longleftrightarrow> smoke_run env renode c = Inr ()) \<and>
     (code = 1 \<longleftrightarrow> (\<exists>m. smoke_run env renode c = Inl (AssertionError m))) \<and> (code = 0 \<or> code = 1)"
  by (auto simp: run_and_report_def split: sum.splits exn.splits)

lemma with_protos_dispatched:
  "(\<And>d. call_links (f d) = p) \<Longrightarrow>
     dispatched (smoke_or_die env renode) (\<lambda>r. r \<noteq> Finished) p
       (with_protos env (\<lambda>d. smoke_or_die env renode (f d)))"
  by (cases "test_proto_dir env")
    (simp_all add: with_protos_def dispatched_none dispatched_run[of _ _ "smoke_or_die env renode"])

lemma test_dispatch_dispatched:
  "p \<in> set SUPPORTED_LINKS \<Longrightarrow>
     dispatched (smoke_or_die env renode) (\<lambda>r. r \<noteq> Finished) p
       (test_dispatch env a dut h per renode p)"
  by (cases h)
    (auto simp: SUPPORTED_LINKS_def test_dispatch_def run_ble_split_smoke_def run_ble_studio_smoke_def
      run_ble_liveness_smoke_def run_split_smoke_def run_usb_smoke_def run_usb_wired_smoke_def
      with_protos_dispatched dispatched_run[of _ _ "smoke_or_die env renode"])

lemma resolve_in_supported: "resolve_links m h s = Inr p \<Longrightarrow> p \<in> set SUPPORTED_LINKS"
  by (drule resolve_supported) (auto simp: SUPPORTED_LINKS_def)

section \<open>The two front ends\<close>

text \<open>
  The same request given to both front ends: the same common arguments, absolute paths, no empty
  option, the storage and the RPC timeout of the defaults that \<open>do_run\<close> fills in, and the protos
  found in the same place.
\<close>

definition same_request :: "host_env \<Rightarrow> smoke_args \<Rightarrow> test_args \<Rightarrow> bool" where
  "same_request env a t \<longleftrightarrow>
     common_args.truncate a = common_args.truncate t \<and>
     absolute env = id \<and> host_elf t \<noteq> Some [] \<and> peripheral_elf t \<noteq> Some [] \<and> steady_quantum t \<noteq> Some [] \<and>
     storage_addr a = given_addr t \<and> storage_size a = given_size t \<and> rpc_timeout a = 10 \<and>
     \<not> skip_smoke t \<and> has_protobuf env \<and>
     smoke_proto_dir env a = bind_result (test_proto_dir env) (\<lambda>d. Inr (Some d))"

lemma same_request_fields:
  assumes "same_request env a t"
  shows "elf a = elf t" "mode a = mode t" "host_link a = host_link t" "split_link a = split_link t"
    "host_elf a = host_elf t" "peripheral_elf a = peripheral_elf t" "boot_timeout a = boot_timeout t"
    "min_virtual a = min_virtual t" "virtual_budget a = virtual_budget t" "rtt a = rtt t"
    "renode_version a = renode_version t" "steady_quantum a = given_quantum t"
    "storage_addr a = given_addr t" "storage_size a = given_size t" "rpc_timeout a = 10"
  using assms
  by (cases "steady_quantum t"; auto simp: same_request_def common_args.truncate_def given_quantum_def)+

text \<open>The wireless split is the one run for which the two front ends disagree on an argument.\<close>

fun raise_budget :: "smoke_call \<Rightarrow> smoke_call" where
  "raise_budget (Ble_split_smoke c p h b ad sz q) = Ble_split_smoke c p h (max b 120) ad sz q"
| "raise_budget c = c"

lemma fst_run_and_report [simp]: "fst (run_and_report env renode c) = [c]"
  by (simp add: run_and_report_def)

lemma fst_smoke_or_die [simp]: "fst (smoke_or_die env renode c) = [c]"
  by (simp add: smoke_or_die_def)

lemma fst_test_stages:
  "\<not> skip_smoke t \<Longrightarrow> fst (test_stages env t dut h per renode p) = fst (test_dispatch env t dut h per renode p)"
  by (simp add: test_stages_def split: prod.splits)

lemma dispatch_refused:
  assumes "p = (''ble'', ''none'') \<or> p = (''ble'', ''ble'')"
    and "case host_elf a of None \<Rightarrow> p = (''ble'', ''ble'') | Some h \<Rightarrow> \<not> is_file env h"
  shows "fst (smoke_dispatch env a renode p) = []"
  using assms by (auto simp: smoke_dispatch_def split: option.splits)

lemma dispatch_same:
  assumes "same_request env a t" and "p \<in> set SUPPORTED_LINKS"
    and "snd p = ''none'' \<or> peripheral_elf t \<noteq> None"
    and "h = (if fst p = ''ble'' then host_elf t else None)"
    and "p = (''ble'', ''ble'') \<longrightarrow> h \<noteq> None" and "\<forall>x. h = Some x \<longrightarrow> is_file env x"
  shows "fst (test_dispatch env t (elf t) h (if snd p \<noteq> ''none'' then Some (the (peripheral_elf t)) else None) renode p)
    = map raise_budget (fst (smoke_dispatch env a renode p))"
proof -
  note f = same_request_fields[OF assms(1)]
  have protos: "has_protobuf env" "smoke_proto_dir env a = bind_result (test_proto_dir env) (\<lambda>d. Inr (Some d))"
    using assms(1) by (auto simp: same_request_def)
  show ?thesis
    using assms(2-) f protos
    by (cases "test_proto_dir env"; cases "host_elf t")
      (auto simp: SUPPORTED_LINKS_def test_dispatch_def smoke_dispatch_def run_ble_split_smoke_def
        run_ble_studio_smoke_def run_ble_liveness_smoke_def run_split_smoke_def run_usb_smoke_def
        run_usb_wired_smoke_def with_protos_def)
qed

lemma smoke_or_die_Finished:
  "smoke_or_die env renode c = (calls, Finished) \<Longrightarrow> calls = [c] \<and> smoke_run env renode c = Inr ()"
  by (auto simp: smoke_or_die_def split: sum.splits exn.splits)

lemma do_run_stages:
  "do_run env a = (calls, files, out) \<Longrightarrow> out = Finished \<or> files \<noteq> [] \<Longrightarrow>
     \<exists>renode p h per. renode_at env (renode_version a) = Some renode \<and>
       resolve_links (mode a) (host_link a) (split_link a) = Inr p \<and>
       test_stages env a (absolute env (elf a)) h per renode p = (calls, files, out)"
  by (fastforce simp: do_run_def Let_def split: sum.splits prod.splits option.splits if_splits)

text \<open>The variables of the contract; every other one is inherited.\<close>

definition contract_vars :: "string list" where
  "contract_vars = [''PYTHONPATH'', ''ZMK_RENODE_HOST_LINK'', ''ZMK_RENODE_SPLIT_LINK'', ''ZMK_RENODE_MODE'',
     ''ZMK_RENODE_ELF'', ''ZMK_RENODE_PERIPHERAL_ELF'', ''ZMK_RENODE_STORAGE_ADDR'',
     ''ZMK_RENODE_STORAGE_SIZE'', ''ZMK_RENODE_HOST_ELF'']"

lemma contract_vars_prefix: "list_all (\<lambda>v. v = ''PYTHONPATH'' \<or> take 11 v = ''ZMK_RENODE_'') contract_vars"
  by (simp add: contract_vars_def)

lemma module_env_other: "k \<notin> set contract_vars \<Longrightarrow> module_env env a dut p k = environ env k"
  by (simp add: module_env_def Let_def contract_vars_def)

lemma module_env_vars:
  "module_env env a dut p ''ZMK_RENODE_HOST_LINK'' = Some (fst p)"
  "module_env env a dut p ''ZMK_RENODE_SPLIT_LINK'' = Some (snd p)"
  "module_env env a dut p ''ZMK_RENODE_MODE'' = Some (canonical_mode (fst p) (snd p))"
  "module_env env a dut p ''ZMK_RENODE_ELF'' = Some dut"
  "module_env env a dut p ''ZMK_RENODE_STORAGE_ADDR'' =
     (if fst p \<in> {''ble'', ''usb''} \<or> snd p = ''ble'' then Some (py_hex (given_addr a))
      else environ env ''ZMK_RENODE_STORAGE_ADDR'')"
  "module_env env a dut p ''ZMK_RENODE_STORAGE_SIZE'' =
     (if fst p \<in> {''ble'', ''usb''} \<or> snd p = ''ble'' then Some (py_hex (given_size a))
      else environ env ''ZMK_RENODE_STORAGE_SIZE'')"
  "module_env env a dut p ''ZMK_RENODE_PERIPHERAL_ELF'' =
     (if snd p \<noteq> ''none'' then Some (absolute env (the (peripheral_elf a)))
      else environ env ''ZMK_RENODE_PERIPHERAL_ELF'')"
  by (simp_all add: module_env_def Let_def)

lemma test_stages_smoke:
  assumes "test_stages env a dut h per renode p = (calls, files, out)"
    and "out = Finished \<or> files \<noteq> []" and "p \<in> set SUPPORTED_LINKS"
  shows "skip_smoke a \<and> calls = [] \<or>
    (\<exists>c. calls = [c] \<and> call_links c = p \<and> smoke_run env renode c = Inr ())"
proof (cases "skip_smoke a")
  case False
  obtain cs x where td: "test_dispatch env a dut h per renode p = (cs, x)" by fastforce
  then have x: "x = Finished" "cs = calls"
    using False assms(1,2) by (auto simp: test_stages_def split: prod.splits if_splits)
  have "dispatched (smoke_or_die env renode) (\<lambda>r. r \<noteq> Finished) p (calls, Finished)"
    using test_dispatch_dispatched[OF assms(3), of env renode a dut h per] td x by simp
  then obtain c where "smoke_or_die env renode c = (calls, Finished)" "call_links c = p"
    unfolding dispatched_def snd_conv by metis
  then show ?thesis using smoke_or_die_Finished[of env renode c calls] by blast
next
  case True
  with assms(1) show ?thesis
    by (auto simp: test_stages_def Let_def split: prod.splits if_splits)
qed

lemma test_stages_tests:
  assumes "test_stages env a dut h per renode p = (calls, files, out)"
    and "out = Finished \<or> files \<noteq> []" and "given (tests_dir a)"
  shows "run_module_tests env a dut p = (files, out)"
  using assms by (auto simp: test_stages_def Let_def split: prod.splits if_splits)

lemma run_module_tests_verdict:
  assumes "run_module_tests env a dut p = (files, out)" and "out = Finished \<or> files \<noteq> []"
  shows "files = sort_key path_parts (glob_tests env (absolute env (the (tests_dir a)))) \<and>
    (out = Finished \<longleftrightarrow> (\<forall>f \<in> set files. test_exit env (module_env env a dut p) f = 0))"
  using assms by (auto simp: run_module_tests_def Let_def filter_empty_conv split: if_splits)

section \<open>Properties\<close>

text \<open>
  The canonical name identifies a resolved pair.  Every pair that \<open>resolve_links\<close> accepts is
  supported, its canonical name is no other supported pair's, and the name, when it is a preset,
  resolves back to the pair; the explicit axis flags do so for every supported pair.
\<close>

lemma resolve_links_sound:
  assumes "resolve_links m h s = Inr (host, split)"
  shows "(host, split) \<in> set SUPPORTED_LINKS \<and>
    resolve_links None (Some host) (Some split) = Inr (host, split) \<and>
    (\<forall>p \<in> set SUPPORTED_LINKS. canonical_mode (fst p) (snd p) = canonical_mode host split \<longrightarrow> p = (host, split)) \<and>
    resolve_links (Some (canonical_mode host split)) None None =
      (if (host, split) = (''none'', ''wired'') then Inl (Unknown_mode ''none+wired'') else Inr (host, split))"
  using resolve_supported[OF assms]
  by (elim disjE)
    (simp_all add: resolve_links_def canonical_mode_def axes_defs or_none_def Let_def)

lemma wired_split_resolves: "resolve_links (Some ''wired-split'') None None = Inr (''usb'', ''wired'')"
  by (simp add: resolve_links_def MODE_PRESETS_def)

lemma resolve_links_sound_witness:
  "(''usb'', ''wired'') \<in> set SUPPORTED_LINKS \<and>
    resolve_links None (Some ''usb'') (Some ''wired'') = Inr (''usb'', ''wired'') \<and>
    resolve_links (Some (canonical_mode ''usb'' ''wired'')) None None = Inr (''usb'', ''wired'')"
  using resolve_links_sound[OF wired_split_resolves] by simp

text \<open>
  The exit code of \<open>renode_smoke.py\<close> tells what happened.  Code 2 means that no smoke test
  ran; otherwise exactly one ran, the one of the resolved pair, and the code is 0 when it passed
  and 1 when an assertion of it failed.  No other code is returned.
\<close>

lemma smoke_main_exit_code:
  assumes "smoke_main env a = (calls, Inr code)"
  shows "(code = 2 \<and> calls = []) \<or>
    (\<exists>c renode. renode_at env (renode_version a) = Some renode \<and> calls = [c] \<and>
       resolve_links (mode a) (host_link a) (split_link a) = Inr (call_links c) \<and>
       (code = 0 \<and> smoke_run env renode c = Inr () \<or>
        code = 1 \<and> (\<exists>m. smoke_run env renode c = Inl (AssertionError m))))"
proof (cases "calls = [] \<and> code = 2")
  case False
  then obtain p renode where p: "resolve_links (mode a) (host_link a) (split_link a) = Inr p"
    "renode_at env (renode_version a) = Some renode"
    "smoke_dispatch env a renode p = (calls, Inr code)"
    using assms
    by (auto simp: smoke_main_def Let_def split: sum.splits prod.splits option.splits if_splits)
  have "dispatched (run_and_report env renode) (\<lambda>r. \<forall>code. r = Inr code \<longrightarrow> code = 2) p (calls, Inr code)"
    using smoke_dispatch_dispatched[OF resolve_in_supported[OF p(1)], of env renode a] p(3) by simp
  then obtain c where c: "run_and_report env renode c = (calls, Inr code)" "call_links c = p"
    using False by (auto simp: dispatched_def)
  from run_and_report_code[OF c(1)] c(2) p(1,2) show ?thesis by auto
qed simp

definition sample_env :: host_env where
  "sample_env = \<lparr>is_file = (\<lambda>p. p \<in> {''/c.elf'', ''/p.elf'', ''/h.elf''}), is_dir = (\<lambda>p. p \<in> {''/t'', ''/m/proto/zmk''}),
     absolute = (\<lambda>p. p), glob_protos = (\<lambda>_. [''/m/proto/zmk'']), glob_tests = (\<lambda>_. [''/t/b_test.py'', ''/t/a_test.py'']),
     renode_at = (\<lambda>_. Some ''/r/renode''), smoke_run = (\<lambda>_ _. Inr ()),
     manifest = Inr [(''zmk-studio-messages'', ''/m'')], topdir = ''/w'', has_protobuf = True,
     environ = Map.empty, lib_renode_dir = ''/lib'', test_exit = (\<lambda>_ f. if f = ''/t/a_test.py'' then 1 else 0)\<rparr>"

definition sample_smoke_args :: smoke_args where
  "sample_smoke_args = \<lparr>elf = ''/c.elf'', mode = Some ''ble-split'', host_link = None, split_link = None,
     host_elf = Some ''/h.elf'', peripheral_elf = Some ''/p.elf'', boot_timeout = 20, min_virtual = 20,
     virtual_budget = 20, steady_quantum = None, rtt = False, renode_version = ''1.16.1'',
     studio_proto_dir = None, west_topdir = None, rpc_timeout = 10,
     storage_addr = STORAGE_ADDR_DEFAULT, storage_size = STORAGE_SIZE_DEFAULT\<rparr>"

definition sample_test_args :: test_args where
  "sample_test_args = \<lparr>elf = ''/c.elf'', mode = Some ''ble-split'', host_link = None, split_link = None,
     host_elf = Some ''/h.elf'', peripheral_elf = Some ''/p.elf'', boot_timeout = 20, min_virtual = 20,
     virtual_budget = 20, steady_quantum = None, rtt = False, renode_version = ''1.16.1'',
     tests_dir = Some ''/t'', skip_smoke = False, storage_addr_given = None, storage_size_given = None\<rparr>"

lemma sample_smoke_main:
  "smoke_main sample_env sample_smoke_args =
     ([Ble_split_smoke ''/c.elf'' ''/p.elf'' ''/h.elf'' 20 0xEC000 0x8000 None], Inr 0)"
  by (simp add: smoke_main_def sample_env_def sample_smoke_args_def resolve_links_def MODE_PRESETS_def
      smoke_dispatch_def run_and_report_def STORAGE_ADDR_DEFAULT_def STORAGE_SIZE_DEFAULT_def)

lemma smoke_main_exit_code_witness:
  "((0::int) = 2 \<and> [Ble_split_smoke ''/c.elf'' ''/p.elf'' ''/h.elf'' 20 0xEC000 0x8000 None] = []) \<or>
    (\<exists>c renode. renode_at sample_env (renode_version sample_smoke_args) = Some renode \<and>
       [Ble_split_smoke ''/c.elf'' ''/p.elf'' ''/h.elf'' 20 0xEC000 0x8000 None] = [c] \<and>
       resolve_links (mode sample_smoke_args) (host_link sample_smoke_args) (split_link sample_smoke_args) = Inr (call_links c) \<and>
       ((0::int) = 0 \<and> smoke_run sample_env renode c = Inr () \<or>
        (0::int) = 1 \<and> (\<exists>m. smoke_run sample_env renode c = Inl (AssertionError m))))"
  by (rule smoke_main_exit_code[OF sample_smoke_main])

text \<open>
  Both front ends run the same smoke test.  Given the same request, \<open>west zmk-renode-test\<close> makes
  the runs that \<open>renode_smoke.py\<close> makes, with the same arguments; the only difference is the
  virtual-time budget of the wireless split, which \<open>do_run\<close> raises to at least 120 seconds and
  \<open>main\<close> passes as it stands.
\<close>

lemma front_ends_agree:
  assumes "same_request env a t"
  shows "fst (do_run env t) = map raise_budget (fst (smoke_main env a))"
proof -
  note f = same_request_fields[OF assms]
  have d: "absolute env p = p" for p using assms by (simp add: same_request_def)
  have g: "\<not> skip_smoke t" and ne: "host_elf t \<noteq> Some []" "peripheral_elf t \<noteq> Some []"
    using assms by (auto simp: same_request_def)
  show ?thesis
  proof (cases "is_file env (elf t)")
    case True
    show ?thesis
    proof (cases "resolve_links (mode t) (host_link t) (split_link t)")
      case (Inr p)
      obtain host split where p: "p = (host, split)" by fastforce
      let ?h = "if host = ''ble'' then host_elf t else None"
      let ?per = "if split \<noteq> ''none'' then Some (the (peripheral_elf t)) else None"
      have disp: "fst (test_dispatch env t (elf t) ?h ?per renode p) = map raise_budget (fst (smoke_dispatch env a renode p))"
        if "split = ''none'' \<or> peripheral_elf t \<noteq> None" "p = (''ble'', ''ble'') \<longrightarrow> ?h \<noteq> None"
          "\<forall>x. ?h = Some x \<longrightarrow> is_file env x" for renode
        using dispatch_same[OF assms resolve_in_supported[OF Inr], of ?h renode] that by (simp add: p)
      have ble: "host = ''ble'' \<Longrightarrow> p = (''ble'', ''none'') \<or> p = (''ble'', ''ble'')"
        using resolve_in_supported[OF Inr] by (auto simp: p SUPPORTED_LINKS_def)
      note ref = dispatch_refused[where p = p and a = a and env = env]
      show ?thesis
        using True Inr disp ble ref ne
        by (cases "host = ''ble''"; cases "renode_at env (renode_version t)"; cases "host_elf t";
            cases "peripheral_elf t"; simp add: do_run_def smoke_main_def f d g p fst_test_stages Let_def;
            auto)
    next
      case (Inl e)
      with True show ?thesis by (simp add: do_run_def smoke_main_def f d)
    qed
  qed (simp add: do_run_def smoke_main_def f d)
qed

lemma front_ends_agree_witness:
  "fst (do_run sample_env sample_test_args) = map raise_budget (fst (smoke_main sample_env
     (sample_smoke_args\<lparr>studio_proto_dir := Some ''/m/proto/zmk''\<rparr>)))"
  by (rule front_ends_agree)
    (simp add: same_request_def common_args.truncate_def sample_env_def sample_smoke_args_def
      sample_test_args_def given_addr_def given_size_def smoke_proto_dir_def test_proto_dir_def
      path_join_def id_def)



text \<open>
  C18. Nothing requested is skipped.  When \<open>do_run\<close> finishes without an error, or has started the
  module's tests, the smoke test of the resolved pair has passed (unless \<open>--skip-smoke\<close>); every
  test file of the directory is then run, in path order and whatever fails, and the command
  finishes cleanly only when all of them exit with 0.
\<close>

theorem do_run_verdict:
  assumes "do_run env a = (calls, files, out)" and "out = Finished \<or> files \<noteq> []"
  shows "\<exists>p renode. resolve_links (mode a) (host_link a) (split_link a) = Inr p \<and>
    renode_at env (renode_version a) = Some renode \<and>
    (skip_smoke a \<and> calls = [] \<or>
     (\<exists>c. calls = [c] \<and> call_links c = p \<and> smoke_run env renode c = Inr ())) \<and>
    (given (tests_dir a) \<longrightarrow>
       files = sort_key path_parts (glob_tests env (absolute env (the (tests_dir a)))) \<and>
       (out = Finished \<longleftrightarrow>
          (\<forall>f \<in> set files. test_exit env (module_env env a (absolute env (elf a)) p) f = 0)))"
proof -
  obtain renode p h per where r: "renode_at env (renode_version a) = Some renode"
    and p: "resolve_links (mode a) (host_link a) (split_link a) = Inr p"
    and st: "test_stages env a (absolute env (elf a)) h per renode p = (calls, files, out)"
    using do_run_stages[OF assms] by blast
  from r p test_stages_smoke[OF st assms(2) resolve_in_supported[OF p]]
    run_module_tests_verdict[OF test_stages_tests[OF st assms(2)] assms(2)]
  show ?thesis by blast
qed

theorem do_run_verdict_witness:
  "\<exists>p renode. resolve_links (mode sample_test_args) (host_link sample_test_args) (split_link sample_test_args) = Inr p \<and>
    renode_at sample_env (renode_version sample_test_args) = Some renode \<and>
    (skip_smoke sample_test_args \<and> [Ble_split_smoke ''/c.elf'' ''/p.elf'' ''/h.elf'' 120 0xEC000 0x8000 None] = [] \<or>
     (\<exists>c. [Ble_split_smoke ''/c.elf'' ''/p.elf'' ''/h.elf'' 120 0xEC000 0x8000 None] = [c] \<and>
        call_links c = p \<and> smoke_run sample_env renode c = Inr ())) \<and>
    (given (tests_dir sample_test_args) \<longrightarrow>
       [''/t/a_test.py'', ''/t/b_test.py''] = sort_key path_parts (glob_tests sample_env (absolute sample_env (the (tests_dir sample_test_args)))) \<and>
       (Died (Module_tests_failed [''/t/a_test.py'']) = Finished \<longleftrightarrow>
          (\<forall>f \<in> set [''/t/a_test.py'', ''/t/b_test.py''].
             test_exit sample_env (module_env sample_env sample_test_args (absolute sample_env (elf sample_test_args)) p) f = 0)))"
  by (rule do_run_verdict)
    (simp_all add: do_run_def sample_env_def sample_test_args_def resolve_links_def MODE_PRESETS_def
      test_stages_def test_dispatch_def run_ble_split_smoke_def smoke_or_die_def run_module_tests_def
      given_addr_def given_size_def given_quantum_def STORAGE_ADDR_DEFAULT_def STORAGE_SIZE_DEFAULT_def
      path_parts_def list_less_def)

end
