(* ===== verification/Build_Matrix.thy ===== *)
theory Build_Matrix
  imports Py_Prelude
begin

text \<open>
  \<open>west zmk-build\<close> (\<open>scripts/zmk_build.py\<close>): the build matrix from \<open>build.yaml\<close> and the
  command line, its filter and artifact names, the commands of a build and of a flash, the
  verdict over the parallel builds, and the merge of the VSCode configurations.

  A Python \<open>set\<close> is iterated in an order the language does not fix: \<open>iterate\<close> is a parameter
  that turns a list with duplicates into the order of its set.  The file system, the compiled
  regular expression, the selection of \<open>questionary\<close> and the child processes are parameters.
\<close>

section \<open>build.yaml\<close>

text \<open>A record of the \<open>include\<close> list, with the keys the command reads.\<close>

record entry =
  e_board :: "string option"
  e_shield :: "string option"
  e_artifact :: "string option"
  e_cmake_args :: "string option"
  e_cmake_args2 :: "string option"
  e_snippets :: "string list"
  e_snippet :: "string option"

record yaml_doc =
  y_board :: "string list"
  y_shield :: "string list"
  y_include :: "entry list"

text \<open>\<open>_load_yaml\<close>: empty documents are dropped, the others are concatenated key by key.\<close>

definition load_yaml :: "yaml_doc option list \<Rightarrow> yaml_doc" where
  "load_yaml docs = (let ys = List.map_filter id docs in
     \<lparr>y_board = concat (map y_board ys), y_shield = concat (map y_shield ys),
      y_include = concat (map y_include ys)\<rparr>)"

text \<open>\<open>_find_build_yaml\<close>: the first existing candidate, in this order.\<close>

definition build_yaml_candidates :: "string \<Rightarrow> string list" where
  "build_yaml_candidates config_path =
     concat (map (\<lambda>dir. map (\<lambda>ext. path_join dir (''build.'' @ ext)) [''yaml'', ''yml''])
       [path_parent config_path, config_path])"

definition empty_yaml :: yaml_doc where
  "empty_yaml = \<lparr>y_board = [], y_shield = [], y_include = []\<rparr>"

definition find_build_yaml ::
  "(string \<Rightarrow> bool) \<Rightarrow> (string \<Rightarrow> yaml_doc option list) \<Rightarrow> string \<Rightarrow> yaml_doc"
where
  "find_build_yaml exists read config_path =
     (case filter exists (build_yaml_candidates config_path) of
        f # _ \<Rightarrow> load_yaml (read f)
      | [] \<Rightarrow> empty_yaml)"

section \<open>The matrix\<close>

record build_args =
  config_path :: string
  boards :: "string list"
  shields :: "string list"
  artifact :: "string option"
  artifact_search :: "(string \<Rightarrow> bool) option"
  artifact_suffix :: "string option"
  flash :: "string list option"
  no_run :: bool
  interactive :: bool
  reset :: bool
  debug_jlink :: bool
  debug_print :: bool
  skip_build :: bool
  pristine :: string
  west_args :: "string list"
  snippet :: "string list"
  cmake_args :: "string option"
  extra_modules :: "string list"
  auto_discovery :: "string list"
  build_dir :: "string option"
  vscode :: bool

definition product_entry :: "string \<Rightarrow> string \<Rightarrow> entry" where
  "product_entry b s = \<lparr>e_board = Some b, e_shield = Some s, e_artifact = None, e_cmake_args = None,
     e_cmake_args2 = None, e_snippets = [], e_snippet = None\<rparr>"

definition full_matrix :: "(string list \<Rightarrow> string list) \<Rightarrow> build_args \<Rightarrow> yaml_doc \<Rightarrow> entry list" where
  "full_matrix iterate a y =
     (let bs = iterate (if boards a \<noteq> [] then boards a else y_board y);
          ss = iterate (if shields a \<noteq> [] then shields a else y_shield y)
      in y_include y @ concat (map (\<lambda>b. map (product_entry b) ss) bs))"

text \<open>\<open>filter_out_matrix_by_args\<close>: an entry without a board is looked up only under \<open>-b\<close>.\<close>

definition keep_entry :: "build_args \<Rightarrow> entry \<Rightarrow> bool result" where
  "keep_entry a inc =
     (if boards a \<noteq> [] \<and> e_board inc = None then Inl (KeyError ''board'')
      else if boards a \<noteq> [] \<and> the (e_board inc) \<notin> set (boards a) then Inr False
      else if shields a \<noteq> [] \<and> (case e_shield inc of None \<Rightarrow> True | Some s \<Rightarrow> s \<notin> set (shields a)) then Inr False
      else if truthy (artifact a) \<and> e_artifact inc \<noteq> None \<and> e_artifact inc \<noteq> artifact a then Inr False
      else (case artifact_search a of
              None \<Rightarrow> Inr True
            | Some search \<Rightarrow> Inr (search (case e_artifact inc of None \<Rightarrow> [] | Some n \<Rightarrow> n))))"

fun filter_result :: "('a \<Rightarrow> 'e + bool) \<Rightarrow> 'a list \<Rightarrow> 'e + 'a list" where
  "filter_result f [] = Inr []"
| "filter_result f (x # xs) = bind_result (f x) (\<lambda>b. bind_result (filter_result f xs)
     (\<lambda>ys. Inr (if b then x # ys else ys)))"

lemma filter_result_Inr:
  "filter_result f xs = Inr ys \<longleftrightarrow> (\<forall>x \<in> set xs. is_ok (f x)) \<and> ys = filter (\<lambda>x. f x = Inr True) xs"
proof (induction xs arbitrary: ys)
  case (Cons x xs)
  then show ?case by (cases "f x") (auto simp: bind_result_Inr_iff)
qed auto

definition sanitize :: "string \<Rightarrow> string" where
  "sanitize s = map (\<lambda>c. if c = CHR '' '' \<or> c = CHR ''/'' then CHR ''_'' else c) s"

text \<open>
  The naming loop.  Its guard \<open>len(matrix) > 0\<close> holds in every iteration, so the other branch
  of the source is never taken; it is kept.
\<close>

definition name_entry :: "build_args \<Rightarrow> nat \<Rightarrow> entry \<Rightarrow> entry result" where
  "name_entry a n inc =
     (if e_artifact inc \<noteq> None then Inr inc
      else bind_result
        (if n > 0 then
           (case (e_board inc, e_shield inc) of
              (None, _) \<Rightarrow> Inl (KeyError ''board'')
            | (Some b, None) \<Rightarrow> Inl (KeyError ''shield'')
            | (Some b, Some s) \<Rightarrow>
                Inr ((if truthy (artifact a) then the (artifact a) @ ''__'' else []) @ b @ ''__'' @ s))
         else Inr (if truthy (artifact a) then the (artifact a) else path_name (path_parent (config_path a))))
        (\<lambda>name. Inr (inc\<lparr>e_artifact := Some (sanitize name)\<rparr>)))"

definition list_entry :: "entry \<Rightarrow> unit result" where
  "list_entry inc = (case (e_board inc, e_shield inc) of
     (None, _) \<Rightarrow> Inl (KeyError ''board'')
   | (Some b, None) \<Rightarrow> Inl (KeyError ''shield'')
   | (Some b, Some s) \<Rightarrow> Inr ())"

definition name_of :: "entry \<Rightarrow> string" where
  "name_of inc = the (e_artifact inc)"

text \<open>Up to the selection or listing of the targets.\<close>

definition find_targets ::
  "(string list \<Rightarrow> string list) \<Rightarrow> (entry list \<Rightarrow> entry list) \<Rightarrow> build_args \<Rightarrow> yaml_doc \<Rightarrow> entry list result"
where
  "find_targets iterate select a y =
     bind_result (filter_result (keep_entry a) (full_matrix iterate a y)) (\<lambda>m.
     if m = [] then Inl (SystemExit ''No build targets found.'')
     else if length m > 1 \<and> flash a \<noteq> None then Inl (SystemExit ''Cannot flash multiple targets.'')
     else bind_result (map_result (name_entry a (length m)) m) (\<lambda>named.
     if length named \<noteq> card (set (map name_of named)) then Inl (SystemExit ''Duplicated artifact names found.'')
     else if interactive a then
       (let chosen = select named in
        if chosen = [] then Inl (SystemExit ''No build targets selected.'') else Inr chosen)
     else bind_result (map_result list_entry named) (\<lambda>_. Inr named)))"

definition suffix_entry :: "build_args \<Rightarrow> entry \<Rightarrow> entry" where
  "suffix_entry a inc = inc\<lparr>e_artifact := Some (name_of inc
     @ (if reset a then ''_reset'' else [])
     @ (if debug_jlink a then ''_debug_jlink'' else [])
     @ (if debug_print a then ''_debug_print'' else [])
     @ (if truthy (artifact_suffix a) then ''_'' @ the (artifact_suffix a) else []))\<rparr>"

section \<open>One build\<close>

text \<open>An existing settings file, as far as it matters: it may be missing, not be JSON, or hold named
  configurations.\<close>

datatype settings_file = Absent | Broken | Holds "(string \<times> string) list"

record build_env =
  exists_path :: "string \<Rightarrow> bool"
  cwd :: string
  cwd_parents :: "string list"
  make_absolute :: "string \<Rightarrow> string"
  workspace_top :: string
  zmk_abspath :: string
  run_proc :: "string list \<Rightarrow> int result"
  uf2_exists :: "string \<Rightarrow> bool"
  cpp_file :: settings_file
  launch_file :: settings_file
  relative :: "string \<Rightarrow> string"

definition DEBUG_CMAKE_ARGS :: "string list" where
  "DEBUG_CMAKE_ARGS = [''-DCMAKE_BUILD_TYPE=Debug'', ''-DCONFIG_USE_SEGGER_RTT=y'',
     ''-DCONFIG_RTT_CONSOLE=y'', ''-DCONFIG_UART_CONSOLE=n'', ''-DCONFIG_LOG=y'',
     ''-DCONFIG_LOG_BACKEND_RTT=n'', ''-DCONFIG_LOG_BACKEND_UART=n'', ''-DCONFIG_SHELL=y'',
     ''-DCONFIG_KERNEL_SHELL=y'', ''-DCONFIG_SHELL_BACKEND_RTT=y'', ''-DCONFIG_DEBUG_INFO=y'',
     ''-DCONFIG_THREAD_NAME=y'', ''-DCONFIG_DEBUG_THREAD_INFO=y'', ''-DCONFIG_THREAD_MONITOR=y'',
     ''-DCONFIG_THREAD_STACK_INFO=y'', ''-DCONFIG_INIT_STACKS=y'']"

text \<open>\<open>s.split()\<close>: the maximal runs of characters that are not white space.\<close>

fun py_words :: "string \<Rightarrow> string list" where
  "py_words [] = []"
| "py_words (c # cs) =
     (if py_space c then py_words cs
      else if cs = [] \<or> py_space (hd cs) then [c] # py_words cs
      else (case py_words cs of [] \<Rightarrow> [[c]] | w # ws \<Rightarrow> (c # w) # ws))"

definition is_module :: "build_env \<Rightarrow> string \<Rightarrow> bool" where
  "is_module env p = exists_path env (path_join p ''zephyr/module.yml'')"

definition discover_extra_modules :: "build_env \<Rightarrow> string \<Rightarrow> string \<Rightarrow> string list" where
  "discover_extra_modules env strategy config =
     filter (is_module env)
       (if strategy = ''zmk-config'' then [make_absolute env (path_parent config)]
        else if strategy = ''current'' then [cwd env]
        else if strategy = ''walk-up'' then take 1 (filter (is_module env) (cwd_parents env))
        else [])"

definition build_dir_of :: "build_env \<Rightarrow> build_args \<Rightarrow> string \<Rightarrow> string" where
  "build_dir_of env a name =
     path_join (if truthy (build_dir a) then the (build_dir a)
                else path_join (workspace_top env) ''build'') name"

definition build_command ::
  "(string list \<Rightarrow> string list) \<Rightarrow> build_env \<Rightarrow> build_args \<Rightarrow> entry \<Rightarrow> string list"
where
  "build_command iterate env a inc =
     (let config = make_absolute env (config_path a);
          setup_args = (case e_cmake_args inc of Some c \<Rightarrow> c
                        | None \<Rightarrow> (case e_cmake_args2 inc of Some c \<Rightarrow> c | None \<Rightarrow> []));
          cmake = (if truthy (cmake_args a) then py_words (the (cmake_args a)) else [])
            @ py_words setup_args
            @ (if debug_jlink a then DEBUG_CMAKE_ARGS else [])
            @ (if reset a then [''-DCONFIG_ZMK_SETTINGS_RESET_ON_START=y''] else []);
          extra = iterate (map (make_absolute env) (extra_modules a)
            @ concat (map (\<lambda>strategy. discover_extra_modules env strategy config) (auto_discovery a)));
          snippets = map (\<lambda>s. ''-S '' @ s) (snippet a @ e_snippets inc)
            @ (case e_snippet inc of None \<Rightarrow> [] | Some s \<Rightarrow> [''-S '' @ s])
            @ (if debug_print a then [''-S zmk-usb-logging''] else [])
      in [''west'', ''build'', ''-s'', path_join (zmk_abspath env) ''app'', ''-d'', build_dir_of env a (name_of inc),
          ''-b'', the (e_board inc), ''-p'', pristine a] @ west_args a @ snippets
         @ [''--'', ''-DSHIELD='' @ the (e_shield inc), ''-DZMK_EXTRA_MODULES='' @ py_join '';'' extra,
            ''-DZMK_CONFIG='' @ config] @ cmake)"

record build_result =
  r_id :: nat
  r_artifact :: string
  r_success :: bool
  r_message :: string

text \<open>
  \<open>_build\<close>: the message and the verdict on a process that has ended with \<open>rc\<close>.  What the output log is
  and what is shown of it is in Build_Output.
\<close>

definition build_verdict :: "build_env \<Rightarrow> string \<Rightarrow> int \<Rightarrow> string \<times> bool" where
  "build_verdict env dir rc =
     (let log_file = path_join dir ''stdout_and_stderr.log'' in
      if rc \<noteq> 0 then (''Failed. See log in '' @ log_file, False)
      else if \<not> uf2_exists env dir
      then (''Succeeded but firmware artifact not found. See log in '' @ log_file, False)
      else (''Succeeded in '' @ path_join dir ''zephyr/zmk.uf2'', True))"

definition build ::
  "(string list \<Rightarrow> string list) \<Rightarrow> build_env \<Rightarrow> build_args \<Rightarrow> entry \<Rightarrow> (string \<times> bool) result"
where
  "build iterate env a inc =
     (if e_board inc = None then Inl (KeyError ''board'')
      else if e_shield inc = None then Inl (KeyError ''shield'')
      else bind_result (run_proc env (build_command iterate env a inc)) (\<lambda>rc.
        Inr (build_verdict env (build_dir_of env a (name_of inc)) rc)))"

text \<open>\<open>re.sub\<close> of one or two leading plus signs by as many dashes.\<close>

definition flash_arg :: "string \<Rightarrow> string" where
  "flash_arg s = (let n = min 2 (length (takeWhile (\<lambda>c. c = CHR ''+'') s)) in
     replicate n (CHR ''-'') @ drop n s)"

definition flash_command :: "string \<Rightarrow> string list \<Rightarrow> string list" where
  "flash_command dir args = [''west'', ''flash'', ''-d'', dir, ''--skip-rebuild''] @ map flash_arg args"

definition flash_device :: "build_env \<Rightarrow> string \<Rightarrow> string list \<Rightarrow> int result" where
  "flash_device env dir args = run_proc env (flash_command dir args)"

definition run_single_build ::
  "(string list \<Rightarrow> string list) \<Rightarrow> build_env \<Rightarrow> build_args \<Rightarrow> nat \<Rightarrow> entry \<Rightarrow> build_result result"
where
  "run_single_build iterate env a i inc =
     (let dir = build_dir_of env a (name_of inc) in
      bind_result (if skip_build a then Inr ([], True) else build iterate env a inc) (\<lambda>(msg, ok).
      let r = \<lparr>r_id = i, r_artifact = name_of inc, r_success = ok, r_message = msg\<rparr> in
      case flash a of
        Some fargs \<Rightarrow>
          if ok then bind_result (flash_device env dir fargs) (\<lambda>rc.
            Inr (if rc \<noteq> 0 then r\<lparr>r_message := msg @ '' but flashing failed.'', r_success := False\<rparr> else r))
          else Inr r
      | None \<Rightarrow> Inr r))"

section \<open>VSCode settings\<close>

text \<open>
  \<open>_generate_vscode_settings\<close> merges twice in the same way: the stored configurations are a list
  of names with their contents, a target whose artifact name is stored keeps it, any other gets
  a fresh one, and the file is written when a fresh one was made.  \<open>label\<close> is the name a fresh
  configuration gets: the artifact name in \<open>c_cpp_properties.json\<close>, \<open>Debug ZMK - <artifact>\<close> in
  \<open>launch.json\<close>.
\<close>

definition vscode_merge ::
  "(string \<Rightarrow> string) \<Rightarrow> (string \<Rightarrow> 'c) \<Rightarrow> (string \<times> 'c) list \<Rightarrow> string list \<Rightarrow> (string \<times> 'c) list"
where
  "vscode_merge label fresh stored names =
     (let by_name = map_of (rev stored);
          pick = (\<lambda>n. case by_name n of Some c \<Rightarrow> (n, c) | None \<Rightarrow> (label n, fresh n))
      in if list_ex (\<lambda>n. by_name n = None) names then map pick names else stored)"

definition cpp_label :: "string \<Rightarrow> string" where "cpp_label n = n"
definition launch_label :: "string \<Rightarrow> string" where "launch_label n = ''Debug ZMK - '' @ n"

text \<open>
  One settings file: \<open>None\<close> when it is left as it is, otherwise the configurations written.  A file that is
  not JSON ends the command with exit code 1.  Of a fresh configuration only what depends on the target is kept.
\<close>

definition settings_update ::
  "(string \<Rightarrow> string) \<Rightarrow> (string \<Rightarrow> string) \<Rightarrow> settings_file \<Rightarrow> string list \<Rightarrow> (string \<times> string) list option result"
where
  "settings_update label fresh file names =
     (let update = (\<lambda>stored. if list_ex (\<lambda>n. map_of (rev stored) n = None) names
                             then Inr (Some (vscode_merge label fresh stored names)) else Inr None) in
      case file of Absent \<Rightarrow> update [] | Broken \<Rightarrow> Inl (SystemExit ''1'') | Holds stored \<Rightarrow> update stored)"

definition cpp_content :: "build_env \<Rightarrow> build_args \<Rightarrow> string \<Rightarrow> string" where
  "cpp_content env a n = relative env (path_join (build_dir_of env a n) ''compile_commands.json'')"

definition launch_content :: "build_env \<Rightarrow> build_args \<Rightarrow> string \<Rightarrow> string" where
  "launch_content env a n = relative env (path_join (build_dir_of env a n) ''zephyr/zmk.elf'')"

definition generate_vscode_settings ::
  "build_env \<Rightarrow> build_args \<Rightarrow> entry list \<Rightarrow> ((string \<times> string) list option \<times> (string \<times> string) list option) result"
where
  "generate_vscode_settings env a m =
     bind_result (settings_update cpp_label (cpp_content env a) (cpp_file env) (map name_of m)) (\<lambda>cpp.
     bind_result (settings_update launch_label (launch_content env a) (launch_file env) (map name_of m)) (\<lambda>launch.
     Inr (cpp, launch)))"

section \<open>All builds\<close>

text \<open>
  The builds run in parallel and are collected in the order \<open>order\<close> in which \<open>as_completed\<close> hands them
  out, a permutation of their numbers.  A build that raised is reported with the number \<open>i\<close> of its
  completion, as the source has it.  The pool they run in is in Case_Pool.
\<close>

definition collect ::
  "entry list \<Rightarrow> (nat \<Rightarrow> build_result result) \<Rightarrow> nat list \<Rightarrow> build_result list"
where
  "collect m run order =
     map (\<lambda>(i, k). case run k of
            Inr r \<Rightarrow> r
          | Inl e \<Rightarrow> \<lparr>r_id = i, r_artifact = name_of (m ! i), r_success = False,
                      r_message = ''Unexpected error''\<rparr>)
       (enumerate 0 order)"

definition exit_code :: "build_result list \<Rightarrow> int" where
  "exit_code rs = (if list_ex (\<lambda>r. \<not> r_success r) rs then 1 else 0)"

text \<open>The messages after all builds.\<close>

datatype severity = Info | Warning | Error_message

definition build_summary :: "build_result list \<Rightarrow> (severity \<times> string) list" where
  "build_summary rs =
     (if exit_code rs = 0 then [(Info, ''All builds succeeded.'')]
      else (Error_message, ''Some builds failed!'') #
        map (\<lambda>r. (if r_success r then Info else Error_message,
               ''['' @ dec_of_nat (r_id r) @ ''] '' @ r_artifact r @ '' : '' @ r_message r)) rs)"

definition run_for_all ::
  "(string list \<Rightarrow> string list) \<Rightarrow> (entry list \<Rightarrow> entry list) \<Rightarrow> nat list \<Rightarrow> build_env \<Rightarrow> build_args \<Rightarrow>
     yaml_doc \<Rightarrow> (int \<times> build_result list) result"
where
  "run_for_all iterate select order env a y =
     bind_result (find_targets iterate select a y) (\<lambda>m.
     if no_run a then Inr (0, [])
     else
       let m' = map (suffix_entry a) m;
           rs = collect m' (\<lambda>k. run_single_build iterate env a k (m' ! k)) order
       in bind_result (if vscode a then generate_vscode_settings env a m' else Inr (None, None)) (\<lambda>_.
            Inr (exit_code rs, rs)))"

text \<open>\<open>do_run\<close>: the workspace must have ZMK; a \<open>config\<close> directory below the given path is taken.\<close>

definition zmk_build ::
  "(string list \<Rightarrow> string list) \<Rightarrow> (entry list \<Rightarrow> entry list) \<Rightarrow> nat list \<Rightarrow> build_env \<Rightarrow>
     (string \<times> string) list \<Rightarrow> (string \<Rightarrow> bool) \<Rightarrow> (string \<Rightarrow> yaml_doc option list) \<Rightarrow> string option \<Rightarrow>
     build_args \<Rightarrow> (int \<times> build_result list) result"
where
  "zmk_build iterate select order env projects dir_exists read_yaml build_yaml a =
     (case filter (\<lambda>(name, path). name = ''zmk'') projects of
        [] \<Rightarrow> Inl (SystemExit ''[*] ZMK project not found in manifest.'')
      | (name, path) # _ \<Rightarrow>
          (let a' = (if dir_exists (path_join (config_path a) ''config'')
                     then a\<lparr>config_path := path_join (config_path a) ''config''\<rparr> else a);
               y = (if truthy build_yaml then load_yaml (read_yaml (the build_yaml))
                    else find_build_yaml (exists_path env) read_yaml (config_path a'))
           in run_for_all iterate select order (env\<lparr>zmk_abspath := path\<rparr>) a' y))"

section \<open>Targets\<close>

text \<open>What the language promises of a set: every element once, in some order.\<close>

definition set_order :: "(string list \<Rightarrow> string list) \<Rightarrow> bool" where
  "set_order iterate \<longleftrightarrow> (\<forall>xs. set (iterate xs) = set xs \<and> distinct (iterate xs))"

text \<open>The target that a record of the matrix becomes.\<close>

definition target_of :: "build_args \<Rightarrow> entry \<Rightarrow> entry" where
  "target_of a inc =
     (if e_artifact inc \<noteq> None then inc
      else inc\<lparr>e_artifact := Some (sanitize ((if truthy (artifact a) then the (artifact a) @ ''__'' else [])
        @ the (e_board inc) @ ''__'' @ the (e_shield inc)))\<rparr>)"

lemma name_entry_Inr:
  "name_entry a n inc = Inr t \<Longrightarrow> 0 < n \<Longrightarrow>
     t = target_of a inc \<and> (e_artifact inc = None \<longrightarrow> e_board inc \<noteq> None \<and> e_shield inc \<noteq> None)"
  by (auto simp: name_entry_def target_of_def bind_result_Inr_iff split: if_splits option.splits)

lemma list_entry_Inr: "list_entry inc = Inr u \<longleftrightarrow> e_board inc \<noteq> None \<and> e_shield inc \<noteq> None"
  by (auto simp: list_entry_def split: option.splits)

lemma name_all:
  assumes "map_result (name_entry a n) m = Inr ts" and "0 < n"
  shows "ts = map (target_of a) m \<and>
    (\<forall>inc \<in> set m. e_artifact inc = None \<longrightarrow> e_board inc \<noteq> None \<and> e_shield inc \<noteq> None)"
proof -
  have "list_all2 (\<lambda>inc t. name_entry a n inc = Inr t) m ts"
    using assms(1) by (simp add: map_result_Inr_iff)
  then show ?thesis
  proof (induction rule: list_all2_induct)
    case (Cons inc m t ts)
    then show ?case using name_entry_Inr[OF Cons.hyps(1) assms(2)] by simp
  qed simp
qed

lemma distinct_if_card: "length xs = card (set xs) \<Longrightarrow> distinct xs"
  by (simp add: card_distinct)

lemma find_targets_Inr:
  assumes "find_targets iterate select a y = Inr ts" and "\<not> interactive a"
  defines "kept \<equiv> filter (\<lambda>inc. keep_entry a inc = Inr True) (full_matrix iterate a y)"
  shows "ts = map (target_of a) kept" "kept \<noteq> []" "distinct (map name_of ts)"
    "\<forall>t \<in> set ts. e_board t \<noteq> None \<and> e_shield t \<noteq> None"
    "flash a \<noteq> None \<longrightarrow> length ts = 1"
proof -
  have k: "filter_result (keep_entry a) (full_matrix iterate a y) = Inr m \<Longrightarrow> m = kept" for m
    by (simp add: filter_result_Inr kept_def)
  from assms(1,2) obtain u where nm: "map_result (name_entry a (length kept)) kept = Inr ts"
    and ne: "kept \<noteq> []" and fl: "\<not> (length kept > 1 \<and> flash a \<noteq> None)"
    and card: "length ts = card (set (map name_of ts))" and ls: "map_result list_entry ts = Inr u"
    by (auto simp: find_targets_def bind_result_Inr_iff split: if_splits dest!: k)
  show ts: "ts = map (target_of a) kept" using name_all[OF nm] ne by simp
  show "kept \<noteq> []" by (rule ne)
  show "distinct (map name_of ts)" using card distinct_if_card[of "map name_of ts"] by simp
  have "list_all2 (\<lambda>t v. list_entry t = Inr v) ts u" using ls by (simp add: map_result_Inr_iff)
  then show "\<forall>t \<in> set ts. e_board t \<noteq> None \<and> e_shield t \<noteq> None"
    by (auto simp: list_all2_conv_all_nth in_set_conv_nth list_entry_Inr)
  show "flash a \<noteq> None \<longrightarrow> length ts = 1"
    using fl ne ts by (cases kept) auto
qed

section \<open>Build directories\<close>

text \<open>A name that stays one component below the build directory.\<close>

definition plain_name :: "string \<Rightarrow> bool" where
  "plain_name n \<longleftrightarrow> n \<noteq> [] \<and> n \<noteq> ''.'' \<and> CHR ''/'' \<notin> set n"

lemma sanitize_plain: "CHR ''/'' \<notin> set (sanitize s)" "CHR '' '' \<notin> set (sanitize s)"
  by (auto simp: sanitize_def)

lemma length_sanitize [simp]: "length (sanitize s) = length s"
  by (simp add: sanitize_def)

lemma target_plain:
  "(\<And>n. e_artifact inc = Some n \<Longrightarrow> plain_name n) \<Longrightarrow> plain_name (name_of (target_of a inc))"
proof (cases "e_artifact inc")
  case None
  let ?n = "name_of (target_of a inc)"
  have "length ?n \<ge> 2" using None by (simp add: target_of_def name_of_def)
  then have "?n \<noteq> []" "?n \<noteq> ''.''" by auto
  moreover have "CHR ''/'' \<notin> set ?n"
    using None by (simp add: target_of_def name_of_def sanitize_plain)
  ultimately show ?thesis by (simp add: plain_name_def)
qed (auto simp: target_of_def name_of_def)

lemma suffix_cases: "x = [] \<or> hd x = c \<Longrightarrow> y = [] \<or> hd y = c \<Longrightarrow> x @ y = [] \<or> hd (x @ y) = c"
  by (cases x) auto

lemma suffix_name: "\<exists>sfx. (sfx = [] \<or> hd sfx = CHR ''_'') \<and> (\<forall>inc. name_of (suffix_entry a inc) = name_of inc @ sfx)"
  by (rule exI[of _ "(if reset a then ''_reset'' else []) @ (if debug_jlink a then ''_debug_jlink'' else [])
     @ (if debug_print a then ''_debug_print'' else [])
     @ (if truthy (artifact_suffix a) then ''_'' @ the (artifact_suffix a) else [])"])
    (intro conjI suffix_cases allI; simp add: suffix_entry_def name_of_def)

lemma path_join_relative:
  "q \<noteq> [] \<Longrightarrow> q \<noteq> ''.'' \<Longrightarrow> hd q \<noteq> CHR ''/'' \<Longrightarrow>
     path_join p q = (if p = ''.'' then [] else if p = ''/'' then ''/'' else p @ ''/'') @ q"
  by (simp add: path_join_def)

lemma path_join_inj:
  assumes "path_join p m = path_join p n" and "m \<noteq> []" "n \<noteq> []" "m \<noteq> ''.''" "n \<noteq> ''.''"
    and "hd m \<noteq> CHR ''/''" "hd n \<noteq> CHR ''/''"
  shows "m = n"
  using assms(1) unfolding path_join_relative[OF assms(2,4,6)] path_join_relative[OF assms(3,5,7)]
  by (rule same_append_eq[THEN iffD1])

lemma suffixed_name_component:
  assumes "plain_name n" and "sfx = [] \<or> hd sfx = CHR ''_''"
  shows "n @ sfx \<noteq> []" "n @ sfx \<noteq> ''.''" "hd (n @ sfx) \<noteq> CHR ''/''"
  using assms by (cases n; auto simp: plain_name_def)+

lemma build_dirs_distinct:
  assumes "distinct (map name_of ts)" and "\<forall>t \<in> set ts. plain_name (name_of t)"
  shows "distinct (map (\<lambda>t. build_dir_of env a (name_of (suffix_entry a t))) ts)"
proof -
  obtain sfx where s: "sfx = [] \<or> hd sfx = CHR ''_''" "\<And>inc. name_of (suffix_entry a inc) = name_of inc @ sfx"
    using suffix_name[of a] by blast
  have "inj_on (\<lambda>n. build_dir_of env a (n @ sfx)) (name_of ` set ts)"
  proof (rule inj_onI)
    fix x y assume xy: "x \<in> name_of ` set ts" "y \<in> name_of ` set ts"
      and eq: "build_dir_of env a (x @ sfx) = build_dir_of env a (y @ sfx)"
    have "plain_name x" "plain_name y" using xy assms(2) by auto
    from suffixed_name_component[OF this(1) s(1)] suffixed_name_component[OF this(2) s(1)]
    have "x @ sfx = y @ sfx"
      using path_join_inj[OF eq[unfolded build_dir_of_def]] by blast
    then show "x = y" by simp
  qed
  then have "distinct (map (\<lambda>n. build_dir_of env a (n @ sfx)) (map name_of ts))"
    using assms(1) by (simp add: distinct_map inj_on_def)
  then show ?thesis by (simp add: s(2) comp_def)
qed

section \<open>The verdict\<close>

text \<open>What a target that counts as built has: its firmware, and the flash when one is asked for.\<close>

definition delivered ::
  "(string list \<Rightarrow> string list) \<Rightarrow> build_env \<Rightarrow> build_args \<Rightarrow> entry \<Rightarrow> bool"
where
  "delivered iterate env a t =
     ((skip_build a \<or>
       e_board t \<noteq> None \<and> e_shield t \<noteq> None \<and> run_proc env (build_command iterate env a t) = Inr 0 \<and>
       uf2_exists env (build_dir_of env a (name_of t))) \<and>
      (case flash a of None \<Rightarrow> True
       | Some fargs \<Rightarrow> run_proc env (flash_command (build_dir_of env a (name_of t)) fargs) = Inr 0))"

lemma build_success:
  "(\<exists>msg. build iterate env a t = Inr (msg, True)) \<longleftrightarrow>
     e_board t \<noteq> None \<and> e_shield t \<noteq> None \<and> run_proc env (build_command iterate env a t) = Inr 0 \<and>
     uf2_exists env (build_dir_of env a (name_of t))"
  by (auto simp: build_def build_verdict_def bind_result_Inr_iff Let_def split: if_splits)

text \<open>The flash stage: an exit code other than 0 turns the verdict, an exception is passed on.\<close>

lemma flash_stage:
  "(\<exists>r. bind_result (run_proc env cmd) (\<lambda>rc. Inr (if rc \<noteq> 0 then r0\<lparr>r_message := m, r_success := False\<rparr> else r0))
        = Inr r \<and> r_success r) \<longleftrightarrow> r_success r0 \<and> run_proc env cmd = Inr 0"
  by (cases "run_proc env cmd") auto

lemma run_single_build_success:
  "(\<exists>r. run_single_build iterate env a k t = Inr r \<and> r_success r) \<longleftrightarrow> delivered iterate env a t"
proof -
  let ?dir = "build_dir_of env a (name_of t)"
  let ?flashed = "case flash a of None \<Rightarrow> True | Some fargs \<Rightarrow> run_proc env (flash_command ?dir fargs) = Inr 0"
  have after: "(\<exists>r. bind_result x (\<lambda>(msg, ok).
        let r = \<lparr>r_id = k, r_artifact = name_of t, r_success = ok, r_message = msg\<rparr> in
        case flash a of
          Some fargs \<Rightarrow>
            if ok then bind_result (run_proc env (flash_command ?dir fargs)) (\<lambda>rc.
              Inr (if rc \<noteq> 0 then r\<lparr>r_message := msg @ '' but flashing failed.'', r_success := False\<rparr> else r))
            else Inr r
        | None \<Rightarrow> Inr r) = Inr r \<and> r_success r) \<longleftrightarrow> (\<exists>msg. x = Inr (msg, True)) \<and> ?flashed" for x
    by (cases x; cases "flash a") (auto simp: Let_def flash_stage split: prod.splits)
  show ?thesis
    unfolding run_single_build_def flash_device_def Let_def[of ?dir] after delivered_def build_success[symmetric]
    by (cases "skip_build a") auto
qed

lemma collect_success:
  "exit_code (collect m run order) = 0 \<longleftrightarrow> (\<forall>k \<in> set order. \<exists>r. run k = Inr r \<and> r_success r)"
proof -
  have "list_ex (\<lambda>r. \<not> r_success r) (collect m run order) \<longleftrightarrow>
      (\<exists>k \<in> set order. \<not> (\<exists>r. run k = Inr r \<and> r_success r))"
  proof -
    have "list_ex (\<lambda>r. \<not> r_success r) (map (\<lambda>(i, k). case run k of Inr r \<Rightarrow> r
        | Inl e \<Rightarrow> \<lparr>r_id = i, r_artifact = name_of (m ! i), r_success = False, r_message = ''Unexpected error''\<rparr>)
        (enumerate j order)) \<longleftrightarrow> (\<exists>k \<in> set order. \<not> (\<exists>r. run k = Inr r \<and> r_success r))" for j
      by (induction order arbitrary: j) (auto split: sum.splits)
    then show ?thesis by (simp add: collect_def)
  qed
  then show ?thesis by (auto simp: exit_code_def)
qed

lemma exit_code_range: "exit_code rs = 0 \<or> exit_code rs = 1"
  by (simp add: exit_code_def)

lemma length_collect [simp]: "length (collect m run order) = length order"
  by (simp add: collect_def)

section \<open>VSCode settings\<close>

lemma map_of_rev_None: "map_of (rev xs) n = None \<longleftrightarrow> n \<notin> fst ` set xs"
  by (simp add: map_of_eq_None_iff)

lemma vscode_merge_complete:
  "list_all (\<lambda>n. map_of (rev stored) n \<noteq> None) names \<Longrightarrow> vscode_merge label fresh stored names = stored"
  by (auto simp: vscode_merge_def list_ex_iff list_all_iff Let_def)

lemma vscode_cpp_names:
  "\<exists>n \<in> set names. map_of (rev stored) n = None \<Longrightarrow>
     map fst (vscode_merge cpp_label fresh stored names) = names"
proof -
  assume "\<exists>n \<in> set names. map_of (rev stored) n = None"
  then have "list_ex (\<lambda>n. map_of (rev stored) n = None) names" by (auto simp: list_ex_iff)
  then show ?thesis
    by (auto simp: vscode_merge_def Let_def cpp_label_def intro!: map_idI split: option.splits)
qed

lemma vscode_cpp_covers:
  "list_all (\<lambda>n. map_of (rev (vscode_merge cpp_label fresh stored names)) n \<noteq> None) names"
proof (cases "\<exists>n \<in> set names. map_of (rev stored) n = None")
  case True
  have "fst ` set (vscode_merge cpp_label fresh stored names) = set names"
    using vscode_cpp_names[OF True, of fresh] by (metis set_map)
  then show ?thesis by (auto simp: list_all_iff map_of_rev_None[THEN iffD1] map_of_eq_None_iff)
next
  case False
  then have "vscode_merge cpp_label fresh stored names = stored"
    by (intro vscode_merge_complete) (auto simp: list_all_iff)
  with False show ?thesis by (auto simp: list_all_iff)
qed

lemma vscode_fresh_all:
  "names \<noteq> [] \<Longrightarrow> \<forall>n \<in> set names. map_of (rev stored) n = None \<Longrightarrow>
     vscode_merge label fresh stored names = map (\<lambda>n. (label n, fresh n)) names"
  by (cases names) (auto simp: vscode_merge_def Let_def)

section \<open>Properties\<close>

definition sample_args :: build_args where
  "sample_args = \<lparr>config_path = ''/k/config'', boards = [''xiao_ble//zmk''], shields = [''left'', ''right''],
     artifact = None, artifact_search = None, artifact_suffix = Some ''v2'', flash = None, no_run = False,
     interactive = False, reset = True, debug_jlink = False, debug_print = False, skip_build = False,
     pristine = ''always'', west_args = [], snippet = [], cmake_args = None, extra_modules = [],
     auto_discovery = [], build_dir = Some ''/b'', vscode = True\<rparr>"

definition sample_yaml :: yaml_doc where
  "sample_yaml = \<lparr>y_board = [''nice_nano''], y_shield = [], y_include =
     [(product_entry ''xiao_ble//zmk'' ''left'')\<lparr>e_artifact := Some ''central''\<rparr>, product_entry ''nice_nano'' ''left'']\<rparr>"

lemma remdups_set_order: "set_order remdups"
  by (simp add: set_order_def)


lemma sample_targets:
  "find_targets remdups id sample_args sample_yaml =
     Inr [(product_entry ''xiao_ble//zmk'' ''left'')\<lparr>e_artifact := Some ''central''\<rparr>,
          (product_entry ''xiao_ble//zmk'' ''left'')\<lparr>e_artifact := Some ''xiao_ble__zmk__left''\<rparr>,
          (product_entry ''xiao_ble//zmk'' ''right'')\<lparr>e_artifact := Some ''xiao_ble__zmk__right''\<rparr>]"
  by (simp add: find_targets_def sample_args_def sample_yaml_def full_matrix_def keep_entry_def
      product_entry_def name_entry_def sanitize_def name_of_def list_entry_def)




text \<open>
  The exit code is the truth about every build.  Whatever the order in which the parallel
  builds complete, the command returns 0 exactly when each target's own build command exited
  with 0 and left its firmware (or the build was skipped), and its flash, if asked for,
  succeeded; otherwise it returns 1.  Every target is reported.
\<close>

lemma build_exit_code:
  assumes "find_targets iterate select a y = Inr ts" and "\<not> no_run a"
    and "distinct order" and "set order = {..<length ts}"
    and "run_for_all iterate select order env a y = Inr (code, rs)"
  shows "(code = 0 \<longleftrightarrow> (\<forall>t \<in> set ts. delivered iterate env a (suffix_entry a t))) \<and>
    (code = 0 \<or> code = 1) \<and> length rs = length ts"
proof -
  let ?m = "map (suffix_entry a) ts"
  have rs: "rs = collect ?m (\<lambda>k. run_single_build iterate env a k (?m ! k)) order" "code = exit_code rs"
    using assms(1,2,5) by (auto simp: run_for_all_def Let_def bind_result_Inr_iff)
  have "length order = length ts"
    using distinct_card[OF assms(3)] assms(4) by simp
  moreover have "code = 0 \<longleftrightarrow> (\<forall>k < length ts. delivered iterate env a (?m ! k))"
    unfolding rs collect_success run_single_build_success assms(4) by auto
  then have "code = 0 \<longleftrightarrow> (\<forall>t \<in> set ts. delivered iterate env a (suffix_entry a t))"
    by (simp add: all_set_conv_all_nth)
  ultimately show ?thesis using exit_code_range[of rs] rs by simp
qed

definition sample_build_env :: build_env where
  "sample_build_env = \<lparr>exists_path = (\<lambda>_. False), cwd = ''/'', cwd_parents = [], make_absolute = (\<lambda>p. p),
     workspace_top = ''/w'', zmk_abspath = ''/w/zmk'', run_proc = (\<lambda>_. Inr 0),
     uf2_exists = (\<lambda>d. d \<noteq> ''/b/central_reset_v2''), cpp_file = Absent, launch_file = Holds [], relative = (\<lambda>p. p)\<rparr>"

lemma build_exit_code_witness:
  "\<exists>code rs. run_for_all remdups id [2, 0, 1] sample_build_env sample_args sample_yaml = Inr (code, rs) \<and>
     code = 1 \<and> length rs = 3"
proof -
  have n: "\<not> no_run sample_args" by (simp add: sample_args_def)
  obtain code rs where r: "run_for_all remdups id [2, 0, 1] sample_build_env sample_args sample_yaml = Inr (code, rs)"
    using n by (simp add: run_for_all_def sample_targets Let_def generate_vscode_settings_def settings_update_def
        sample_build_env_def)
  from n have "(code = 0 \<longleftrightarrow> False) \<and> (code = 0 \<or> code = 1) \<and> length rs = 3"
    using build_exit_code[OF sample_targets _ _ _ r]
    by (auto simp: delivered_def sample_args_def sample_build_env_def build_dir_of_def path_join_def
        suffix_entry_def name_of_def product_entry_def lessThan_Suc numeral_3_eq_3 numeral_2_eq_2 insert_commute)
  then show ?thesis using r by auto
qed

text \<open>
  C40. A second run keeps the C++ settings and rebuilds the debug settings.  Merging the same
  targets again leaves \<open>c_cpp_properties.json\<close> as it is and keeps every stored configuration of a
  target; in \<open>launch.json\<close>, whose configurations are stored under another name than the one they are
  looked up by, every configuration is made anew, whatever was edited there.
\<close>

theorem vscode_second_run:
  assumes "names \<noteq> []" and "\<forall>n \<in> set names. \<forall>x. n \<noteq> launch_label x"
  shows "vscode_merge cpp_label fresh (vscode_merge cpp_label fresh' stored names) names =
      vscode_merge cpp_label fresh' stored names \<and>
    (\<forall>n \<in> set names. \<forall>c. map_of (rev stored) n = Some c \<longrightarrow> (n, c) \<in> set (vscode_merge cpp_label fresh' stored names)) \<and>
    (\<forall>edit. vscode_merge launch_label fresh (map (\<lambda>n. (launch_label n, edit n)) names) names =
      map (\<lambda>n. (launch_label n, fresh n)) names)"
proof -
  have "vscode_merge cpp_label fresh (vscode_merge cpp_label fresh' stored names) names =
      vscode_merge cpp_label fresh' stored names"
    by (rule vscode_merge_complete[OF vscode_cpp_covers])
  moreover have "(n, c) \<in> set (vscode_merge cpp_label fresh' stored names)"
    if "n \<in> set names" "map_of (rev stored) n = Some c" for n c
  proof (cases "\<exists>k \<in> set names. map_of (rev stored) k = None")
    case True
    then have "list_ex (\<lambda>k. map_of (rev stored) k = None) names" by (auto simp: list_ex_iff)
    with that show ?thesis by (force simp: vscode_merge_def Let_def)
  next
    case False
    then have "vscode_merge cpp_label fresh' stored names = stored"
      by (intro vscode_merge_complete) (auto simp: list_all_iff)
    with map_of_SomeD[OF that(2)] show ?thesis by simp
  qed
  moreover have "vscode_merge launch_label fresh (map (\<lambda>n. (launch_label n, edit n)) names) names =
      map (\<lambda>n. (launch_label n, fresh n)) names" for edit
    using assms by (intro vscode_fresh_all) (auto simp: map_of_rev_None)
  ultimately show ?thesis by blast
qed

theorem vscode_second_run_witness:
  "vscode_merge launch_label (\<lambda>_. 0) [(''Debug ZMK - left'', 7)] [''left''] = [(''Debug ZMK - left'', 0 :: nat)]"
  using vscode_second_run[of "[''left'']" "\<lambda>_. 0 :: nat" "\<lambda>_. 0" "[]"]
  by (auto simp: launch_label_def dest!: spec[of _ "\<lambda>_. 7"])

text \<open>An update writes only the configurations of the targets of this run: any other stored one is lost.\<close>

lemma vscode_update_drops_others:
  "list_ex (\<lambda>n. map_of (rev stored) n = None) names \<Longrightarrow> k \<notin> set names \<Longrightarrow>
     k \<notin> fst ` set (vscode_merge cpp_label fresh stored names)"
  by (auto simp: vscode_merge_def Let_def cpp_label_def split: option.splits)

text \<open>A \<open>launch.json\<close> that is not JSON ends the command before any build.\<close>

lemma broken_launch_file_stops:
  assumes "find_targets iterate select a y = Inr ts" and "\<not> no_run a" and "vscode a"
    and "launch_file env = Broken" and "cpp_file env \<noteq> Broken"
  shows "run_for_all iterate select order env a y = Inl (SystemExit ''1'')"
  using assms by (cases "cpp_file env") (auto simp: run_for_all_def Let_def generate_vscode_settings_def settings_update_def)

text \<open>The name filter sees the records before they are named: an unnamed record passes only a
  pattern that the empty text matches.\<close>

lemma artifact_filter_precedes_naming:
  "artifact_search a = Some search \<Longrightarrow> \<not> search [] \<Longrightarrow> keep_entry a (product_entry b s) \<noteq> Inr True"
  by (simp add: keep_entry_def product_entry_def)

text \<open>A build that raised is reported under the number of its completion, here another target's.\<close>

lemma failed_build_misreported:
  "map (\<lambda>r. (r_id r, r_success r)) (collect [x, y] (\<lambda>k. if k = 1 then Inl (OSError []) else
       Inr \<lparr>r_id = k, r_artifact = [], r_success = True, r_message = []\<rparr>) [1, 0]) = [(0, False), (0, True)]"
  by (simp add: collect_def)

end
