(* ===== verification/Tee_Process.thy ===== *)
theory Tee_Process
  imports Py_Prelude
begin

text \<open>
  \<open>scripts/lib/tee_popen.py\<close> and \<open>scripts/zmk_test.py\<close>.  The two reader threads of \<open>TeePopen\<close> share
  the log file and possibly a target stream; every write is one step, and a step relation
  interleaves them in any order, exceptions of the writes included.  \<open>zmk-test\<close> reads one merged
  stream and classifies its lines.
\<close>

section \<open>The reader threads\<close>

datatype channel = Out | Err

datatype tee_op = To_target string | To_log string | To_buf string | Close_pipe

record tee_config =
  output_prefix :: string
  stream_of :: "channel \<Rightarrow> string option"
  log_file :: bool

text \<open>The writes for one line, and the whole thread on the lines its pipe delivers.\<close>

definition line_ops :: "tee_config \<Rightarrow> channel \<Rightarrow> string \<Rightarrow> tee_op list" where
  "line_ops cfg c line =
     (let line' = output_prefix cfg @ line in
      (if stream_of cfg c \<noteq> None then [To_target line'] else []) @
      (if log_file cfg then [To_log line'] else []) @ [To_buf line'])"

definition reader :: "tee_config \<Rightarrow> channel \<Rightarrow> string list \<Rightarrow> tee_op list" where
  "reader cfg c lines = concat (map (line_ops cfg c) lines) @ [Close_pipe]"

text \<open>The shared state: what each thread still has to do, what the streams, the log and the buffers hold.\<close>

record tee =
  todo :: "channel \<Rightarrow> tee_op list"
  shown :: "string \<Rightarrow> string list"
  logged :: "string list"
  buf :: "channel \<Rightarrow> string list"
  shut :: "channel \<Rightarrow> bool"

fun do_op :: "tee_config \<Rightarrow> channel \<Rightarrow> tee_op \<Rightarrow> tee \<Rightarrow> tee" where
  "do_op cfg c (To_target l) s =
     (case stream_of cfg c of None \<Rightarrow> s | Some t \<Rightarrow> s\<lparr>shown := (shown s)(t := shown s t @ [l])\<rparr>)"
| "do_op cfg c (To_log l) s = s\<lparr>logged := logged s @ [l]\<rparr>"
| "do_op cfg c (To_buf l) s = s\<lparr>buf := (buf s)(c := buf s c @ [l])\<rparr>"
| "do_op cfg c Close_pipe s = s\<lparr>shut := (shut s)(c := True)\<rparr>"

fun can_raise :: "tee_op \<Rightarrow> bool" where
  "can_raise (To_target l) = True"
| "can_raise (To_log l) = True"
| "can_raise _ = False"

definition tee_start :: "tee_config \<Rightarrow> (channel \<Rightarrow> string list) \<Rightarrow> tee" where
  "tee_start cfg lines =
     \<lparr>todo = (\<lambda>c. reader cfg c (lines c)), shown = (\<lambda>_. []), logged = [], buf = (\<lambda>_. []), shut = (\<lambda>_. False)\<rparr>"

text \<open>One step of a thread; a write that raises leaves only the \<open>finally\<close> clause to run.\<close>

inductive tee_step :: "tee_config \<Rightarrow> channel \<times> bool \<Rightarrow> tee \<Rightarrow> tee \<Rightarrow> bool" for cfg where
  Runs: "todo s c = op # ops \<Longrightarrow> tee_step cfg (c, True) s (do_op cfg c op (s\<lparr>todo := (todo s)(c := ops)\<rparr>))"
| Raises: "todo s c = op # ops \<Longrightarrow> can_raise op \<Longrightarrow> tee_step cfg (c, False) s (s\<lparr>todo := (todo s)(c := [Close_pipe])\<rparr>)"

code_pred (modes: i \<Rightarrow> i \<Rightarrow> i \<Rightarrow> o \<Rightarrow> bool) tee_step .

inductive_cases step_runs [elim]: "tee_step cfg (c, True) s s'"
inductive_cases step_raises [elim]: "tee_step cfg (c, False) s s'"

inductive tee_run :: "tee_config \<Rightarrow> (channel \<times> bool) list \<Rightarrow> tee \<Rightarrow> tee \<Rightarrow> bool" for cfg where
  Done: "tee_run cfg [] s s"
| Step: "tee_step cfg l s s' \<Longrightarrow> tee_run cfg ls s' s'' \<Longrightarrow> tee_run cfg (l # ls) s s''"

text \<open>\<open>wait\<close>: the process has ended with \<open>rc\<close>; it returns only in a state where both threads have ended.\<close>

definition joined :: "tee \<Rightarrow> bool" where
  "joined s \<longleftrightarrow> todo s Out = [] \<and> todo s Err = []"

definition tee_wait :: "tee option \<Rightarrow> int \<Rightarrow> int result option" where
  "tee_wait started rc =
     (case started of
        None \<Rightarrow> Some (Inl (RuntimeError ''Process not started''))
      | Some s \<Rightarrow> if joined s then Some (Inr rc) else None)"

definition tee_output :: "tee \<Rightarrow> channel \<Rightarrow> string" where
  "tee_output s c = concat (buf s c)"

section \<open>What the threads have still to write\<close>

definition bufs_in :: "tee_op list \<Rightarrow> string list" where
  "bufs_in ops = concat (map (\<lambda>op. case op of To_buf l \<Rightarrow> [l] | _ \<Rightarrow> []) ops)"

definition logs_in :: "tee_op list \<Rightarrow> string list" where
  "logs_in ops = concat (map (\<lambda>op. case op of To_log l \<Rightarrow> [l] | _ \<Rightarrow> []) ops)"

lemma in_simps [simp]:
  "bufs_in [] = []" "bufs_in (op # ops) = (case op of To_buf l \<Rightarrow> [l] | _ \<Rightarrow> []) @ bufs_in ops"
  "logs_in [] = []" "logs_in (op # ops) = (case op of To_log l \<Rightarrow> [l] | _ \<Rightarrow> []) @ logs_in ops"
  "bufs_in (as @ bs) = bufs_in as @ bufs_in bs" "logs_in (as @ bs) = logs_in as @ logs_in bs"
  by (simp_all add: bufs_in_def logs_in_def)

definition prefixed :: "tee_config \<Rightarrow> string list \<Rightarrow> string list" where
  "prefixed cfg = map (\<lambda>l. output_prefix cfg @ l)"

lemma reader_in:
  "bufs_in (reader cfg c lines) = prefixed cfg lines"
  "logs_in (reader cfg c lines) = (if log_file cfg then prefixed cfg lines else [])"
  by (induction lines) (simp_all add: reader_def line_ops_def Let_def prefixed_def)

lemma shuffles_last: "ys @ [z] \<in> shuffles [z] ys" "ys @ [z] \<in> shuffles ys [z]"
proof -
  show "ys @ [z] \<in> shuffles [z] ys" by (induction ys) auto
  then show "ys @ [z] \<in> shuffles ys [z]" by (simp add: shuffles_commutes)
qed

lemma shuffles_snoc:
  "zs \<in> shuffles xs ys \<Longrightarrow> zs @ [z] \<in> shuffles (xs @ [z]) ys \<and> zs @ [z] \<in> shuffles xs (ys @ [z])"
  by (induction xs ys arbitrary: zs rule: shuffles.induct) (auto simp: shuffles_last)

text \<open>The states that the threads can reach: every buffer, with what is left of its thread, amounts to
  the lines of the pipe, and the log is an interleaving of what the threads have logged.\<close>

definition tee_inv :: "tee_config \<Rightarrow> (channel \<Rightarrow> string list) \<Rightarrow> tee \<Rightarrow> bool" where
  "tee_inv cfg lines s \<longleftrightarrow>
     (\<forall>c. buf s c @ bufs_in (todo s c) = prefixed cfg (lines c)) \<and>
     (\<exists>done. logged s \<in> shuffles (done Out) (done Err) \<and>
       (\<forall>c. done c @ logs_in (todo s c) = (if log_file cfg then prefixed cfg (lines c) else [])))"

lemma tee_inv_start: "tee_inv cfg lines (tee_start cfg lines)"
  unfolding tee_inv_def by (auto simp: tee_start_def reader_in intro!: exI[of _ "\<lambda>_. []"])

lemma all_channels: "(\<forall>c. P c) \<longleftrightarrow> P Out \<and> P Err"
  by (metis channel.exhaust)

lemma tee_inv_buf_step:
  "todo s c = op # ops \<Longrightarrow> s' = do_op cfg c op (s\<lparr>todo := (todo s)(c := ops)\<rparr>) \<Longrightarrow>
     buf s' d @ bufs_in (todo s' d) = buf s d @ bufs_in (todo s d)"
  by (cases op) (auto split: option.splits)

lemma tee_inv_step:
  assumes "tee_step cfg (c, True) s s'" and "tee_inv cfg lines s"
  shows "tee_inv cfg lines s'"
  using assms(1)
proof (rule step_runs)
  fix op ops
  assume s': "s' = do_op cfg c op (s\<lparr>todo := (todo s)(c := ops)\<rparr>)" and t: "todo s c = op # ops"
  obtain before where d: "logged s \<in> shuffles (before Out) (before Err)"
    "\<And>c. before c @ logs_in (todo s c) = (if log_file cfg then prefixed cfg (lines c) else [])"
    using assms(2) unfolding tee_inv_def by blast
  have b: "buf s' d @ bufs_in (todo s' d) = prefixed cfg (lines d)" for d
    using tee_inv_buf_step[OF t s'] assms(2) unfolding tee_inv_def by simp
  show ?thesis
  proof (cases op)
    case (To_log l)
    let ?d = "before(c := before c @ [l])"
    have "logged s' \<in> shuffles (?d Out) (?d Err)"
      using s' To_log shuffles_snoc[OF d(1), of l] by (cases c) auto
    moreover have "?d k @ logs_in (todo s' k) = (if log_file cfg then prefixed cfg (lines k) else [])" for k
      using s' To_log d(2)[of k] t by (cases "k = c") auto
    ultimately show ?thesis using b unfolding tee_inv_def by blast
  next
    case (To_target l)
    then have "logged s' = logged s" and "logs_in (todo s' k) = logs_in (todo s k)" for k
      using s' t by (auto split: option.splits)
    then show ?thesis using b d unfolding tee_inv_def by metis
  next
    case (To_buf l)
    then have "logged s' = logged s" and "logs_in (todo s' k) = logs_in (todo s k)" for k using s' t by auto
    then show ?thesis using b d unfolding tee_inv_def by metis
  next
    case Close_pipe
    then have "logged s' = logged s" and "logs_in (todo s' k) = logs_in (todo s k)" for k using s' t by auto
    then show ?thesis using b d unfolding tee_inv_def by metis
  qed
qed

lemma tee_inv_run:
  "tee_run cfg ls s s' \<Longrightarrow> list_all snd ls \<Longrightarrow> tee_inv cfg lines s \<Longrightarrow> tee_inv cfg lines s'"
proof (induction rule: tee_run.induct)
  case (Step l s s' ls s'')
  then show ?case using tee_inv_step[of cfg "fst l" s s' lines] by (cases l) auto
qed

text \<open>With exceptions: nothing is invented or reordered, and every thread closes its pipe at its end.\<close>

definition tee_safe :: "tee_config \<Rightarrow> (channel \<Rightarrow> string list) \<Rightarrow> tee \<Rightarrow> bool" where
  "tee_safe cfg lines s \<longleftrightarrow> (\<forall>c. prefix (buf s c @ bufs_in (todo s c)) (prefixed cfg (lines c)) \<and>
     (if todo s c = [] then shut s c else last (todo s c) = Close_pipe))"

lemma tee_safe_start: "tee_safe cfg lines (tee_start cfg lines)"
  by (simp add: tee_safe_def tee_start_def reader_in) (simp add: reader_def)

lemma tee_safe_step:
  assumes "tee_step cfg l s s'" and "tee_safe cfg lines s"
  shows "tee_safe cfg lines s'"
  using assms(1)
proof cases
  case (Runs c op ops)
  have b: "prefix (buf s' d @ bufs_in (todo s' d)) (prefixed cfg (lines d))" for d
    using tee_inv_buf_step[OF Runs(3,2)] assms(2) unfolding tee_safe_def by simp
  have "if todo s' d = [] then shut s' d else last (todo s' d) = Close_pipe" for d
    using assms(2)[unfolded tee_safe_def, THEN spec, of d] Runs by (cases op) (auto split: if_splits option.splits)
  with b show ?thesis unfolding tee_safe_def by blast
next
  case (Raises c op ops)
  then have "bufs_in [Close_pipe] = []" by simp
  with Raises assms(2) show ?thesis
    unfolding tee_safe_def by (auto split: if_splits dest: append_prefixD)
qed

lemma tee_safe_run: "tee_run cfg ls s s' \<Longrightarrow> tee_safe cfg lines s \<Longrightarrow> tee_safe cfg lines s'"
  by (induction rule: tee_run.induct) (auto intro: tee_safe_step)

text \<open>Every schedule ends: a step, raising or not, leaves a thread less to do.\<close>

definition work :: "tee \<Rightarrow> nat" where
  "work s = length (todo s Out) + length (todo s Err)"

lemma work_step:
  assumes "tee_step cfg l s s'" and "tee_safe cfg lines s"
  shows "work s' < work s"
  using assms(1)
proof cases
  case (Runs c op ops)
  then show ?thesis by (cases c; cases op) (auto simp: work_def split: option.splits)
next
  case (Raises c op ops)
  then have "ops \<noteq> []" using assms(2)[unfolded tee_safe_def, THEN spec, of c] by (auto split: if_splits)
  with Raises show ?thesis by (cases c; cases ops) (auto simp: work_def)
qed

lemma work_run: "tee_run cfg ls s s' \<Longrightarrow> tee_safe cfg lines s \<Longrightarrow> length ls + work s' \<le> work s"
proof (induction rule: tee_run.induct)
  case (Step l s s' ls s'')
  then show ?case using work_step[OF Step.hyps(1) Step.prems] tee_safe_step[OF Step.hyps(1) Step.prems] by simp
qed simp

lemma tee_progress: "\<not> joined s \<Longrightarrow> \<exists>c s'. tee_step cfg (c, True) s s'"
  unfolding joined_def by (meson Runs neq_Nil_conv)

text \<open>So no schedule is longer than the work at its start, and one that cannot go on has both threads at their
  end, where \<open>wait\<close> returns.\<close>

lemma tee_ends:
  assumes "tee_run cfg sched (tee_start cfg lines) s"
  shows "length sched \<le> work (tee_start cfg lines) \<and>
    ((\<exists>l s'. tee_step cfg l s s') \<or> tee_wait (Some s) rc = Some (Inr rc))"
  using work_run[OF assms tee_safe_start] tee_progress[of s cfg] by (fastforce simp: tee_wait_def)

section \<open>west zmk-test\<close>

datatype level = Inf | Dbg | Error_line

record zt_env =
  zt_projects :: "(string \<times> string) list"
  zt_cwd :: string
  zt_topdir :: string
  zt_absolute :: "string \<Rightarrow> string"
  run_script :: "string list \<Rightarrow> (string \<times> string) list \<Rightarrow> string \<Rightarrow> (string list \<times> int) result"
  move_log :: "string \<Rightarrow> unit result"

record zt_args =
  zt_test_path :: "string option"
  zt_build_dir :: "string option"
  zt_modules :: "string list"
  zt_verbose :: bool

text \<open>What a finished run leaves: the messages (without the announcement of the run), the log file and the
  exit code.\<close>

record zt_report =
  messages :: "(level \<times> string) list"
  saved :: "string \<times> string"
  zt_exit :: int

definition result_line :: "string \<Rightarrow> bool" where
  "result_line l \<longleftrightarrow> prefix ''PASS:'' l \<or> prefix ''FAILED:'' l \<or> prefix ''PENDING:'' l \<or> prefix ''Running:'' l"

definition line_message :: "bool \<Rightarrow> string \<Rightarrow> (level \<times> string) list" where
  "line_message verbose l =
     (if result_line l then [(Inf, py_rstrip l)] else if verbose then [(Dbg, py_rstrip l)] else [])"

text \<open>The lines of a text file, with their line ends.\<close>

fun file_lines :: "string \<Rightarrow> string list" where
  "file_lines [] = []"
| "file_lines (c # cs) =
     (if c = lf then [c] # file_lines cs
      else case file_lines cs of [] \<Rightarrow> [[c]] | l # ls \<Rightarrow> (c # l) # ls)"

definition zt_variables :: "string \<Rightarrow> string \<Rightarrow> string list \<Rightarrow> (string \<times> string) list" where
  "zt_variables zmk_src_dir build_dir modules =
     [(''ZMK_SRC_DIR'', zmk_src_dir), (''ZMK_BUILD_DIR'', build_dir),
      (''ZMK_EXTRA_MODULES'', py_join '';'' modules), (''ZMK_TESTS_VERBOSE'', ''1'')]"

definition zt_finish :: "bool \<Rightarrow> string \<Rightarrow> string list \<Rightarrow> int \<Rightarrow> zt_report" where
  "zt_finish verbose log_path ls rc =
     \<lparr>messages = concat (map (line_message verbose) ls) @
        (if rc \<noteq> 0 \<and> \<not> verbose
         then (Error_line, ''Tests failed. See '' @ log_path @ '' for details.'')
           # map (\<lambda>l. (Inf, py_rstrip l)) (file_lines (concat ls))
         else []),
      saved = (log_path, concat ls), zt_exit = rc\<rparr>"

definition zmk_test :: "zt_env \<Rightarrow> zt_args \<Rightarrow> zt_report result" where
  "zmk_test env args =
     (case filter (\<lambda>(n, p). n = ''zmk'') (zt_projects env) of
        [] \<Rightarrow> Inl (SystemExit ''ZMK project not found in manifest.'')
      | (n, zmk) # _ \<Rightarrow>
          (let zmk_src_dir = path_join zmk ''app'';
               test_path = (case zt_test_path args of
                   Some t \<Rightarrow> if t \<noteq> [] \<and> t \<noteq> ''all'' then zt_absolute env t else zt_cwd env
                 | None \<Rightarrow> zt_cwd env);
               build_dir = (case zt_build_dir args of
                   Some d \<Rightarrow> if d \<noteq> [] then zt_absolute env d else path_join (zt_topdir env) ''build''
                 | None \<Rightarrow> path_join (zt_topdir env) ''build'');
               variables = zt_variables zmk_src_dir build_dir (map (zt_absolute env) (zt_modules args));
               log_path = path_join build_dir ''stdout_and_stderr.log'' in
           bind_result (run_script env [zmk_src_dir @ ''/run-test.sh'', ''.''] variables test_path) (\<lambda>(ls, rc).
           bind_result (move_log env log_path) (\<lambda>_.
             Inr (zt_finish (zt_verbose args) log_path ls rc)))))"

text \<open>Lines as a pipe delivers them: each one but the last ends in its only line feed.\<close>

definition pipe_lines :: "string list \<Rightarrow> bool" where
  "pipe_lines ls \<longleftrightarrow> (\<forall>l \<in> set (butlast ls). \<exists>x. l = x @ [lf] \<and> lf \<notin> set x) \<and>
     (ls \<noteq> [] \<longrightarrow> (\<exists>x. lf \<notin> set x \<and> (last ls = x @ [lf] \<or> last ls = x \<and> x \<noteq> [])))"

lemma file_lines_line: "lf \<notin> set x \<Longrightarrow> file_lines (x @ lf # rest) = (x @ [lf]) # file_lines rest"
  by (induction x) auto

lemma file_lines_Nil: "file_lines s = [] \<longleftrightarrow> s = []"
  by (cases s) (auto split: list.splits)

lemma file_lines_rest: "lf \<notin> set x \<Longrightarrow> x \<noteq> [] \<Longrightarrow> file_lines x = [x]"
proof (induction x)
  case (Cons c cs)
  then show ?case by (cases "cs = []") (auto simp: file_lines_Nil split: list.splits)
qed simp

lemma file_lines_concat: "pipe_lines ls \<Longrightarrow> file_lines (concat ls) = ls"
proof (induction ls)
  case (Cons l ls)
  show ?case
  proof (cases "ls = []")
    case True
    with Cons.prems obtain x where "lf \<notin> set x" "l = x @ [lf] \<or> l = x \<and> x \<noteq> []" by (auto simp: pipe_lines_def)
    with True show ?thesis using file_lines_line[of x "[]"] file_lines_rest[of x] by auto
  next
    case False
    with Cons.prems obtain x where "lf \<notin> set x" "l = x @ [lf]" and "pipe_lines ls" by (auto simp: pipe_lines_def)
    with Cons.IH show ?thesis by (simp add: file_lines_line)
  qed
qed (simp add: pipe_lines_def)

text \<open>A failing run without \<open>--verbose\<close> shows its whole output after the summary, and the exit code is that
  of the script.\<close>

lemma zmk_test_shows_failure:
  assumes "zmk_test env args = Inr rep" and "zt_exit rep \<noteq> 0" and "\<not> zt_verbose args"
    and "\<And>argv vars d ls rc. run_script env argv vars d = Inr (ls, rc) \<Longrightarrow> pipe_lines ls"
  shows "\<exists>ls early. snd (saved rep) = concat ls \<and>
    messages rep = early @ (Error_line, ''Tests failed. See '' @ fst (saved rep) @ '' for details.'') # map (\<lambda>l. (Inf, py_rstrip l)) ls"
proof -
  from assms(1) obtain argv vars d ls rc p where r: "run_script env argv vars d = Inr (ls, rc)"
    and rep: "rep = zt_finish (zt_verbose args) p ls rc"
    by (auto simp: zmk_test_def Let_def bind_result_Inr_iff split: list.splits)
  show ?thesis
    using rep assms(2,3) file_lines_concat[OF assms(4)[OF r]]
    by (intro exI[of _ ls] exI[of _ "concat (map (line_message False) ls)"]) (simp add: zt_finish_def)
qed

section \<open>Properties\<close>

text \<open>
  No output is lost in the tee.  Whatever the interleaving of the two reader threads, when
  \<open>wait\<close> returns after a run in which no write raised, it returns the exit code of the process, each buffer holds
  exactly the prefixed lines of its pipe in order, both pipes are closed, and the log file is an
  interleaving of the two.
\<close>

lemma tee_complete:
  assumes "tee_run cfg sched (tee_start cfg lines) s" and "list_all snd sched" and "tee_wait (Some s) rc = Some r"
  shows "r = Inr rc \<and> (\<forall>c. buf s c = prefixed cfg (lines c) \<and> shut s c) \<and>
    logged s \<in> (if log_file cfg then shuffles (prefixed cfg (lines Out)) (prefixed cfg (lines Err)) else {[]})"
proof -
  have j: "joined s" "r = Inr rc" using assms(3) by (auto simp: tee_wait_def split: if_splits)
  have e: "todo s c = []" for c using j(1) by (cases c) (simp_all add: joined_def)
  have "tee_inv cfg lines s" by (rule tee_inv_run[OF assms(1,2) tee_inv_start])
  moreover have "tee_safe cfg lines s" by (rule tee_safe_run[OF assms(1) tee_safe_start])
  ultimately show ?thesis
    using j(2) e unfolding tee_inv_def tee_safe_def by auto
qed

definition sample_tee :: tee_config where
  "sample_tee = \<lparr>output_prefix = ''> '', stream_of = (\<lambda>_. Some ''tty''), log_file = True\<rparr>"

definition sample_pipes :: "channel \<Rightarrow> string list" where
  "sample_pipes c = (case c of Out \<Rightarrow> [''a''] | Err \<Rightarrow> [''b''])"

fun run_schedule :: "tee_config \<Rightarrow> channel list \<Rightarrow> tee \<Rightarrow> tee" where
  "run_schedule cfg [] s = s"
| "run_schedule cfg (c # cs) s =
     (case todo s c of [] \<Rightarrow> s | op # ops \<Rightarrow> run_schedule cfg cs (do_op cfg c op (s\<lparr>todo := (todo s)(c := ops)\<rparr>)))"

lemma run_schedule_runs: "\<exists>k \<le> length cs. tee_run cfg (map (\<lambda>c. (c, True)) (take k cs)) s (run_schedule cfg cs s)"
proof (induction cs arbitrary: s)
  case Nil
  then show ?case by (auto intro: Done)
next
  case (Cons c cs)
  show ?case
  proof (cases "todo s c")
    case Nil
    then show ?thesis by (intro exI[of _ 0]) (auto intro: Done)
  next
    case t: (Cons op ops)
    obtain k where "k \<le> length cs" "tee_run cfg (map (\<lambda>c. (c, True)) (take k cs)) (do_op cfg c op (s\<lparr>todo := (todo s)(c := ops)\<rparr>))
        (run_schedule cfg cs (do_op cfg c op (s\<lparr>todo := (todo s)(c := ops)\<rparr>)))" using Cons.IH by blast
    with t show ?thesis by (intro exI[of _ "Suc k"]) (auto intro!: Step Runs)
  qed
qed

definition sample_end :: tee where
  "sample_end = run_schedule sample_tee [Err, Out, Out, Err, Err, Out, Err, Out] (tee_start sample_tee sample_pipes)"

lemma tee_complete_witness:
  "tee_wait (Some sample_end) 3 = Some (Inr 3) \<and> buf sample_end Out = [''> a''] \<and> buf sample_end Err = [''> b''] \<and>
     logged sample_end \<in> shuffles [''> a''] [''> b'']"
proof -
  obtain k where k: "tee_run sample_tee (map (\<lambda>c. (c, True)) (take k [Err, Out, Out, Err, Err, Out, Err, Out]))
      (tee_start sample_tee sample_pipes) sample_end"
    using run_schedule_runs unfolding sample_end_def by blast
  have w: "tee_wait (Some sample_end) 3 = Some (Inr 3)"
    by (simp add: sample_end_def tee_start_def sample_tee_def sample_pipes_def reader_def line_ops_def Let_def tee_wait_def joined_def)
  have "list_all snd (map (\<lambda>c. (c, True)) (take k [Err, Out, Out, Err, Err, Out, Err, Out]))" by (simp add: list_all_iff)
  from tee_complete[OF k this w] show ?thesis using w by (simp add: prefixed_def sample_tee_def sample_pipes_def)
qed

end
