(* ===== verification/Effects.thy ===== *)
theory Effects
  imports Py_Prelude
begin

text \<open>
  Scripts that act on the outside world: an action performs effects and returns a value or
  raises.  What the world answers to an effect is a function of the effects performed so far,
  a parameter of the run; every attempted effect is recorded with its answer.  \<open>attempt\<close> is \<open>try/except\<close> and
  \<open>ensure\<close> is \<open>try/finally\<close>.  The lemmas follow the record through these combinators, so that a
  proof about a script is a composition of facts about its parts.
\<close>

type_synonym ('e, 'v) record_of = "('e \<times> 'v result) list"
type_synonym ('e, 'v) world = "('e, 'v) record_of \<Rightarrow> 'e \<Rightarrow> 'v result"
type_synonym ('e, 'v, 'a) act = "('e, 'v) world \<Rightarrow> ('e, 'v) record_of \<Rightarrow> 'a result \<times> ('e, 'v) record_of"

named_theorems act_simps

definition give :: "'a \<Rightarrow> ('e, 'v, 'a) act" where
  "give x w h = (Inr x, h)"

definition throw :: "exn \<Rightarrow> ('e, 'v, 'a) act" where
  "throw e w h = (Inl e, h)"

definition perform :: "'e \<Rightarrow> ('e, 'v, 'v) act" where
  "perform e w h = (w h e, h @ [(e, w h e)])"

text \<open>An effect that cannot fail: its answer is recorded and not looked at.\<close>

definition tell :: "'e \<Rightarrow> ('e, 'v, unit) act" where
  "tell e w h = (Inr (), h @ [(e, w h e)])"

text \<open>The record so far, for a script that looks at what it did.\<close>

definition recorded :: "('e, 'v, ('e, 'v) record_of) act" where
  "recorded w h = (Inr h, h)"

definition andthen :: "('e, 'v, 'a) act \<Rightarrow> ('a \<Rightarrow> ('e, 'v, 'b) act) \<Rightarrow> ('e, 'v, 'b) act" where
  "andthen m f w h = (case m w h of (Inl e, h') \<Rightarrow> (Inl e, h') | (Inr x, h') \<Rightarrow> f x w h')"

definition attempt :: "('e, 'v, 'a) act \<Rightarrow> (exn \<Rightarrow> ('e, 'v, 'a) act) \<Rightarrow> ('e, 'v, 'a) act" where
  "attempt m handler w h = (case m w h of (Inl e, h') \<Rightarrow> handler e w h' | (Inr x, h') \<Rightarrow> (Inr x, h'))"

definition ensure :: "('e, 'v, 'a) act \<Rightarrow> ('e, 'v, unit) act \<Rightarrow> ('e, 'v, 'a) act" where
  "ensure m cleanup w h =
     (case m w h of (r, h') \<Rightarrow>
       (case cleanup w h' of (Inl e, h'') \<Rightarrow> (Inl e, h'') | (Inr _, h'') \<Rightarrow> (r, h'')))"

fun each :: "('x \<Rightarrow> ('e, 'v, 'a) act) \<Rightarrow> 'x list \<Rightarrow> ('e, 'v, 'a list) act" where
  "each f [] = give []"
| "each f (x # xs) = andthen (f x) (\<lambda>y. andthen (each f xs) (\<lambda>ys. give (y # ys)))"

text \<open>\<open>try: ... except OSError: pass\<close>.\<close>

definition quietly :: "('e, 'v, 'a) act \<Rightarrow> ('e, 'v, unit) act" where
  "quietly m = attempt (andthen m (\<lambda>_. give ()))
     (\<lambda>e. case e of OSError _ \<Rightarrow> give () | TimeoutError _ \<Rightarrow> give () | _ \<Rightarrow> throw e)"

lemma act_unfold [act_simps]:
  "give x w h = (Inr x, h)"
  "throw e w h = (Inl e, h)"
  "perform eff w h = (w h eff, h @ [(eff, w h eff)])"
  "tell eff w h = (Inr (), h @ [(eff, w h eff)])"
  "recorded w h = (Inr h, h)"
  by (simp_all add: give_def throw_def perform_def tell_def recorded_def)

lemma andthen_give [act_simps]: "andthen (give x) f = f x"
  by (rule ext, rule ext) (simp add: andthen_def give_def)

lemma andthen_assoc: "andthen (andthen m f) g = andthen m (\<lambda>x. andthen (f x) g)"
  by (rule ext, rule ext) (auto simp: andthen_def split: prod.splits sum.splits)

section \<open>What an action records\<close>

text \<open>
  \<open>records W R m\<close>: in every world that keeps the law \<open>W\<close>, the effects that \<open>m\<close> adds to a record
  \<open>h\<close> are a list \<open>es\<close> that stands in the relation \<open>R h es\<close> with what \<open>m\<close> returns.
\<close>

definition records ::
  "(('e, 'v) world \<Rightarrow> bool) \<Rightarrow> (('e, 'v) record_of \<Rightarrow> ('e, 'v) record_of \<Rightarrow> 'a result \<Rightarrow> bool) \<Rightarrow>
     ('e, 'v, 'a) act \<Rightarrow> bool"
where
  "records W R m \<longleftrightarrow> (\<forall>w h. W w \<longrightarrow> (\<exists>es. snd (m w h) = h @ es \<and> R h es (fst (m w h))))"

lemma recordsD:
  assumes "records W R m" and "W w" and "m w h = (r, h')"
  obtains es where "h' = h @ es" "R h es r"
  using assms unfolding records_def by (metis fst_conv snd_conv)

lemma records_mono: "records W R m \<Longrightarrow> (\<And>h es r. R h es r \<Longrightarrow> S h es r) \<Longrightarrow> records W S m"
  unfolding records_def by blast

lemma records_conj: "records W R m \<Longrightarrow> records W S m \<Longrightarrow> records W (\<lambda>h es r. R h es r \<and> S h es r) m"
  unfolding records_def by (metis same_append_eq)

lemma records_give: "(\<And>h. R h [] (Inr x)) \<Longrightarrow> records W R (give x)"
  by (simp add: records_def give_def)

lemma records_throw: "(\<And>h. R h [] (Inl e)) \<Longrightarrow> records W R (throw e)"
  by (simp add: records_def throw_def)

lemma records_perform:
  "(\<And>w h. W w \<Longrightarrow> R h [(eff, w h eff)] (w h eff)) \<Longrightarrow> records W R (perform eff)"
  by (simp add: records_def perform_def)

lemma records_tell: "(\<And>h r. R h [(eff, r)] (Inr ())) \<Longrightarrow> records W R (tell eff)"
  by (simp add: records_def tell_def)

lemma records_recorded: "(\<And>h. R h [] (Inr h)) \<Longrightarrow> records W R recorded"
  by (simp add: records_def recorded_def)

lemma records_andthen:
  assumes "records W R m" and "\<And>x. records W (S x) (f x)"
    and "\<And>h es e. R h es (Inl e) \<Longrightarrow> T h es (Inl e)"
    and "\<And>h es x es' r. R h es (Inr x) \<Longrightarrow> S x (h @ es) es' r \<Longrightarrow> T h (es @ es') r"
  shows "records W T (andthen m f)"
  unfolding records_def
proof (intro allI impI)
  fix w h assume w: "W w"
  obtain r h' where m: "m w h = (r, h')" by fastforce
  then obtain es where es: "h' = h @ es" "R h es r" using recordsD[OF assms(1) w m] by blast
  show "\<exists>es. snd (andthen m f w h) = h @ es \<and> T h es (fst (andthen m f w h))"
  proof (cases r)
    case (Inl e)
    then show ?thesis using m es assms(3) by (auto simp: andthen_def)
  next
    case (Inr x)
    obtain r2 h2 where f: "f x w h' = (r2, h2)" by fastforce
    then obtain es2 where "h2 = h' @ es2" "S x h' es2 r2" using recordsD[OF assms(2) w f] by blast
    then show ?thesis using m es Inr f assms(4) by (auto simp: andthen_def)
  qed
qed

lemma records_attempt:
  assumes "records W R m" and "\<And>e. records W (S e) (handler e)"
    and "\<And>h es x. R h es (Inr x) \<Longrightarrow> T h es (Inr x)"
    and "\<And>h es e es' r. R h es (Inl e) \<Longrightarrow> S e (h @ es) es' r \<Longrightarrow> T h (es @ es') r"
  shows "records W T (attempt m handler)"
  unfolding records_def
proof (intro allI impI)
  fix w h assume w: "W w"
  obtain r h' where m: "m w h = (r, h')" by fastforce
  then obtain es where es: "h' = h @ es" "R h es r" using recordsD[OF assms(1) w m] by blast
  show "\<exists>es. snd (attempt m handler w h) = h @ es \<and> T h es (fst (attempt m handler w h))"
  proof (cases r)
    case (Inr x)
    then show ?thesis using m es assms(3) by (auto simp: attempt_def)
  next
    case (Inl e)
    obtain r2 h2 where f: "handler e w h' = (r2, h2)" by fastforce
    then obtain es2 where "h2 = h' @ es2" "S e h' es2 r2" using recordsD[OF assms(2) w f] by blast
    then show ?thesis using m es Inl f assms(4) by (auto simp: attempt_def)
  qed
qed

lemma records_ensure:
  assumes "records W R m" and "records W S cleanup"
    and "\<And>h es r es' u. R h es r \<Longrightarrow> S (h @ es) es' (Inr u) \<Longrightarrow> T h (es @ es') r"
    and "\<And>h es r es' e. R h es r \<Longrightarrow> S (h @ es) es' (Inl e) \<Longrightarrow> T h (es @ es') (Inl e)"
  shows "records W T (ensure m cleanup)"
  unfolding records_def
proof (intro allI impI)
  fix w h assume w: "W w"
  obtain r h' where m: "m w h = (r, h')" by fastforce
  then obtain es where es: "h' = h @ es" "R h es r" using recordsD[OF assms(1) w m] by blast
  obtain r2 h2 where c: "cleanup w h' = (r2, h2)" by fastforce
  then obtain es2 where es2: "h2 = h' @ es2" "S h' es2 r2" using recordsD[OF assms(2) w c] by blast
  show "\<exists>es. snd (ensure m cleanup w h) = h @ es \<and> T h es (fst (ensure m cleanup w h))"
    using m es c es2 assms(3,4) by (cases r2) (auto simp: ensure_def)
qed

subsection \<open>Actions all of whose effects have a property\<close>

abbreviation all_effects ::
  "('e \<Rightarrow> bool) \<Rightarrow> ('e, 'v) record_of \<Rightarrow> ('e, 'v) record_of \<Rightarrow> 'a result \<Rightarrow> bool"
where
  "all_effects P h es r \<equiv> list_all (\<lambda>er. P (fst er)) es"

definition only :: "(('e, 'v) world \<Rightarrow> bool) \<Rightarrow> ('e \<Rightarrow> bool) \<Rightarrow> ('e, 'v, 'a) act \<Rightarrow> bool" where
  "only W P m = records W (all_effects P) m"

named_theorems only_intros

lemma only_basic [only_intros]:
  "only W P (give x)" "only W P (throw e)" "only W P recorded"
  by (simp_all add: only_def records_give records_throw records_recorded)

lemma only_perform [only_intros]: "P eff \<Longrightarrow> only W P (perform eff)" "P eff \<Longrightarrow> only W P (tell eff)"
  unfolding only_def by (rule records_perform, simp) (rule records_tell, simp)

lemma only_andthen [only_intros]:
  "only W P m \<Longrightarrow> (\<And>x. only W P (f x)) \<Longrightarrow> only W P (andthen m f)"
  unfolding only_def by (rule records_andthen[where R = "all_effects P" and S = "\<lambda>_. all_effects P"]) auto

lemma only_attempt [only_intros]:
  "only W P m \<Longrightarrow> (\<And>e. only W P (handler e)) \<Longrightarrow> only W P (attempt m handler)"
  unfolding only_def by (rule records_attempt[where R = "all_effects P" and S = "\<lambda>_. all_effects P"]) auto

lemma only_ensure [only_intros]:
  "only W P m \<Longrightarrow> only W P cleanup \<Longrightarrow> only W P (ensure m cleanup)"
  unfolding only_def by (rule records_ensure[where R = "all_effects P" and S = "all_effects P"]) auto

lemma only_each [only_intros]:
  "(\<And>x. x \<in> set xs \<Longrightarrow> only W P (f x)) \<Longrightarrow> only W P (each f xs)"
proof (induction xs)
  case Nil
  then show ?case by (simp add: only_basic)
next
  case (Cons x xs)
  then have "only W P (f x)" "only W P (each f xs)" by auto
  then show ?case unfolding each.simps by (intro only_andthen only_basic)
qed

lemma only_quietly [only_intros]: "only W P m \<Longrightarrow> only W P (quietly m)"
  unfolding quietly_def
  by (intro only_attempt only_andthen only_basic) (auto split: exn.splits intro: only_basic)

lemma only_if [only_intros]: "(b \<Longrightarrow> only W P m) \<Longrightarrow> (\<not> b \<Longrightarrow> only W P m') \<Longrightarrow> only W P (if b then m else m')"
  by simp

lemma only_option [only_intros]:
  "only W P m \<Longrightarrow> (\<And>x. only W P (f x)) \<Longrightarrow> only W P (case v of None \<Rightarrow> m | Some x \<Rightarrow> f x)"
  by (cases v) auto

lemma only_mono: "only W P m \<Longrightarrow> (\<And>eff. P eff \<Longrightarrow> Q eff) \<Longrightarrow> only W Q m"
  unfolding only_def by (erule records_mono) (auto elim: list.pred_mono_strong)

section \<open>What a success leaves behind\<close>

text \<open>\<open>leaves W Q m\<close>: when \<open>m\<close> returns \<open>y\<close>, the effects it recorded have the property \<open>Q y\<close>, a
  property that more effects do not spoil.\<close>

definition grows :: "('a \<Rightarrow> ('e \<times> 'v result) set \<Rightarrow> bool) \<Rightarrow> bool" where
  "grows Q \<longleftrightarrow> (\<forall>y S T. Q y S \<longrightarrow> S \<subseteq> T \<longrightarrow> Q y T)"

definition leaves ::
  "(('e, 'v) world \<Rightarrow> bool) \<Rightarrow> ('a \<Rightarrow> ('e \<times> 'v result) set \<Rightarrow> bool) \<Rightarrow> ('e, 'v, 'a) act \<Rightarrow> bool"
where
  "leaves W Q m = records W (\<lambda>h es r. \<forall>y. r = Inr y \<longrightarrow> Q y (set es)) m"

lemma growsD: "grows Q \<Longrightarrow> Q y S \<Longrightarrow> S \<subseteq> T \<Longrightarrow> Q y T"
  unfolding grows_def by blast

lemma leaves_skip:
  assumes "only W (\<lambda>_. True) m" and "\<And>x. leaves W Q (f x)" and "grows Q"
  shows "leaves W Q (andthen m f)"
  using assms(1) unfolding only_def leaves_def
  by (rule records_andthen[OF _ assms(2)[unfolded leaves_def]]) (auto intro: growsD[OF assms(3)])

lemma leaves_then_give:
  assumes "leaves W Q m" and "\<And>y S. Q y S \<Longrightarrow> R (f y) S"
  shows "leaves W R (andthen m (\<lambda>y. give (f y)))"
  using assms(1) unfolding leaves_def
  by (rule records_andthen[where S = "\<lambda>y h es r. es = [] \<and> r = Inr (f y)"])
    (auto intro: records_give assms(2))

lemma leaves_each:
  assumes "\<And>x. x \<in> set xs \<Longrightarrow> leaves W (Q x) (f x)" and "\<And>x. grows (Q x)"
  shows "leaves W (\<lambda>ys S. list_all2 (\<lambda>x y. Q x y S) xs ys) (each f xs)"
  using assms(1)
proof (induction xs)
  case Nil
  then show ?case by (simp add: leaves_def records_give)
next
  case (Cons x xs)
  have tail: "leaves W (\<lambda>ys S. list_all2 (\<lambda>x y. Q x y S) xs ys) (each f xs)" using Cons by simp
  have head: "leaves W (Q x) (f x)" using Cons.prems by simp
  have lift: "list_all2 (\<lambda>x y. Q x y S) xs ys \<Longrightarrow> S \<subseteq> T \<Longrightarrow> list_all2 (\<lambda>x y. Q x y T) xs ys" for ys S T
    by (erule list_all2_mono) (rule growsD[OF assms(2)])
  have rest: "records W (\<lambda>h es r. \<forall>zs. r = Inr zs \<longrightarrow> (\<exists>ys. zs = y # ys \<and> list_all2 (\<lambda>x y. Q x y (set es)) xs ys))
      (andthen (each f xs) (\<lambda>ys. give (y # ys)))" for y
    using tail unfolding leaves_def
    by (rule records_andthen[where S = "\<lambda>ys h es r. es = [] \<and> r = Inr (y # ys)"]) (auto intro: records_give)
  show ?case
    unfolding leaves_def each.simps
    by (rule records_andthen[OF head[unfolded leaves_def] rest]) (auto intro: growsD[OF assms(2)] lift)
qed

text \<open>A sequence of the same effect, exactly.\<close>

lemma each_performs:
  "records W (\<lambda>h es r. is_ok r \<longrightarrow> map fst es = map f xs) (each (\<lambda>x. perform (f x)) xs)"
proof (induction xs)
  case Nil
  then show ?case by (simp add: records_give)
next
  case (Cons x xs)
  have rest: "records W (\<lambda>h es r. is_ok r \<longrightarrow> map fst es = map f xs) (andthen (each (\<lambda>x. perform (f x)) xs) (\<lambda>ys. give (y # ys)))" for y
    by (rule records_andthen[OF Cons.IH, where S = "\<lambda>_ h es r. es = []"]) (auto intro: records_give)
  have head: "records W (\<lambda>h es r. map fst es = [f x]) (perform (f x))" by (rule records_perform) simp
  show ?case
    unfolding each.simps by (rule records_andthen[OF head rest]) auto
qed

section \<open>The operating system\<close>

text \<open>Calls to the operating system, sockets included, raise \<open>OSError\<close> or one of its subclasses.\<close>

fun os_error :: "exn \<Rightarrow> bool" where
  "os_error (OSError _) = True"
| "os_error (TimeoutError _) = True"
| "os_error _ = False"

definition os_world :: "('e, 'v) world \<Rightarrow> bool" where
  "os_world w \<longleftrightarrow> (\<forall>h eff e. w h eff = Inl e \<longrightarrow> os_error e)"

lemma quietly_perform:
  "records os_world (\<lambda>h es r. r = Inr () \<and> (\<exists>a. es = [(eff, a)])) (quietly (perform eff))"
  unfolding records_def
proof (intro allI impI)
  fix w :: "('a, 'b) world" and h
  assume w: "os_world w"
  show "\<exists>es. snd (quietly (perform eff) w h) = h @ es \<and>
      fst (quietly (perform eff) w h) = Inr () \<and> (\<exists>a. es = [(eff, a)])"
  proof (cases "w h eff")
    case (Inl e)
    with w have "os_error e" by (simp add: os_world_def)
    with Inl show ?thesis
      by (cases e) (simp_all add: quietly_def attempt_def andthen_def act_simps)
  qed (simp add: quietly_def attempt_def andthen_def act_simps)
qed

end
