(* ===== verification/Renode_Harness.thy ===== *)
theory Renode_Harness
  imports Effects Mmio_Models
begin

text \<open>
  \<open>scripts/lib/renode/renode_harness.py\<close>: the per-machine copies of the platform files, the Renode
  process with its monitor, the boot functions of the four topologies, and the USB host bridge.
  What the operating system and Renode do are effects (theory Effects): an effect is answered
  with a text, the path of a new file or the reply of the monitor, or raises.
\<close>

section \<open>Platform files\<close>

text \<open>\<open>re.sub(r"^KEY.*$", new, src, count=1, flags=re.M)\<close>, for a literal key: the first line that
  starts with the key is replaced.\<close>

fun sub_first :: "string \<Rightarrow> string \<Rightarrow> string list \<Rightarrow> string list" where
  "sub_first key new [] = []"
| "sub_first key new (l # ls) = (if prefix key l then new # ls else l # sub_first key new ls)"

definition re_sub_line :: "string \<Rightarrow> string \<Rightarrow> string \<Rightarrow> string" where
  "re_sub_line key new src = py_join [lf] (sub_first key new (split_char lf src))"

definition KEY0 :: string where "KEY0 = ''DEVICEADDR0 = ''"
definition KEY1 :: string where "KEY1 = ''DEVICEADDR1 = ''"

text \<open>The text that \<open>_materialize_ficr\<close> writes, from the text of \<open>models/ficr.py\<close>.\<close>

definition ficr_source :: "string \<Rightarrow> int \<Rightarrow> string" where
  "ficr_source src device_addr =
     re_sub_line KEY1 (KEY1 @ py_hex (ficr_addr1 device_addr))
       (re_sub_line KEY0 (KEY0 @ py_hex (ficr_addr0 device_addr)) src)"

text \<open>The text that \<open>_materialize_real_repl\<close> writes; \<open>abs_models\<close> is the resolved models directory.\<close>

definition real_repl_source :: "string \<Rightarrow> string \<Rightarrow> string option \<Rightarrow> string" where
  "real_repl_source template abs_models ficr_path =
     (let q = [CHR 0x22];
          r1 = py_replace (''filename: '' @ q @ ''platforms/models/'')
                 (''filename: '' @ q @ abs_models @ ''/'') template;
          r2 = py_replace ''include @platforms/models/'' (''include @'' @ abs_models @ ''/'') r1
      in (case ficr_path of
            None \<Rightarrow> r2
          | Some f \<Rightarrow> py_replace (''filename: '' @ q @ abs_models @ ''/ficr.py'' @ q) (''filename: '' @ q @ f @ q) r2))"

definition ccm_repl_source :: "string \<Rightarrow> string \<Rightarrow> string" where
  "ccm_repl_source template abs_ccm =
     (let q = [CHR 0x22] in
      py_replace (''filename: '' @ q @ ''platforms/models/ccm.py'' @ q) (''filename: '' @ q @ abs_ccm @ q) template)"

text \<open>How Python reads a constant of the rewritten file: its last assignment at the top level.\<close>

definition read_constant :: "string \<Rightarrow> string \<Rightarrow> string option" where
  "read_constant key src =
     (case filter (prefix key) (split_char lf src) of
        [] \<Rightarrow> None
      | ls \<Rightarrow> Some (takeWhile (\<lambda>c. c \<noteq> CHR '' '') (drop (length key) (last ls))))"

lemma sub_first_filter:
  "\<not> prefix other new \<Longrightarrow> \<forall>l. prefix key l \<longrightarrow> \<not> prefix other l \<Longrightarrow>
     filter (prefix other) (sub_first key new ls) = filter (prefix other) ls"
  by (induction ls) auto

lemma sub_first_own:
  "prefix key new \<Longrightarrow> filter (prefix key) ls = [l] \<Longrightarrow> filter (prefix key) (sub_first key new ls) = [new]"
  by (induction ls) (auto split: if_splits)

lemma sub_first_other_lines:
  "prefix key new \<Longrightarrow>
     filter (\<lambda>l. \<not> prefix key l) (sub_first key new ls) = filter (\<lambda>l. \<not> prefix key l) ls"
  by (induction ls) auto

lemma sub_first_nonempty: "ls \<noteq> [] \<Longrightarrow> sub_first key new ls \<noteq> []"
  by (cases ls) auto

lemma sub_first_clean:
  "c \<notin> set new \<Longrightarrow> \<forall>l \<in> set ls. c \<notin> set l \<Longrightarrow> \<forall>l \<in> set (sub_first key new ls). c \<notin> set l"
  by (induction ls) auto

lemma split_char_clean: "\<forall>w \<in> set (split_char c s). c \<notin> set w"
  by (induction s) (auto split: list.splits)

lemma split_re_sub_line:
  assumes "lf \<notin> set new"
  shows "split_char lf (re_sub_line key new src) = sub_first key new (split_char lf src)"
  unfolding re_sub_line_def
  by (rule split_char_join[OF sub_first_nonempty[OF split_char_nonempty] sub_first_clean[OF assms split_char_clean]])

lemma hex_of_nat_chars: "c \<in> set (hex_of_nat n) \<Longrightarrow> c \<in> set hex_lower"
proof (induction n rule: hex_of_nat.induct)
  case (1 n)
  have "n mod 16 < length hex_lower" "n < 16 \<Longrightarrow> n < length hex_lower" by (simp_all add: hex_lower_def)
  then show ?case
    using 1 by (cases "n < 16") (auto simp: hex_of_nat.simps[of n] nth_mem)
qed

lemma py_hex_chars: "c \<in> set (py_hex i) \<Longrightarrow> c \<in> set (''-0x'' @ hex_lower)"
  by (auto simp: py_hex_def dest: hex_of_nat_chars split: if_splits)

lemma py_hex_clean: "lf \<notin> set (py_hex i)" "CHR '' '' \<notin> set (py_hex i)"
  using py_hex_chars[of lf i] py_hex_chars[of "CHR '' ''" i] by (auto simp: lf_def hex_lower_def)

section \<open>Effects\<close>

datatype fx =
    Mkstemp string string
  | Write_text string string
  | Write_ff string int
  | Unlink string
  | New_session
  | Popen "string list"
  | Mon_connect nat
  | Mon_close
  | Kill
  | Wait
  | Uart nat
  | Exec string
  | Drain string
  | Rpc_send string "byte list"
  | Rpc_receive string
  | Sock_close string
  | Read_text string

type_synonym fx_record = "(fx, string) record_of"
type_synonym 'a fx_act = "(fx, string, 'a) act"

record boot_env =
  ficr_text :: string
  ccm_text :: string
  platform_text :: "string \<Rightarrow> string"
  models_dir :: string
  rtt_helper :: string
  bridge_cs :: string
  launcher :: string

definition mk_ficr :: "boot_env \<Rightarrow> int \<Rightarrow> string fx_act" where
  "mk_ficr env device_addr =
     andthen (perform (Mkstemp ''zmk-ficr-'' ''.py'')) (\<lambda>path.
     andthen (perform (Write_text path (ficr_source (ficr_text env) device_addr))) (\<lambda>_. give path))"

definition mk_real_repl :: "boot_env \<Rightarrow> string option \<Rightarrow> string \<Rightarrow> string fx_act" where
  "mk_real_repl env ficr_path template_name =
     andthen (perform (Mkstemp ''xiao_nrf52840_real-'' ''.repl'')) (\<lambda>path.
     andthen (perform (Write_text path
       (real_repl_source (platform_text env template_name) (models_dir env) ficr_path))) (\<lambda>_. give path))"

definition mk_ccm_repl :: "boot_env \<Rightarrow> string fx_act" where
  "mk_ccm_repl env =
     andthen (perform (Mkstemp ''zmk-ccm-'' ''.repl'')) (\<lambda>path.
     andthen (perform (Write_text path (ccm_repl_source (ccm_text env) (models_dir env @ ''/ccm.py''))))
       (\<lambda>_. give path))"

definition write_ff_binary :: "int \<Rightarrow> string fx_act" where
  "write_ff_binary n =
     andthen (perform (Mkstemp ''zmk-nvs-ff-'' ''.bin'')) (\<lambda>path.
     andthen (perform (Write_ff path n)) (\<lambda>_. give path))"

section \<open>The Renode session\<close>

text \<open>
  The fields \<open>proc\<close> and \<open>mon\<close> of a session are what its record shows since it was constructed: the
  process was launched, the monitor was connected.
\<close>

definition since_session :: "fx_record \<Rightarrow> fx_record" where
  "since_session h = takeWhile (\<lambda>er. fst er \<noteq> New_session) (rev h)"

definition proc_set :: "fx_record \<Rightarrow> bool" where
  "proc_set h = list_ex (\<lambda>(eff, r). (case eff of Popen _ \<Rightarrow> is_ok r | _ \<Rightarrow> False)) (since_session h)"

definition mon_set :: "fx_record \<Rightarrow> bool" where
  "mon_set h = list_ex (\<lambda>(eff, r). (case eff of Mon_connect _ \<Rightarrow> is_ok r | _ \<Rightarrow> False)) (since_session h)"

text \<open>The polling loop of \<open>start\<close>; \<open>n\<close> is the number of attempts the deadline leaves.\<close>

fun connect_monitor :: "nat \<Rightarrow> nat \<Rightarrow> unit fx_act" where
  "connect_monitor port 0 =
     andthen (quietly (perform Kill)) (\<lambda>_. throw (TimeoutError ''Renode monitor never came up''))"
| "connect_monitor port (Suc n) =
     attempt (andthen (perform (Mon_connect port)) (\<lambda>_. give ()))
       (\<lambda>e. case e of OSError _ \<Rightarrow> connect_monitor port n | TimeoutError _ \<Rightarrow> connect_monitor port n
              | _ \<Rightarrow> throw e)"

definition start_command :: "string \<Rightarrow> string \<Rightarrow> nat \<Rightarrow> (string \<times> string) list \<Rightarrow> string list" where
  "start_command renode resc port variables =
     (let var_str = py_join ''; '' (map (\<lambda>(k, v). ''$'' @ k @ ''='' @ v) variables) in
      [renode, ''--disable-xwt'', ''--hide-log'', ''-P'', dec_of_nat port, ''-e'',
       if var_str \<noteq> [] then var_str @ ''; i @'' @ resc else ''i @'' @ resc])"

definition session_start ::
  "nat \<Rightarrow> string \<Rightarrow> string \<Rightarrow> nat \<Rightarrow> (string \<times> string) list \<Rightarrow> unit fx_act"
where
  "session_start tries renode resc port variables =
     andthen (perform (Popen (start_command renode resc port variables))) (\<lambda>_. connect_monitor port tries)"

definition exec :: "string \<Rightarrow> unit fx_act" where
  "exec c = andthen (perform (Exec c)) (\<lambda>_. give ())"

definition assert_mon :: "unit fx_act" where
  "assert_mon = andthen recorded (\<lambda>h. if mon_set h then give () else throw (AssertionError ''mon is None''))"

definition go :: "unit fx_act" where
  "go = andthen assert_mon (\<lambda>_. exec ''start'')"

definition stop_session :: "unit fx_act" where
  "stop_session = andthen recorded (\<lambda>h.
     andthen (if mon_set h then quietly (perform Mon_close) else give ()) (\<lambda>_.
     if proc_set h then andthen (perform Kill) (\<lambda>_. quietly (perform Wait)) else give ()))"

definition unlink_all :: "string list \<Rightarrow> unit fx_act" where
  "unlink_all tmps = andthen (each (\<lambda>p. quietly (perform (Unlink p))) tmps) (\<lambda>_. give ())"

section \<open>Boot\<close>

definition preload :: "string \<Rightarrow> int \<Rightarrow> unit fx_act" where
  "preload ff storage_addr = exec (''sysbus LoadBinary @'' @ ff @ '' '' @ py_hex storage_addr)"

definition port_text :: "nat \<Rightarrow> string" where "port_text n = dec_of_nat n"

record boot_args =
  port_base :: nat
  monitor_tries :: nat
  nvs_addr :: int
  nvs_size :: int

text \<open>\<open>boot_single_real\<close>; the result is the sockets: console, RPC and, under \<open>rtt\<close>, the RTT console.\<close>

definition rtt_setup :: "boot_env \<Rightarrow> nat \<Rightarrow> string \<Rightarrow> string fx_act" where
  "rtt_setup env port tname =
     andthen (exec (''include @'' @ rtt_helper env)) (\<lambda>_.
     andthen (exec (''machine CreateVirtualConsole '' @ [CHR 0x22] @ ''segger_rtt'' @ [CHR 0x22])) (\<lambda>_.
     andthen (exec ''setup_segger_rtt_wskip sysbus.segger_rtt'') (\<lambda>_.
     andthen (exec (''emulation CreateServerSocketTerminal '' @ port_text port @ '' '' @ [CHR 0x22] @ tname @ [CHR 0x22] @ '' false'')) (\<lambda>_.
     andthen (exec (''connector Connect sysbus.segger_rtt '' @ tname)) (\<lambda>_.
     perform (Uart port))))))"

definition boot_single_real ::
  "boot_env \<Rightarrow> boot_args \<Rightarrow> string \<Rightarrow> int option \<Rightarrow> bool \<Rightarrow> string \<Rightarrow> string list fx_act"
where
  "boot_single_real env a elf device_addr rtt template_name =
     andthen (case device_addr of None \<Rightarrow> give None
              | Some d \<Rightarrow> andthen (mk_ficr env d) (\<lambda>p. give (Some p))) (\<lambda>ficr.
     andthen (mk_real_repl env ficr template_name) (\<lambda>repl.
     andthen (write_ff_binary (nvs_size a)) (\<lambda>ff.
     andthen (tell New_session) (\<lambda>_.
     ensure
       (attempt
         (andthen (session_start (monitor_tries a) (launcher env) ''platforms/single_real.resc'' (port_base a)
            [(''bin'', ''@'' @ elf), (''console_port'', port_text (port_base a + 1)),
             (''rpc_port'', port_text (port_base a + 2)), (''platform'', ''@'' @ repl)]) (\<lambda>_.
          andthen (perform (Uart (port_base a + 1))) (\<lambda>console.
          andthen (perform (Uart (port_base a + 2))) (\<lambda>rpc.
          andthen assert_mon (\<lambda>_.
          andthen (if rtt then andthen (rtt_setup env (port_base a + 3) ''rtt_term'') (\<lambda>s. give [s]) else give [])
            (\<lambda>rtt_socket.
          andthen (preload ff (nvs_addr a)) (\<lambda>_.
          andthen go (\<lambda>_. give ([console, rpc] @ rtt_socket)))))))))
         (\<lambda>e. andthen stop_session (\<lambda>_. throw e)))
       (unlink_all ([repl, ff] @ (case ficr of None \<Rightarrow> [] | Some f \<Rightarrow> [f])))))))"

text \<open>\<open>boot_ble_pair\<close>: DUT console, DUT RPC, host console.\<close>

definition boot_ble_pair ::
  "boot_env \<Rightarrow> boot_args \<Rightarrow> string \<Rightarrow> string \<Rightarrow> string option \<Rightarrow> string list fx_act"
where
  "boot_ble_pair env a dut_elf host_elf renode_log =
     andthen (mk_ficr env (device_addr_for_machine 0)) (\<lambda>dut_ficr.
     andthen (mk_ficr env (device_addr_for_machine 1)) (\<lambda>host_ficr.
     andthen (mk_real_repl env (Some dut_ficr) ''xiao_nrf52840_real.repl'') (\<lambda>dut_repl.
     andthen (mk_real_repl env (Some host_ficr) ''xiao_nrf52840_real.repl'') (\<lambda>host_repl.
     andthen (mk_ccm_repl env) (\<lambda>ccm_repl.
     andthen (write_ff_binary (nvs_size a)) (\<lambda>ff.
     andthen (tell New_session) (\<lambda>_.
     ensure
       (andthen (session_start (monitor_tries a) (launcher env) ''platforms/two_machine_ble.resc'' (port_base a)
          [(''dut_bin'', ''@'' @ dut_elf), (''host_bin'', ''@'' @ host_elf),
           (''dut_platform'', ''@'' @ dut_repl), (''host_platform'', ''@'' @ host_repl), (''ccm'', ''@'' @ ccm_repl),
           (''d_console'', port_text (port_base a + 1)), (''d_rpc'', port_text (port_base a + 2)),
           (''h_console'', port_text (port_base a + 3))]) (\<lambda>_.
        andthen assert_mon (\<lambda>_.
        andthen (case renode_log of None \<Rightarrow> give () | Some l \<Rightarrow> exec (''logFile @'' @ l)) (\<lambda>_.
        andthen (perform (Uart (port_base a + 1))) (\<lambda>dut_console.
        andthen (perform (Uart (port_base a + 2))) (\<lambda>dut_rpc.
        andthen (perform (Uart (port_base a + 3))) (\<lambda>host_console.
        andthen (exec (''mach set '' @ [CHR 0x22] @ ''dut'' @ [CHR 0x22])) (\<lambda>_.
        andthen (preload ff (nvs_addr a)) (\<lambda>_.
        andthen go (\<lambda>_. give [dut_console, dut_rpc, host_console]))))))))))
       (unlink_all [dut_ficr, host_ficr, dut_repl, host_repl, ccm_repl, ff]))))))))"

definition boot_split_wired :: "boot_env \<Rightarrow> boot_args \<Rightarrow> string \<Rightarrow> string \<Rightarrow> string list fx_act" where
  "boot_split_wired env a central_elf peripheral_elf =
     andthen (tell New_session) (\<lambda>_.
     andthen (session_start (monitor_tries a) (launcher env) ''platforms/split_wired.resc'' (port_base a)
       [(''central_bin'', ''@'' @ central_elf), (''peripheral_bin'', ''@'' @ peripheral_elf),
        (''central_console_port'', port_text (port_base a + 1)),
        (''peripheral_console_port'', port_text (port_base a + 2))]) (\<lambda>_.
     andthen (perform (Uart (port_base a + 1))) (\<lambda>central.
     andthen (perform (Uart (port_base a + 2))) (\<lambda>peripheral.
     andthen go (\<lambda>_. give [central, peripheral])))))"

definition boot_usb_wired_split :: "boot_env \<Rightarrow> boot_args \<Rightarrow> string \<Rightarrow> string \<Rightarrow> string list fx_act" where
  "boot_usb_wired_split env a central_elf peripheral_elf =
     andthen (mk_real_repl env None ''xiao_nrf52840_usb.repl'') (\<lambda>central_repl.
     andthen (write_ff_binary (nvs_size a)) (\<lambda>ff.
     andthen (tell New_session) (\<lambda>_.
     ensure
       (attempt
         (andthen (session_start (monitor_tries a) (launcher env) ''platforms/usb_wired_split.resc'' (port_base a)
            [(''central_bin'', ''@'' @ central_elf), (''peripheral_bin'', ''@'' @ peripheral_elf),
             (''central_platform'', ''@'' @ central_repl),
             (''central_console_port'', port_text (port_base a + 1)),
             (''peripheral_console_port'', port_text (port_base a + 2))]) (\<lambda>_.
          andthen (perform (Uart (port_base a + 1))) (\<lambda>central.
          andthen (perform (Uart (port_base a + 2))) (\<lambda>peripheral.
          andthen assert_mon (\<lambda>_.
          andthen (exec (''mach set '' @ [CHR 0x22] @ ''central'' @ [CHR 0x22])) (\<lambda>_.
          andthen (preload ff (nvs_addr a)) (\<lambda>_.
          andthen go (\<lambda>_. give [central, peripheral]))))))))
         (\<lambda>e. andthen stop_session (\<lambda>_. throw e)))
       (unlink_all [central_repl, ff]))))"

text \<open>\<open>boot_ble_split\<close>: central console, peripheral RTT, host console, and the two sockets that the source
  keeps on the session (\<open>_idle_sockets\<close>).\<close>

definition boot_ble_split ::
  "boot_env \<Rightarrow> boot_args \<Rightarrow> string \<Rightarrow> string \<Rightarrow> string \<Rightarrow> string option \<Rightarrow> string list fx_act"
where
  "boot_ble_split env a central_elf peripheral_elf host_elf renode_log =
     andthen (mk_ficr env (device_addr_for_machine 0)) (\<lambda>central_ficr.
     andthen (mk_ficr env (device_addr_for_machine 1)) (\<lambda>peripheral_ficr.
     andthen (mk_ficr env (device_addr_for_machine 2)) (\<lambda>host_ficr.
     andthen (mk_real_repl env (Some central_ficr) ''xiao_nrf52840_real.repl'') (\<lambda>central_repl.
     andthen (mk_real_repl env (Some peripheral_ficr) ''xiao_nrf52840_real.repl'') (\<lambda>peripheral_repl.
     andthen (mk_real_repl env (Some host_ficr) ''xiao_nrf52840_real.repl'') (\<lambda>host_repl.
     andthen (mk_ccm_repl env) (\<lambda>ccm_repl.
     andthen (write_ff_binary (nvs_size a)) (\<lambda>ff.
     andthen (tell New_session) (\<lambda>_.
     ensure
       (andthen (session_start (monitor_tries a) (launcher env) ''platforms/three_machine_ble.resc'' (port_base a)
          [(''central_bin'', ''@'' @ central_elf), (''peripheral_bin'', ''@'' @ peripheral_elf),
           (''host_bin'', ''@'' @ host_elf), (''central_platform'', ''@'' @ central_repl),
           (''peripheral_platform'', ''@'' @ peripheral_repl), (''host_platform'', ''@'' @ host_repl),
           (''ccm'', ''@'' @ ccm_repl), (''c_console'', port_text (port_base a + 1)),
           (''c_rpc'', port_text (port_base a + 2)), (''p_console'', port_text (port_base a + 3)),
           (''h_console'', port_text (port_base a + 4))]) (\<lambda>_.
        andthen assert_mon (\<lambda>_.
        andthen (case renode_log of None \<Rightarrow> give () | Some l \<Rightarrow> exec (''logFile @'' @ l)) (\<lambda>_.
        andthen (perform (Uart (port_base a + 1))) (\<lambda>central_console.
        andthen (perform (Uart (port_base a + 4))) (\<lambda>host_console.
        andthen (perform (Uart (port_base a + 2))) (\<lambda>idle_rpc.
        andthen (perform (Uart (port_base a + 3))) (\<lambda>idle_console.
        andthen (exec (''mach set '' @ [CHR 0x22] @ ''peripheral'' @ [CHR 0x22])) (\<lambda>_.
        andthen (rtt_setup env (port_base a + 5) ''prtt_term'') (\<lambda>peripheral_rtt.
        andthen (each (\<lambda>mach. andthen (exec (''mach set '' @ [CHR 0x22] @ mach @ [CHR 0x22]))
          (\<lambda>_. preload ff (nvs_addr a))) [''central'', ''peripheral'']) (\<lambda>_.
        andthen go (\<lambda>_. give [central_console, peripheral_rtt, host_console, idle_rpc, idle_console]))))))))))))
       (unlink_all [central_ficr, peripheral_ficr, host_ficr, central_repl, peripheral_repl, host_repl,
          ccm_repl, ff]))))))))))"

section \<open>The parts of a boot\<close>

fun cleanup_fx :: "fx \<Rightarrow> bool" where
  "cleanup_fx (Unlink _) = True"
| "cleanup_fx Mon_close = True"
| "cleanup_fx Kill = True"
| "cleanup_fx Wait = True"
| "cleanup_fx _ = False"

text \<open>The effects of the phase between the construction of the session and \<open>go\<close>.\<close>

fun setup_fx :: "fx \<Rightarrow> bool" where
  "setup_fx (Popen _) = True"
| "setup_fx (Mon_connect _) = True"
| "setup_fx Kill = True"
| "setup_fx (Uart _) = True"
| "setup_fx (Exec c) = (c \<noteq> ''start'')"
| "setup_fx _ = False"

fun file_fx :: "fx \<Rightarrow> bool" where
  "file_fx (Mkstemp _ _) = True"
| "file_fx (Write_text _ _) = True"
| "file_fx (Write_ff _ _) = True"
| "file_fx _ = False"

lemma only_exec: "P (Exec c) \<Longrightarrow> only W P (exec c)"
  unfolding exec_def by (intro only_intros)

lemma only_assert_mon: "only W P assert_mon"
  unfolding assert_mon_def by (intro only_intros)

lemma only_connect_monitor: "only W setup_fx (connect_monitor port n)"
proof (induction n)
  case 0
  then show ?case unfolding connect_monitor.simps by (intro only_intros) simp
next
  case (Suc n)
  show ?case
    unfolding connect_monitor.simps
  proof (rule only_attempt)
    show "only W setup_fx (andthen (perform (Mon_connect port)) (\<lambda>_. give ()))"
      by (intro only_intros) simp
    show "only W setup_fx (case e of OSError _ \<Rightarrow> connect_monitor port n
        | TimeoutError _ \<Rightarrow> connect_monitor port n | _ \<Rightarrow> throw e)" for e
      by (cases e) (simp_all add: Suc only_basic)
  qed
qed

lemma only_session_start: "only W setup_fx (session_start tries renode resc port variables)"
  unfolding session_start_def by (intro only_intros only_connect_monitor) simp

lemma only_rtt_setup: "only W setup_fx (rtt_setup env port tname)"
  unfolding rtt_setup_def by (intro only_intros only_exec) simp_all

lemma only_preload: "only W setup_fx (preload ff addr)"
  unfolding preload_def by (rule only_exec) simp

lemma only_stop: "only W cleanup_fx stop_session"
  unfolding stop_session_def by (intro only_intros) simp_all

lemma only_unlink_all: "only W cleanup_fx (unlink_all tmps)"
  unfolding unlink_all_def by (intro only_intros) simp

lemmas only_setup = only_intros only_exec only_assert_mon only_session_start only_rtt_setup only_preload

section \<open>Nothing after start\<close>

text \<open>A staged record: setup, then \<open>start\<close> if it comes to that, then cleanup only.\<close>

definition staged :: "fx_record \<Rightarrow> bool" where
  "staged es \<longleftrightarrow> (\<exists>as bs. es = as @ bs \<and> list_all (\<lambda>er. fst er \<noteq> Exec ''start'') as \<and>
     (bs = [] \<or> (\<exists>r cs. bs = (Exec ''start'', r) # cs \<and> list_all (\<lambda>er. cleanup_fx (fst er)) cs)))"

abbreviation staged_act :: "'a fx_act \<Rightarrow> bool" where
  "staged_act m \<equiv> records os_world (\<lambda>h es r. staged es) m"

lemma staged_no_start: "list_all (\<lambda>er. fst er \<noteq> Exec ''start'') es \<Longrightarrow> staged es"
  unfolding staged_def by (rule exI[of _ es]) auto

lemma cleanup_no_start: "list_all (\<lambda>er. cleanup_fx (fst er)) es \<Longrightarrow> list_all (\<lambda>er. fst er \<noteq> Exec ''start'') es"
  by (auto simp: list_all_iff)

lemma staged_append_left: "list_all (\<lambda>er. fst er \<noteq> Exec ''start'') as \<Longrightarrow> staged bs \<Longrightarrow> staged (as @ bs)"
  unfolding staged_def
  by (elim exE conjE, rule_tac x = "as @ asa" in exI, rule_tac x = bsa in exI) simp

lemma staged_append_right: "staged as \<Longrightarrow> list_all (\<lambda>er. cleanup_fx (fst er)) bs \<Longrightarrow> staged (as @ bs)"
proof -
  assume a: "staged as" and b: "list_all (\<lambda>er. cleanup_fx (fst er)) bs"
  from a obtain xs ys where xy: "as = xs @ ys" "list_all (\<lambda>er. fst er \<noteq> Exec ''start'') xs"
    "ys = [] \<or> (\<exists>r cs. ys = (Exec ''start'', r) # cs \<and> list_all (\<lambda>er. cleanup_fx (fst er)) cs)"
    by (auto simp: staged_def)
  from xy(3) show "staged (as @ bs)"
  proof
    assume "ys = []"
    with xy(1,2) cleanup_no_start[OF b] show ?thesis by (auto intro: staged_no_start)
  next
    assume "\<exists>r cs. ys = (Exec ''start'', r) # cs \<and> list_all (\<lambda>er. cleanup_fx (fst er)) cs"
    then obtain r cs where "ys = (Exec ''start'', r) # cs" "list_all (\<lambda>er. cleanup_fx (fst er)) cs" by blast
    with xy(1,2) b show ?thesis
      unfolding staged_def by (intro exI[of _ xs] exI[of _ "ys @ bs"]) auto
  qed
qed

lemma staged_andthen:
  assumes "only os_world (\<lambda>eff. eff \<noteq> Exec ''start'') m" and "\<And>x. staged_act (f x)"
  shows "staged_act (andthen m f)"
  using assms(1) unfolding only_def
  by (rule records_andthen[OF _ assms(2)]) (auto intro: staged_no_start staged_append_left)

lemma staged_start: "staged [(Exec ''start'', a)]"
  unfolding staged_def by (rule exI[of _ "[]"]) simp

lemma no_effects: "list_all (\<lambda>_. False) es \<longleftrightarrow> es = []"
  by (cases es) auto

lemma staged_go: "staged_act (andthen go (\<lambda>_. give x))"
proof -
  have e: "records os_world (\<lambda>h es r. \<exists>a. es = [(Exec ''start'', a)]) (exec ''start'')"
    unfolding exec_def
    by (rule records_andthen[where R = "\<lambda>h es r. \<exists>a. es = [(Exec ''start'', a)]" and S = "\<lambda>_ h es r. es = []"])
      (auto intro: records_perform records_give)
  have "records os_world (\<lambda>h es r. es = [] \<or> (\<exists>a. es = [(Exec ''start'', a)])) go"
    unfolding go_def
    by (rule records_andthen[OF only_assert_mon[of _ "\<lambda>_. False", unfolded only_def] e])
      (auto simp: no_effects)
  then show ?thesis
    by (rule records_andthen[where S = "\<lambda>_ h es r. es = []"])
      (auto intro: records_give staged_no_start staged_start)
qed

lemma staged_attempt:
  assumes "staged_act m" and "\<And>e. only os_world cleanup_fx (handler e)"
  shows "staged_act (attempt m handler)"
  using assms(2) unfolding only_def
  by (rule records_attempt[OF assms(1)]) (auto intro: staged_append_right)

lemma staged_ensure:
  assumes "staged_act m" and "only os_world cleanup_fx c"
  shows "staged_act (ensure m c)"
  using assms(2) unfolding only_def
  by (rule records_ensure[OF assms(1)]) (auto intro: staged_append_right)

lemma setup_not_start: "only W setup_fx m \<Longrightarrow> only W (\<lambda>eff. eff \<noteq> Exec ''start'') m"
  by (erule only_mono) auto

lemma file_not_start: "only W file_fx m \<Longrightarrow> only W (\<lambda>eff. eff \<noteq> Exec ''start'') m"
  by (erule only_mono) auto

lemma only_files:
  "only W file_fx (mk_ficr env d)" "only W file_fx (mk_real_repl env f t)"
  "only W file_fx (mk_ccm_repl env)" "only W file_fx (write_ff_binary n)"
  unfolding mk_ficr_def mk_real_repl_def mk_ccm_repl_def write_ff_binary_def
  by (intro only_intros; simp)+

section \<open>No temporary file is left\<close>

definition temp_files :: "fx_record \<Rightarrow> string set" where
  "temp_files es = {p. \<exists>a b. (Mkstemp a b, Inr p) \<in> set es}"

definition unlinked :: "fx_record \<Rightarrow> string set" where
  "unlinked es = {p. \<exists>r. (Unlink p, r) \<in> set es}"

definition session_made :: "fx_record \<Rightarrow> bool" where
  "session_made es \<longleftrightarrow> New_session \<in> fst ` set es"

lemma file_sets [simp]:
  "temp_files (as @ bs) = temp_files as \<union> temp_files bs"
  "unlinked (as @ bs) = unlinked as \<union> unlinked bs"
  "session_made (as @ bs) \<longleftrightarrow> session_made as \<or> session_made bs"
  "temp_files [] = {}" "unlinked [] = {}" "\<not> session_made []"
  by (auto simp: temp_files_def unlinked_def session_made_def)

text \<open>\<open>tidy T m\<close>: if \<open>m\<close> constructs the session, it removes every temporary file that it made and
  every one of \<open>T\<close>, the files made before.\<close>

definition tidy :: "string set \<Rightarrow> 'a fx_act \<Rightarrow> bool" where
  "tidy T m = records os_world (\<lambda>h es r. session_made es \<longrightarrow> T \<union> temp_files es \<subseteq> unlinked es) m"

definition makes_file :: "string fx_act \<Rightarrow> bool" where
  "makes_file m = records os_world (\<lambda>h es r. \<not> session_made es \<and>
     (\<forall>p. r = Inr p \<longrightarrow> temp_files es \<subseteq> {p})) m"

lemma makes_fileI:
  assumes "\<And>path. only os_world (\<lambda>eff. eff \<noteq> New_session \<and> (\<forall>a b. eff \<noteq> Mkstemp a b)) (write path)"
  shows "makes_file (andthen (perform (Mkstemp a b)) (\<lambda>path. andthen (write path) (\<lambda>_. give path)))"
  unfolding makes_file_def
proof (rule records_andthen[where R = "\<lambda>h es r. es = [(Mkstemp a b, r)]"
      and S = "\<lambda>path h es r. list_all (\<lambda>er. fst er \<noteq> New_session \<and> (\<forall>a b. fst er \<noteq> Mkstemp a b)) es \<and> (\<forall>p. r = Inr p \<longrightarrow> p = path)"])
  show "records os_world (\<lambda>h es r. es = [(Mkstemp a b, r)]) (perform (Mkstemp a b))"
    by (rule records_perform) simp
  show "records os_world (\<lambda>h es r. list_all (\<lambda>er. fst er \<noteq> New_session \<and> (\<forall>a b. fst er \<noteq> Mkstemp a b)) es \<and>
      (\<forall>p. r = Inr p \<longrightarrow> p = path)) (andthen (write path) (\<lambda>_. give path))" for path
    using assms[of path] unfolding only_def
    by (rule records_andthen[where S = "\<lambda>_ h es r. es = [] \<and> r = Inr path"]) (auto intro: records_give)
qed (fastforce simp: session_made_def temp_files_def list_all_iff)+

lemma makes_files:
  "makes_file (mk_ficr env d)" "makes_file (mk_real_repl env f t)"
  "makes_file (mk_ccm_repl env)" "makes_file (write_ff_binary n)"
  unfolding mk_ficr_def mk_real_repl_def mk_ccm_repl_def write_ff_binary_def
  by (rule makes_fileI, intro only_intros, simp)+

lemma tidy_andthen:
  assumes "makes_file m" and "\<And>p. tidy (insert p T) (f p)"
  shows "tidy T (andthen m f)"
  using assms(1) unfolding tidy_def makes_file_def
  by (rule records_andthen[OF _ assms(2)[unfolded tidy_def]]) auto

lemma unlink_all_removes:
  "records os_world (\<lambda>h es r. r = Inr () \<and> set tmps \<subseteq> unlinked es) (unlink_all tmps)"
proof -
  have "records os_world (\<lambda>h es r. is_ok r \<and> set tmps \<subseteq> unlinked es) (each (\<lambda>p. quietly (perform (Unlink p))) tmps)"
  proof (induction tmps)
    case Nil
    then show ?case by (simp add: records_give)
  next
    case (Cons p tmps)
    show ?case
      unfolding each.simps
    proof (rule records_andthen[OF quietly_perform])
      show "records os_world (\<lambda>h es r. is_ok r \<and> set tmps \<subseteq> unlinked es)
          (andthen (each (\<lambda>p. quietly (perform (Unlink p))) tmps) (\<lambda>ys. give (x # ys)))" for x
        by (rule records_andthen[OF Cons.IH, where S = "\<lambda>_ h es r. es = [] \<and> is_ok r"])
          (auto intro: records_give)
    qed (auto simp: unlinked_def)
  qed
  then show ?thesis
    unfolding unlink_all_def
    by (rule records_andthen[where S = "\<lambda>_ h es r. es = [] \<and> r = Inr ()"]) (auto intro: records_give)
qed

lemma tidy_session:
  assumes "T \<subseteq> set tmps" and "only os_world (\<lambda>eff. \<forall>a b. eff \<noteq> Mkstemp a b) body"
  shows "tidy T (andthen (tell New_session) (\<lambda>_. ensure body (unlink_all tmps)))"
  unfolding tidy_def
proof (rule records_andthen[where R = "\<lambda>h es r. \<exists>a. es = [(New_session, a)] \<and> r = Inr ()"
      and S = "\<lambda>_ h es r. temp_files es = {} \<and> set tmps \<subseteq> unlinked es"])
  show "records os_world (\<lambda>h es r. \<exists>a. es = [(New_session, a)] \<and> r = Inr ()) (tell New_session)"
    by (rule records_tell) simp
  have unl: "records os_world (\<lambda>h es r. (r = Inr () \<and> set tmps \<subseteq> unlinked es) \<and> all_effects cleanup_fx h es r) (unlink_all tmps)"
    by (rule records_conj[OF unlink_all_removes only_unlink_all[unfolded only_def]])
  have no_tmp: "list_all (\<lambda>er. cleanup_fx (fst er)) es \<Longrightarrow> temp_files es = {}" for es
    by (auto simp: temp_files_def list_all_iff)
  have no_tmp': "list_all (\<lambda>er. \<forall>a b. fst er \<noteq> Mkstemp a b) es \<Longrightarrow> temp_files es = {}" for es
    by (fastforce simp: temp_files_def list_all_iff)
  show "records os_world (\<lambda>h es r. temp_files es = {} \<and> set tmps \<subseteq> unlinked es) (ensure body (unlink_all tmps))"
    using assms(2) unfolding only_def
    by (rule records_ensure[OF _ unl]) (auto simp: no_tmp no_tmp')
  show "session_made (es @ es') \<longrightarrow> T \<union> temp_files (es @ es') \<subseteq> unlinked (es @ es')"
    if "\<exists>a. es = [(New_session, a)] \<and> Inr x = Inr ()" "temp_files es' = {} \<and> set tmps \<subseteq> unlinked es'"
    for h es x es' and r :: "'b result"
    using that assms(1) by (auto simp: temp_files_def)
qed auto

section \<open>No process is left\<close>

definition launched :: "fx_record \<Rightarrow> bool" where
  "launched es \<longleftrightarrow> (\<exists>c p. (Popen c, Inr p) \<in> set es)"

definition killed :: "fx_record \<Rightarrow> bool" where
  "killed es \<longleftrightarrow> (\<exists>r. (Kill, r) \<in> set es)"

lemma process_sets [simp]:
  "launched (as @ bs) \<longleftrightarrow> launched as \<or> launched bs" "killed (as @ bs) \<longleftrightarrow> killed as \<or> killed bs"
  "\<not> launched []" "\<not> killed []"
  by (auto simp: launched_def killed_def)

lemma since_session_append:
  "list_all (\<lambda>er. fst er \<noteq> New_session) es \<Longrightarrow> since_session (h @ es) = rev es @ since_session h"
  unfolding since_session_def rev_append list_all_iff by (subst takeWhile_append2) auto

lemma proc_set_launched:
  "since_session h = [] \<Longrightarrow> list_all (\<lambda>er. fst er \<noteq> New_session) es \<Longrightarrow> launched es \<Longrightarrow> proc_set (h @ es)"
  by (auto simp: proc_set_def launched_def since_session_append list_ex_iff intro!: bexI)

lemma stop_kills: "records os_world (\<lambda>h es r. proc_set h \<longrightarrow> killed es) stop_session"
proof -
  have kill: "records os_world (\<lambda>_ es r. proc_set h \<longrightarrow> killed es)
      (if proc_set h then andthen (perform Kill) (\<lambda>_. quietly (perform Wait)) else give ())" for h
  proof (cases "proc_set h")
    case True
    have "records os_world (\<lambda>_ es r. killed es) (andthen (perform Kill) (\<lambda>_. quietly (perform Wait)))"
      by (rule records_andthen[where R = "\<lambda>_ es r. killed es" and S = "\<lambda>_ _ _ _. True"])
        (auto intro: records_perform records_mono[OF quietly_perform] simp: killed_def)
    with True show ?thesis by simp
  qed (simp add: records_give)
  have quiet: "records os_world (\<lambda>_ es r. r = Inr ()) (if mon_set h then quietly (perform Mon_close) else give ())" for h
    by (auto intro: records_give records_mono[OF quietly_perform])
  show ?thesis
    unfolding stop_session_def
  proof (rule records_andthen[where R = "\<lambda>h es r. es = [] \<and> r = Inr h" and S = "\<lambda>h _ es r. proc_set h \<longrightarrow> killed es"])
    show "records os_world (\<lambda>h es r. es = [] \<and> r = Inr h) recorded" by (rule records_recorded) simp
    show "records os_world (\<lambda>_ es r. proc_set h \<longrightarrow> killed es)
      (andthen (if mon_set h then quietly (perform Mon_close) else give ()) (\<lambda>_.
        if proc_set h then andthen (perform Kill) (\<lambda>_. quietly (perform Wait)) else give ()))" for h
      by (rule records_andthen[OF quiet kill]) auto
  qed auto
qed

abbreviation no_leak :: "fx_record \<Rightarrow> 'a result \<Rightarrow> bool" where
  "no_leak es r \<equiv> (\<not> is_ok r \<and> launched es \<longrightarrow> killed es)"

lemma guarded_body:
  fixes m :: "'a fx_act"
  assumes "only os_world (\<lambda>eff. eff \<noteq> New_session) m"
  shows "records os_world (\<lambda>h es r. since_session h = [] \<longrightarrow> no_leak es r)
    (attempt m (\<lambda>e. andthen stop_session (\<lambda>_. throw e)))"
proof -
  have no_launch: "list_all (\<lambda>er. cleanup_fx (fst er)) es \<Longrightarrow> \<not> launched es" for es
    by (fastforce simp: launched_def list_all_iff)
  have "records os_world (\<lambda>h es r. (proc_set h \<longrightarrow> killed es) \<and> \<not> launched es)
      (andthen stop_session (\<lambda>_. throw e :: 'a fx_act))" for e
    by (rule records_andthen[OF records_conj[OF stop_kills only_stop[unfolded only_def]],
          where S = "\<lambda>_ _ es _. es = []"])
      (auto intro: records_throw simp: no_launch)
  with assms show ?thesis
    unfolding only_def by (rule records_attempt) (auto simp: proc_set_launched)
qed

lemma guarded_session:
  assumes "only os_world (\<lambda>eff. eff \<noteq> New_session) m"
  shows "records os_world (\<lambda>h es r. no_leak es r)
    (andthen (tell New_session) (\<lambda>_. ensure (attempt m (\<lambda>e. andthen stop_session (\<lambda>_. throw e))) (unlink_all tmps)))"
proof (rule records_andthen[where R = "\<lambda>h es r. \<exists>a. es = [(New_session, a)] \<and> r = Inr ()"
      and S = "\<lambda>_ h es r. since_session h = [] \<longrightarrow> no_leak es r"])
  show "records os_world (\<lambda>h es r. \<exists>a. es = [(New_session, a)] \<and> r = Inr ()) (tell New_session)"
    by (rule records_tell) simp
  have unl: "records os_world (\<lambda>h es r. (r = Inr () \<and> set tmps \<subseteq> unlinked es) \<and> all_effects cleanup_fx h es r) (unlink_all tmps)"
    by (rule records_conj[OF unlink_all_removes only_unlink_all[unfolded only_def]])
  have no_launch: "list_all (\<lambda>er. cleanup_fx (fst er)) es \<Longrightarrow> \<not> launched es" for es
    by (fastforce simp: launched_def list_all_iff)
  show "records os_world (\<lambda>h es r. since_session h = [] \<longrightarrow> no_leak es r)
      (ensure (attempt m (\<lambda>e. andthen stop_session (\<lambda>_. throw e))) (unlink_all tmps))"
    by (rule records_ensure[OF guarded_body[OF assms] unl]) (auto simp: no_launch)
  show "no_leak (es @ es') r"
    if "\<exists>a. es = [(New_session, a)] \<and> Inr x = Inr ()" "since_session (h @ es) = [] \<longrightarrow> no_leak es' r"
    for h es x es' and r :: "'a result"
    using that by (auto simp: since_session_def launched_def)
qed auto

lemma no_leak_file:
  assumes "only os_world file_fx m" and "\<And>x. records os_world (\<lambda>h es r. no_leak es r) (f x)"
  shows "records os_world (\<lambda>h es r. no_leak es r) (andthen m f)"
proof -
  have no_launch: "list_all (\<lambda>er. file_fx (fst er)) es \<Longrightarrow> \<not> launched es" for es
    by (fastforce simp: launched_def list_all_iff)
  show ?thesis
    using assms(1) unfolding only_def
    by (rule records_andthen[OF _ assms(2)]) (auto simp: no_launch)
qed

section \<open>The USB host bridge\<close>

definition quoted :: "string \<Rightarrow> string" where "quoted s = [CHR 0x22] @ s @ [CHR 0x22]"

text \<open>\<open>wait_paused\<close>; \<open>n\<close> is the number of polls that the deadline leaves.\<close>

fun wait_paused :: "string \<Rightarrow> string option \<Rightarrow> nat \<Rightarrow> unit fx_act" where
  "wait_paused expected reissue 0 = throw (TimeoutError (''emulation never reached IsPaused='' @ expected))"
| "wait_paused expected reissue (Suc n) =
     andthen (perform (Exec ''machine IsPaused'')) (\<lambda>reply.
     if py_in expected reply then give ()
     else andthen (case reissue of None \<Rightarrow> give () | Some c \<Rightarrow> exec c)
       (\<lambda>_. wait_paused expected reissue n))"

definition terminal_command :: "string \<Rightarrow> nat \<times> nat \<Rightarrow> string" where
  "terminal_command name ip = ''emulation CreateServerSocketTerminal '' @ port_text (snd ip) @ '' ''
     @ quoted (name @ ''_cdc'' @ dec_of_nat (fst ip) @ ''_term'') @ '' false''"

definition connect_command :: "string \<Rightarrow> nat \<times> nat \<Rightarrow> string" where
  "connect_command name ip = ''connector Connect sysbus.'' @ name @ ''_cdc'' @ dec_of_nat (fst ip) @ '' '' @ name
     @ ''_cdc'' @ dec_of_nat (fst ip) @ ''_term''"

definition bridge_setup :: "boot_env \<Rightarrow> nat \<Rightarrow> nat \<Rightarrow> nat \<Rightarrow> string \<Rightarrow> string list fx_act" where
  "bridge_setup env polls cdc0_port cdc1_port name =
     andthen (exec (''include @'' @ bridge_cs env)) (\<lambda>_.
     andthen (exec ''pause'') (\<lambda>_.
     andthen (wait_paused ''True'' None polls) (\<lambda>_.
     andthen (exec (''sysbus.usbd CreateDualCdcAcmBridge '' @ quoted name)) (\<lambda>_.
     each (\<lambda>ip.
       andthen (exec (terminal_command name ip)) (\<lambda>_.
       andthen (exec (connect_command name ip)) (\<lambda>_.
       perform (Uart (snd ip))))) [(0, cdc0_port), (1, cdc1_port)]))))"

definition attach_command :: "string \<Rightarrow> string" where
  "attach_command name = ''sysbus.usbd AttachDualCdcAcmBridge '' @ quoted name"

definition attach_dual_cdc_bridge ::
  "boot_env \<Rightarrow> nat \<Rightarrow> nat \<Rightarrow> nat \<Rightarrow> string \<Rightarrow> string list fx_act"
where
  "attach_dual_cdc_bridge env polls cdc0_port cdc1_port name =
     andthen assert_mon (\<lambda>_.
     andthen (bridge_setup env polls cdc0_port cdc1_port name) (\<lambda>sockets.
     andthen (exec (attach_command name)) (\<lambda>_.
     andthen (exec ''start'') (\<lambda>_.
     andthen (wait_paused ''False'' (Some ''start'') polls) (\<lambda>_. give sockets)))))"

definition reply_seen :: "string \<Rightarrow> fx_record \<Rightarrow> bool" where
  "reply_seen expected es \<longleftrightarrow> (\<exists>t. (Exec ''machine IsPaused'', Inr t) \<in> set es \<and> py_in expected t)"

definition uart_open :: "nat \<Rightarrow> fx_record \<Rightarrow> bool" where
  "uart_open port es \<longleftrightarrow> (\<exists>t. (Uart port, Inr t) \<in> set es)"

lemma seen_append [simp]:
  "reply_seen e (as @ bs) \<longleftrightarrow> reply_seen e as \<or> reply_seen e bs"
  "uart_open p (as @ bs) \<longleftrightarrow> uart_open p as \<or> uart_open p bs"
  by (auto simp: reply_seen_def uart_open_def)

definition attaches :: "string \<Rightarrow> fx_record \<Rightarrow> bool" where
  "attaches name es \<longleftrightarrow> Exec (attach_command name) \<in> fst ` set es"

lemma attaches_append [simp]: "attaches n (as @ bs) \<longleftrightarrow> attaches n as \<or> attaches n bs" "\<not> attaches n []"
  by (auto simp: attaches_def)

lemma attaches_only: "list_all (\<lambda>er. fst er \<noteq> Exec (attach_command name)) es \<Longrightarrow> \<not> attaches name es"
  by (auto simp: attaches_def list_all_iff)

lemma exec_records: "records W (\<lambda>h es r. \<exists>a. es = [(Exec c, a)]) (exec c)"
  unfolding exec_def
  by (rule records_andthen[where R = "\<lambda>h es r. \<exists>a. es = [(Exec c, a)]" and S = "\<lambda>_ h es r. es = []"])
    (auto intro: records_perform records_give)

lemma exec_not_attach:
  "c \<noteq> attach_command name \<Longrightarrow> records W (\<lambda>h es r. \<not> attaches name es) (exec c)"
  by (rule records_mono[OF exec_records]) (auto simp: attaches_def)

lemma attach_command_neq:
  "''machine IsPaused'' \<noteq> attach_command name" "''start'' \<noteq> attach_command name" "''pause'' \<noteq> attach_command name"
  "''include @'' @ x \<noteq> attach_command name" "terminal_command name' ip \<noteq> attach_command name"
  "connect_command name' ip \<noteq> attach_command name"
  "''sysbus.usbd CreateDualCdcAcmBridge '' @ x \<noteq> attach_command name"
  by (simp_all add: attach_command_def terminal_command_def connect_command_def)

lemma wait_paused_records:
  assumes "reissue = None \<or> reissue = Some ''start''"
  shows "records W (\<lambda>h es r. \<not> attaches name es \<and> (is_ok r \<longrightarrow> reply_seen expected es)) (wait_paused expected reissue n)"
proof (induction n)
  case 0
  then show ?case by (simp add: records_throw)
next
  case (Suc n)
  have re: "records W (\<lambda>h es r. \<not> attaches name es) (case reissue of None \<Rightarrow> give () | Some c \<Rightarrow> exec c)"
    using assms by (elim disjE) (simp_all add: records_give exec_not_attach attach_command_neq)
  show ?case
    unfolding wait_paused.simps
  proof (rule records_andthen[where R = "\<lambda>h es r. es = [(Exec ''machine IsPaused'', r)]"
        and S = "\<lambda>reply h es r. \<not> attaches name es \<and> (is_ok r \<longrightarrow> py_in expected reply \<or> reply_seen expected es)"])
    show "records W (\<lambda>h es r. es = [(Exec ''machine IsPaused'', r)]) (perform (Exec ''machine IsPaused''))"
      by (rule records_perform) simp
    show "records W (\<lambda>h es r. \<not> attaches name es \<and> (is_ok r \<longrightarrow> py_in expected reply \<or> reply_seen expected es))
      (if py_in expected reply then give () else andthen (case reissue of None \<Rightarrow> give () | Some c \<Rightarrow> exec c)
         (\<lambda>_. wait_paused expected reissue n))" for reply
    proof (cases "py_in expected reply")
      case False
      have "records W (\<lambda>h es r. \<not> attaches name es \<and> (is_ok r \<longrightarrow> py_in expected reply \<or> reply_seen expected es))
         (andthen (case reissue of None \<Rightarrow> give () | Some c \<Rightarrow> exec c) (\<lambda>_. wait_paused expected reissue n))"
        by (rule records_andthen[OF re Suc.IH]) auto
      with False show ?thesis by simp
    qed (simp add: records_give)
  qed (auto simp: attaches_def reply_seen_def attach_command_neq attach_command_neq[symmetric])
qed

definition uart_loop_ok :: "string \<Rightarrow> nat list \<Rightarrow> fx_record \<Rightarrow> 'a result \<Rightarrow> bool" where
  "uart_loop_ok name ports es r \<longleftrightarrow> \<not> attaches name es \<and> (is_ok r \<longrightarrow> (\<forall>p \<in> set ports. uart_open p es))"

lemma uart_loop:
  assumes "\<And>ip. records W (\<lambda>h es r. \<not> attaches name es) (c1 ip)" "\<And>ip. records W (\<lambda>h es r. \<not> attaches name es) (c2 ip)"
  shows "records W (\<lambda>h es r. uart_loop_ok name (map snd ips) es r)
    (each (\<lambda>ip. andthen (c1 ip) (\<lambda>_. andthen (c2 ip) (\<lambda>_. perform (Uart (snd ip))))) ips)"
proof (induction ips)
  case Nil
  then show ?case by (simp add: records_give uart_loop_ok_def)
next
  case (Cons ip ips)
  have u: "records W (\<lambda>h es r. uart_loop_ok name [snd ip] es r) (perform (Uart (snd ip)))"
    by (rule records_perform) (auto simp: uart_loop_ok_def attaches_def uart_open_def elim: is_ok.elims)
  have "records W (\<lambda>h es r. uart_loop_ok name [snd ip] es r) (andthen (c2 ip) (\<lambda>_. perform (Uart (snd ip))))"
    by (rule records_andthen[OF assms(2) u]) (auto simp: uart_loop_ok_def)
  then have one: "records W (\<lambda>h es r. uart_loop_ok name [snd ip] es r)
      (andthen (c1 ip) (\<lambda>_. andthen (c2 ip) (\<lambda>_. perform (Uart (snd ip)))))"
    by (rule records_andthen[OF assms(1)]) (auto simp: uart_loop_ok_def)
  have rest: "records W (\<lambda>h es r. uart_loop_ok name (map snd ips) es r)
      (andthen (each (\<lambda>ip. andthen (c1 ip) (\<lambda>_. andthen (c2 ip) (\<lambda>_. perform (Uart (snd ip))))) ips)
        (\<lambda>ys. give (y # ys)))" for y
    by (rule records_andthen[OF Cons.IH, where S = "\<lambda>_ h es r. es = []"])
      (auto intro: records_give simp: uart_loop_ok_def)
  show ?case
    unfolding each.simps
    by (rule records_andthen[OF one rest]) (auto simp: uart_loop_ok_def)
qed

lemma bridge_setup_records:
  "records W (\<lambda>h es r. \<not> attaches name es \<and>
     (is_ok r \<longrightarrow> reply_seen ''True'' es \<and> uart_open cdc0 es \<and> uart_open cdc1 es))
     (bridge_setup env polls cdc0 cdc1 name)"
proof -
  let ?loop = "each (\<lambda>ip. andthen (exec (terminal_command name ip)) (\<lambda>_.
       andthen (exec (connect_command name ip)) (\<lambda>_. perform (Uart (snd ip))))) [(0, cdc0), (1, cdc1)]"
  have na: "records W (\<lambda>h es r. \<not> attaches name es) (exec (terminal_command name ip))"
    "records W (\<lambda>h es r. \<not> attaches name es) (exec (connect_command name ip))"
    "records W (\<lambda>h es r. \<not> attaches name es) (exec (''include @'' @ x))"
    "records W (\<lambda>h es r. \<not> attaches name es) (exec ''pause'')"
    "records W (\<lambda>h es r. \<not> attaches name es) (exec (''sysbus.usbd CreateDualCdcAcmBridge '' @ x))" for x ip
    by (rule exec_not_attach, rule attach_command_neq)+
  have loop: "records W (\<lambda>h es r. uart_loop_ok name [cdc0, cdc1] es r) ?loop"
    using uart_loop[where ?c1.0 = "\<lambda>ip. exec (terminal_command name ip)"
        and ?c2.0 = "\<lambda>ip. exec (connect_command name ip)" and ips = "[(0, cdc0), (1, cdc1)]", OF na(1,2)]
    by simp
  have "records W (\<lambda>h es r. uart_loop_ok name [cdc0, cdc1] es r)
      (andthen (exec (''sysbus.usbd CreateDualCdcAcmBridge '' @ quoted name)) (\<lambda>_. ?loop))"
    by (rule records_andthen[OF na(5) loop]) (auto simp: uart_loop_ok_def)
  then have "records W (\<lambda>h es r. \<not> attaches name es \<and>
     (is_ok r \<longrightarrow> reply_seen ''True'' es \<and> uart_open cdc0 es \<and> uart_open cdc1 es))
     (andthen (wait_paused ''True'' None polls) (\<lambda>_.
      andthen (exec (''sysbus.usbd CreateDualCdcAcmBridge '' @ quoted name)) (\<lambda>_. ?loop)))"
    by (rule records_andthen[OF wait_paused_records[OF disjI1[OF refl]]]) (auto simp: uart_loop_ok_def)
  then have "records W (\<lambda>h es r. \<not> attaches name es \<and>
     (is_ok r \<longrightarrow> reply_seen ''True'' es \<and> uart_open cdc0 es \<and> uart_open cdc1 es))
     (andthen (exec ''pause'') (\<lambda>_. andthen (wait_paused ''True'' None polls) (\<lambda>_.
      andthen (exec (''sysbus.usbd CreateDualCdcAcmBridge '' @ quoted name)) (\<lambda>_. ?loop))))"
    by (rule records_andthen[OF na(4)]) auto
  then show ?thesis
    unfolding bridge_setup_def by (rule records_andthen[OF na(3)]) auto
qed

text \<open>What the record of an attachment shows: everything is connected and paused before the
  attach command, and the emulation was seen running after it when the call succeeds.\<close>

definition attach_ordered :: "string \<Rightarrow> nat \<Rightarrow> nat \<Rightarrow> fx_record \<Rightarrow> 'a result \<Rightarrow> bool" where
  "attach_ordered name cdc0 cdc1 es r \<longleftrightarrow>
     (\<not> attaches name es \<and> \<not> is_ok r) \<or>
     (\<exists>xs a ys. es = xs @ (Exec (attach_command name), a) # ys \<and> \<not> attaches name xs \<and> \<not> attaches name ys \<and>
        reply_seen ''True'' xs \<and> uart_open cdc0 xs \<and> uart_open cdc1 xs \<and>
        (is_ok r \<longrightarrow> reply_seen ''False'' ys))"

lemma attach_tail:
  "records W (\<lambda>h es r. \<not> attaches name es \<and> (is_ok r \<longrightarrow> reply_seen ''False'' es))
     (andthen (exec ''start'') (\<lambda>_. andthen (wait_paused ''False'' (Some ''start'') polls) (\<lambda>_. give x)))"
proof -
  have "records W (\<lambda>h es r. \<not> attaches name es \<and> (is_ok r \<longrightarrow> reply_seen ''False'' es))
     (andthen (wait_paused ''False'' (Some ''start'') polls) (\<lambda>_. give x))"
    by (rule records_andthen[OF wait_paused_records[OF disjI2[OF refl]], where S = "\<lambda>_ h es r. es = []"])
      (auto intro: records_give)
  then show ?thesis
    by (rule records_andthen[OF exec_not_attach[OF attach_command_neq(2)]]) auto
qed

lemma attach_records:
  "records W (\<lambda>h es r. attach_ordered name cdc0 cdc1 es r) (attach_dual_cdc_bridge env polls cdc0 cdc1 name)"
proof -
  have late: "records W (\<lambda>h es r. \<exists>a ys. es = (Exec (attach_command name), a) # ys \<and> \<not> attaches name ys \<and>
        (is_ok r \<longrightarrow> reply_seen ''False'' ys))
     (andthen (exec (attach_command name)) (\<lambda>_. andthen (exec ''start'') (\<lambda>_.
        andthen (wait_paused ''False'' (Some ''start'') polls) (\<lambda>_. give s))))" for s :: "string list"
    by (rule records_andthen[OF exec_records attach_tail]) auto
  have "records W (\<lambda>h es r. attach_ordered name cdc0 cdc1 es r)
     (andthen (bridge_setup env polls cdc0 cdc1 name) (\<lambda>s. andthen (exec (attach_command name)) (\<lambda>_.
        andthen (exec ''start'') (\<lambda>_. andthen (wait_paused ''False'' (Some ''start'') polls) (\<lambda>_. give s)))))"
  proof (rule records_andthen[OF bridge_setup_records late])
    show "attach_ordered name cdc0 cdc1 (es @ es') r"
      if "\<not> attaches name es \<and> (is_ok (Inr x) \<longrightarrow> reply_seen ''True'' es \<and> uart_open cdc0 es \<and> uart_open cdc1 es)"
        "\<exists>a ys. es' = (Exec (attach_command name), a) # ys \<and> \<not> attaches name ys \<and> (is_ok r \<longrightarrow> reply_seen ''False'' ys)"
      for es es' r and x :: "string list"
      using that unfolding attach_ordered_def by (intro disjI2) (auto intro!: exI[of _ es])
  qed (auto simp: attach_ordered_def)
  then show ?thesis
    unfolding attach_dual_cdc_bridge_def
    by (rule records_andthen[OF only_assert_mon[of _ "\<lambda>_. False", unfolded only_def]])
      (auto simp: no_effects attach_ordered_def)
qed

section \<open>The boot contract\<close>

text \<open>
  What every boot function owes its caller: the emulation starts only after everything is
  connected and loaded, only cleanup follows it, and the temporary files are gone.
\<close>

locale boot_contract =
  fixes boot :: "'a fx_act"
  assumes starts_last: "staged_act boot"
    and cleans: "tidy {} boot"
begin

lemma contract:
  "os_world w \<Longrightarrow> \<exists>es. snd (boot w h) = h @ es \<and> staged es \<and> (session_made es \<longrightarrow> temp_files es \<subseteq> unlinked es)"
  using records_conj[OF starts_last cleans[unfolded tidy_def]] unfolding records_def by auto

end

lemma setup_step: "only os_world setup_fx m \<Longrightarrow> (\<And>x. staged_act (f x)) \<Longrightarrow> staged_act (andthen m f)"
  by (rule staged_andthen[OF setup_not_start])

lemma file_step: "only os_world file_fx m \<Longrightarrow> (\<And>x. staged_act (f x)) \<Longrightarrow> staged_act (andthen m f)"
  by (rule staged_andthen[OF file_not_start])

lemma session_step: "(\<And>x. staged_act (f x)) \<Longrightarrow> staged_act (andthen (tell New_session) f)"
  by (rule staged_andthen) (intro only_intros, simp)

lemma handler_cleanup: "only os_world cleanup_fx (andthen stop_session (\<lambda>_. throw e))"
  by (intro only_intros only_stop)

lemma uart_step: "(\<And>x. staged_act (f x)) \<Longrightarrow> staged_act (andthen (perform (Uart n)) f)"
  by (rule setup_step) (intro only_intros, simp)

lemma exec_step: "c \<noteq> ''start'' \<Longrightarrow> (\<And>x. staged_act (f x)) \<Longrightarrow> staged_act (andthen (exec c) f)"
  by (rule setup_step) (auto intro: only_exec)

lemma log_step:
  "(\<And>x. staged_act (f x)) \<Longrightarrow>
     staged_act (andthen (case l of None \<Rightarrow> give () | Some x \<Rightarrow> exec (''logFile @'' @ x)) f)"
  by (rule setup_step) (intro only_intros only_exec, simp)

lemmas staged_steps = staged_go staged_ensure[OF _ only_unlink_all] staged_attempt[OF _ handler_cleanup]
  uart_step exec_step log_step session_step file_step[OF only_files(1)] file_step[OF only_files(2)]
  file_step[OF only_files(3)] file_step[OF only_files(4)] setup_step[OF only_session_start]
  setup_step[OF only_assert_mon] setup_step[OF only_preload] setup_step[OF only_rtt_setup]

lemma single_staged: "staged_act (boot_single_real env a elf d rtt t)"
proof -
  have f: "only os_world file_fx (case d of None \<Rightarrow> give None | Some d \<Rightarrow> andthen (mk_ficr env d) (\<lambda>p. give (Some p)))"
    by (intro only_intros only_files)
  have r: "only os_world setup_fx (if rtt then andthen (rtt_setup env n tname) (\<lambda>s. give [s]) else give [])" for n tname
    by (intro only_setup)
  show ?thesis
    unfolding boot_single_real_def
    by (rule file_step[OF f]) (rule staged_steps setup_step[OF r])+
qed

lemma pair_staged: "staged_act (boot_ble_pair env a e1 e2 l)"
  unfolding boot_ble_pair_def by (rule staged_steps | simp)+

lemma wired_staged: "staged_act (boot_split_wired env a e1 e2)"
  unfolding boot_split_wired_def by (rule staged_steps)+

lemma usb_wired_staged: "staged_act (boot_usb_wired_split env a e1 e2)"
  unfolding boot_usb_wired_split_def by (rule staged_steps | simp)+

lemma split_staged: "staged_act (boot_ble_split env a e1 e2 e3 l)"
proof -
  have p: "only os_world setup_fx (each (\<lambda>mach. andthen (exec (''mach set '' @ [CHR 0x22] @ mach @ [CHR 0x22]))
      (\<lambda>_. preload ff n)) ms)" for ff n ms
    by (intro only_setup) simp
  show ?thesis
    unfolding boot_ble_split_def by (rule staged_steps setup_step[OF p] | simp)+
qed

text \<open>Bodies that neither make a temporary file nor a session.\<close>

definition plain_fx :: "fx \<Rightarrow> bool" where
  "plain_fx eff \<longleftrightarrow> setup_fx eff \<or> cleanup_fx eff \<or> eff = Exec ''start''"

lemma only_go: "only W plain_fx go"
  unfolding go_def by (intro only_andthen only_assert_mon only_exec) (simp add: plain_fx_def)

lemma setup_plain: "only W setup_fx m \<Longrightarrow> only W plain_fx m"
  by (erule only_mono) (simp add: plain_fx_def)

lemma cleanup_plain: "only W cleanup_fx m \<Longrightarrow> only W plain_fx m"
  by (erule only_mono) (simp add: plain_fx_def)

lemma plain_no_temp: "only W plain_fx m \<Longrightarrow> only W (\<lambda>eff. \<forall>a b. eff \<noteq> Mkstemp a b) m"
  by (erule only_mono) (auto simp: plain_fx_def)

lemma plain_no_session: "only W plain_fx m \<Longrightarrow> only W (\<lambda>eff. eff \<noteq> New_session) m"
  by (erule only_mono) (auto simp: plain_fx_def)

lemma plain_exec: "only W plain_fx (exec c)"
  by (rule only_exec) (simp add: plain_fx_def)

lemma plain_uart: "only W plain_fx (perform (Uart n))"
  by (rule only_perform) (simp add: plain_fx_def)

lemmas plain_steps = only_basic only_andthen only_attempt only_each only_if only_option plain_exec plain_uart
  only_go only_assert_mon cleanup_plain[OF only_stop] setup_plain[OF only_session_start]
  setup_plain[OF only_rtt_setup] setup_plain[OF only_preload]

lemma tidy_none: "only os_world (\<lambda>eff. \<forall>a b. eff \<noteq> Mkstemp a b) m \<Longrightarrow> tidy {} m"
  unfolding only_def tidy_def
  by (erule records_mono) (fastforce simp: temp_files_def list_all_iff)

lemmas tidy_steps = tidy_andthen[OF makes_files(1)] tidy_andthen[OF makes_files(2)]
  tidy_andthen[OF makes_files(3)] tidy_andthen[OF makes_files(4)]

lemma single_tidy: "tidy {} (boot_single_real env a elf d rtt t)"
proof (cases d)
  case None
  show ?thesis
    unfolding boot_single_real_def None option.case andthen_give
    by (rule tidy_steps)+ (rule tidy_session, simp, rule plain_no_temp, (rule plain_steps)+)
next
  case (Some x)
  show ?thesis
    unfolding boot_single_real_def Some option.case andthen_assoc andthen_give
    by (rule tidy_steps)+ (rule tidy_session, simp, rule plain_no_temp, (rule plain_steps)+)
qed

lemma pair_tidy: "tidy {} (boot_ble_pair env a e1 e2 l)"
  unfolding boot_ble_pair_def
  by (rule tidy_steps)+ (rule tidy_session, simp, rule plain_no_temp, (rule plain_steps)+)

lemma wired_tidy: "tidy {} (boot_split_wired env a e1 e2)"
  unfolding boot_split_wired_def
  by (rule tidy_none) (rule only_andthen, rule only_perform, simp, rule plain_no_temp, (rule plain_steps)+)

lemma usb_wired_tidy: "tidy {} (boot_usb_wired_split env a e1 e2)"
  unfolding boot_usb_wired_split_def
  by (rule tidy_steps)+ (rule tidy_session, simp, rule plain_no_temp, (rule plain_steps)+)

lemma split_tidy: "tidy {} (boot_ble_split env a e1 e2 e3 l)"
  unfolding boot_ble_split_def
  by (rule tidy_steps)+ (rule tidy_session, simp, rule plain_no_temp, (rule plain_steps)+)

interpretation single: boot_contract "boot_single_real env a elf d rtt t" for env a elf d rtt t
  by unfold_locales (rule single_staged single_tidy)+

interpretation ble_pair: boot_contract "boot_ble_pair env a e1 e2 l" for env a e1 e2 l
  by unfold_locales (rule pair_staged pair_tidy)+

interpretation split_wired: boot_contract "boot_split_wired env a e1 e2" for env a e1 e2
  by unfold_locales (rule wired_staged wired_tidy)+

interpretation usb_wired: boot_contract "boot_usb_wired_split env a e1 e2" for env a e1 e2
  by unfold_locales (rule usb_wired_staged usb_wired_tidy)+

interpretation ble_split: boot_contract "boot_ble_split env a e1 e2 e3 l" for env a e1 e2 e3 l
  by unfold_locales (rule split_staged split_tidy)+

lemma single_no_leak:
  "records os_world (\<lambda>h es r. no_leak es r) (boot_single_real env a elf d rtt t)"
proof -
  have f: "only os_world file_fx (case d of None \<Rightarrow> give None | Some d \<Rightarrow> andthen (mk_ficr env d) (\<lambda>p. give (Some p)))"
    by (intro only_intros only_files)
  show ?thesis
    unfolding boot_single_real_def
    by (rule no_leak_file[OF f], rule no_leak_file[OF only_files(2)], rule no_leak_file[OF only_files(4)],
        rule guarded_session, rule plain_no_session, (rule plain_steps)+)
qed

lemma usb_wired_no_leak:
  "records os_world (\<lambda>h es r. no_leak es r) (boot_usb_wired_split env a e1 e2)"
  unfolding boot_usb_wired_split_def
  by (rule no_leak_file[OF only_files(2)], rule no_leak_file[OF only_files(4)],
      rule guarded_session, rule plain_no_session, (rule plain_steps)+)

section \<open>The remaining helpers\<close>

text \<open>\<open>find_or_install_renode\<close>: \<open>script\<close> is the outcome of the install script, \<open>None\<close> when it timed
  out or could not be run; \<open>is_file'\<close> is the file system after it.\<close>

definition find_or_install_renode ::
  "(string \<Rightarrow> bool) \<Rightarrow> (string \<Rightarrow> bool) \<Rightarrow> (string \<Rightarrow> bool) \<Rightarrow> string \<Rightarrow> string \<Rightarrow> string \<Rightarrow>
     (int \<times> string) option \<Rightarrow> string option"
where
  "find_or_install_renode is_file is_exec is_file' root version install_script script =
     (let launcher = path_join (path_join root version) ''renode'' in
      if is_file launcher \<and> is_exec launcher then Some launcher
      else if \<not> is_file install_script then None
      else
        (case script of
           None \<Rightarrow> None
         | Some (rc, out) \<Rightarrow>
             if rc \<noteq> 0 then None
             else
               let last_line = (if py_strip out \<noteq> [] then last (splitlines (py_strip out)) else []) in
               if last_line \<noteq> [] \<and> is_file' last_line then Some last_line
               else if is_file' launcher then Some launcher else None))"

lemma find_or_install_renode_is_file:
  "find_or_install_renode is_file is_exec is_file' root version install script = Some p \<Longrightarrow>
     is_file p \<or> is_file' p"
  by (auto simp: find_or_install_renode_def Let_def split: if_splits option.splits)

definition raise_global_quantum :: "string \<Rightarrow> unit fx_act" where
  "raise_global_quantum q = andthen assert_mon (\<lambda>_. exec (''emulation SetGlobalQuantum '' @ quoted q))"

text \<open>\<open>compile_protos\<close>: the protoc command; a failing one is a \<open>RuntimeError\<close> with its error text.\<close>

definition protoc_command :: "string list \<Rightarrow> string list \<Rightarrow> string \<Rightarrow> string list" where
  "protoc_command proto_files include_dirs out_dir =
     [''protoc''] @ map (\<lambda>d. ''-I'' @ d) include_dirs @ [''--python_out='' @ out_dir] @ proto_files"

definition compile_protos ::
  "(string list \<Rightarrow> int \<times> string) \<Rightarrow> string list \<Rightarrow> string list \<Rightarrow> string \<Rightarrow> string result"
where
  "compile_protos protoc proto_files include_dirs out_dir =
     (case protoc (protoc_command proto_files include_dirs out_dir) of
        (rc, err) \<Rightarrow> if rc \<noteq> 0 then Inl (RuntimeError (''protoc failed: '' @ err)) else Inr out_dir)"

text \<open>A console socket as the answers of its \<open>recv\<close> calls; when they run out, nothing more comes.\<close>

datatype console = Chunk "byte list" | Quiet | Closed

fun drain :: "console list \<Rightarrow> byte list \<times> console list" where
  "drain [] = ([], [])"
| "drain (Quiet # cs) = ([], cs)"
| "drain (Closed # cs) = ([], Closed # cs)"
| "drain (Chunk bs # cs) = (if bs = [] then ([], cs) else (bs @ fst (drain cs), snd (drain cs)))"

text \<open>\<open>decode\<close> is \<open>bytes.decode(errors="replace")\<close>; \<open>n\<close> is the number of polls the deadline leaves.\<close>

definition drain_text :: "(byte list \<Rightarrow> string) \<Rightarrow> console list \<Rightarrow> string \<times> console list" where
  "drain_text decode cs = (decode (fst (drain cs)), snd (drain cs))"

fun wait_for_text ::
  "(byte list \<Rightarrow> string) \<Rightarrow> string \<Rightarrow> nat \<Rightarrow> string \<Rightarrow> console list \<Rightarrow> string \<times> console list"
where
  "wait_for_text decode needle 0 buf cs = (buf, cs)"
| "wait_for_text decode needle (Suc n) buf cs =
     (let (t, cs') = drain_text decode cs; buf' = buf @ t in
      if py_in needle buf' then (buf', cs') else wait_for_text decode needle n buf' cs')"

lemma wait_for_text_extends:
  "\<exists>t. fst (wait_for_text decode needle n buf cs) = buf @ t"
proof (induction n arbitrary: buf cs)
  case (Suc n)
  obtain t cs' where d: "drain_text decode cs = (t, cs')" by fastforce
  from Suc.IH[of "buf @ t" cs'] show ?case by (auto simp: d Let_def)
qed simp

section \<open>Properties\<close>


definition sample_boot_env :: boot_env where
  "sample_boot_env = \<lparr>ficr_text = [], ccm_text = [], platform_text = (\<lambda>_. []), models_dir = ''/m'',
     rtt_helper = ''/rtt.py'', bridge_cs = ''/b.cs'', launcher = ''/renode''\<rparr>"

definition sample_boot_args :: boot_args where
  "sample_boot_args = \<lparr>port_base = 30000, monitor_tries = 2, nvs_addr = 0xEC000, nvs_size = 0x8000\<rparr>"

text \<open>A world in which everything works until a UART socket is to be connected.\<close>

fun deaf_uarts :: "(fx, string) world" where
  "deaf_uarts h (Uart n) = Inl (TimeoutError [])"
| "deaf_uarts h (Mkstemp a b) = Inr (''/tmp/x'' @ b)"
| "deaf_uarts h eff = Inr []"

lemma deaf_uarts_os: "os_world deaf_uarts"
proof -
  have "deaf_uarts h eff = Inl e \<Longrightarrow> os_error e" for h eff e by (cases eff) auto
  then show ?thesis by (auto simp: os_world_def)
qed


text \<open>
  C26. A failed boot leaves no Renode process.  When \<open>boot_single_real\<close> or \<open>boot_usb_wired_split\<close>
  raises after Renode was launched, it has killed it, wherever the failure was.
\<close>

theorem failed_boot_kills:
  assumes "os_world w"
    and "boot \<in> {boot_single_real env a e1 d rtt t, boot_usb_wired_split env a e1 e2}"
    and "boot w h = (Inl e, h')"
  shows "\<exists>es. h' = h @ es \<and> (launched es \<longrightarrow> killed es)"
proof -
  have "records os_world (\<lambda>h es r. no_leak es r) boot"
    using assms(2) single_no_leak usb_wired_no_leak by blast
  from recordsD[OF this assms(1,3)] show ?thesis by auto
qed

theorem failed_boot_kills_witness:
  "\<exists>es h'. boot_usb_wired_split sample_boot_env sample_boot_args ''c'' ''p'' deaf_uarts [] = (Inl (TimeoutError []), h') \<and>
     h' = es \<and> launched es \<and> killed es"
proof -
  obtain h' where r: "boot_usb_wired_split sample_boot_env sample_boot_args ''c'' ''p'' deaf_uarts [] = (Inl (TimeoutError []), h')"
    and l: "launched h'"
    by (simp add: boot_usb_wired_split_def mk_real_repl_def write_ff_binary_def stop_session_def proc_set_def
        andthen_def act_simps ensure_def session_start_def sample_boot_args_def attempt_def numeral_2_eq_2
        assert_mon_def mon_set_def since_session_def unlink_all_def quietly_def launched_def)
  show ?thesis
    using failed_boot_kills[OF deaf_uarts_os, where boot = "boot_usb_wired_split sample_boot_env sample_boot_args ''c'' ''p''"
        and env = sample_boot_env and a = sample_boot_args and ?e1.0 = "''c''" and ?e2.0 = "''p''", OF _ r] r l
    by auto
qed

text \<open>The two other topologies with temporary files have no such handler: a failed boot leaves the process.\<close>

lemma ble_pair_boot_leaks:
  "\<exists>es e. boot_ble_pair sample_boot_env sample_boot_args ''d'' ''h'' None deaf_uarts [] = (Inl e, es) \<and>
     launched es \<and> \<not> killed es"
  by (simp add: boot_ble_pair_def mk_ficr_def mk_real_repl_def mk_ccm_repl_def write_ff_binary_def
      andthen_def act_simps ensure_def session_start_def sample_boot_args_def attempt_def numeral_2_eq_2
      assert_mon_def mon_set_def since_session_def unlink_all_def quietly_def launched_def killed_def)

text \<open>
  C27. USB enumeration cannot start too early.  \<open>attach_dual_cdc_bridge\<close> issues the attach command at
  most once, and only after the emulation was seen paused and both TCP clients are connected; it
  succeeds only after the emulation was seen running again.
\<close>

theorem bridge_attach_ordered:
  "\<exists>es. snd (attach_dual_cdc_bridge env polls cdc0 cdc1 name w h) = h @ es \<and>
     attach_ordered name cdc0 cdc1 es (fst (attach_dual_cdc_bridge env polls cdc0 cdc1 name w h))"
  using attach_records[of "\<lambda>_. True" name cdc0 cdc1 env polls] unfolding records_def by simp

text \<open>
  The per-machine FICR carries the identity it was made for.  From a model file with one
  assignment of each address constant, the rewritten file assigns exactly the low and the high
  half of the 48-bit address, and every other line is as it was.
\<close>

lemma ficr_source_injects:
  assumes "filter (prefix KEY0) (split_char lf src) = [l0]" and "filter (prefix KEY1) (split_char lf src) = [l1]"
    and "0 \<le> a" and "a < 2 ^ 48"
  shows "\<exists>lo hi. read_constant KEY0 (ficr_source src a) = Some lo \<and> read_constant KEY1 (ficr_source src a) = Some hi \<and>
    int_of_hex hi * 2 ^ 32 + int_of_hex lo = a \<and>
    filter (\<lambda>l. \<not> prefix KEY0 l \<and> \<not> prefix KEY1 l) (split_char lf (ficr_source src a)) =
      filter (\<lambda>l. \<not> prefix KEY0 l \<and> \<not> prefix KEY1 l) (split_char lf src)"
proof -
  let ?n0 = "KEY0 @ py_hex (ficr_addr0 a)" and ?n1 = "KEY1 @ py_hex (ficr_addr1 a)"
  have keys: "prefix KEY0 l \<Longrightarrow> \<not> prefix KEY1 l" for l
    by (auto simp: KEY0_def KEY1_def prefix_def)
  have keys': "prefix KEY1 l \<Longrightarrow> \<not> prefix KEY0 l" for l using keys by blast
  have clean: "lf \<notin> set ?n0" "lf \<notin> set ?n1"
    using py_hex_clean by (auto simp: KEY0_def KEY1_def lf_def)
  let ?ls = "split_char lf src"
  have sp: "split_char lf (ficr_source src a) = sub_first KEY1 ?n1 (sub_first KEY0 ?n0 ?ls)"
    unfolding ficr_source_def split_re_sub_line[OF clean(2)] split_re_sub_line[OF clean(1)] ..
  have f1: "filter (prefix KEY1) (sub_first KEY1 ?n1 (sub_first KEY0 ?n0 ?ls)) = [?n1]"
  proof (rule sub_first_own)
    have "filter (prefix KEY1) (sub_first KEY0 ?n0 ?ls) = filter (prefix KEY1) ?ls"
      by (rule sub_first_filter) (use keys in auto)
    then show "filter (prefix KEY1) (sub_first KEY0 ?n0 ?ls) = [l1]" using assms(2) by simp
  qed simp
  have "filter (prefix KEY0) (sub_first KEY1 ?n1 (sub_first KEY0 ?n0 ?ls)) = filter (prefix KEY0) (sub_first KEY0 ?n0 ?ls)"
    by (rule sub_first_filter) (use keys' in auto)
  then have f0: "filter (prefix KEY0) (sub_first KEY1 ?n1 (sub_first KEY0 ?n0 ?ls)) = [?n0]"
    using sub_first_own[OF _ assms(1), of ?n0] by simp
  have tw: "takeWhile (\<lambda>c. c \<noteq> CHR '' '') (py_hex i) = py_hex i" for i
    using py_hex_clean(2)[of i] by (simp add: takeWhile_eq_all_conv) metis
  have lo: "read_constant KEY0 (ficr_source src a) = Some (py_hex (ficr_addr0 a))"
    by (simp add: read_constant_def sp f0 tw)
  have hi: "read_constant KEY1 (ficr_source src a) = Some (py_hex (ficr_addr1 a))"
    by (simp add: read_constant_def sp f1 tw)
  have rest: "filter (\<lambda>l. \<not> prefix KEY0 l \<and> \<not> prefix KEY1 l) ls' = filter (\<lambda>l. \<not> prefix KEY0 l) (filter (\<lambda>l. \<not> prefix KEY1 l) ls')"
    "filter (\<lambda>l. \<not> prefix KEY0 l \<and> \<not> prefix KEY1 l) ls' = filter (\<lambda>l. \<not> prefix KEY1 l) (filter (\<lambda>l. \<not> prefix KEY0 l) ls')" for ls'
    by (simp_all add: conj_commute)
  have others: "filter (\<lambda>l. \<not> prefix KEY0 l \<and> \<not> prefix KEY1 l) (sub_first KEY1 ?n1 (sub_first KEY0 ?n0 ?ls)) =
      filter (\<lambda>l. \<not> prefix KEY0 l \<and> \<not> prefix KEY1 l) ?ls"
    unfolding rest(1)[of "sub_first KEY1 _ _"] sub_first_other_lines[OF prefixI[OF refl], of KEY1]
    unfolding rest(1)[symmetric] rest(2) sub_first_other_lines[OF prefixI[OF refl], of KEY0] ..
  have "ficr_addr1 a = a div 2 ^ 32" "ficr_addr0 a = a mod 2 ^ 32"
    using assms(3,4) by (simp_all add: ficr_addr1_def ficr_addr0_def drop_bit_eq_div and_ones[of _ 16, simplified] and_ones[of _ 32, simplified])
  then have "ficr_addr1 a * 2 ^ 32 + ficr_addr0 a = a" by (simp add: div_mult_mod_eq)
  then show ?thesis using lo hi others by (simp add: sp)
qed

definition sample_ficr :: string where
  "sample_ficr = ''# model'' @ [lf] @ ''DEVICEADDR0 = 0x1  # low'' @ [lf] @ ''DEVICEADDR1 = 0x2'' @ [lf]"

lemma sample_ficr_lines:
  "split_char lf sample_ficr = [''# model'', ''DEVICEADDR0 = 0x1  # low'', ''DEVICEADDR1 = 0x2'', []]"
  by (simp add: sample_ficr_def lf_def)

lemma ficr_source_injects_witness:
  "\<exists>lo hi. read_constant KEY0 (ficr_source sample_ficr 0xC0E7E7E7E7E8) = Some lo \<and>
    read_constant KEY1 (ficr_source sample_ficr 0xC0E7E7E7E7E8) = Some hi \<and>
    int_of_hex hi * 2 ^ 32 + int_of_hex lo = 0xC0E7E7E7E7E8 \<and>
    filter (\<lambda>l. \<not> prefix KEY0 l \<and> \<not> prefix KEY1 l) (split_char lf (ficr_source sample_ficr 0xC0E7E7E7E7E8)) =
      filter (\<lambda>l. \<not> prefix KEY0 l \<and> \<not> prefix KEY1 l) (split_char lf sample_ficr)"
  by (rule ficr_source_injects) (simp_all add: sample_ficr_lines KEY0_def KEY1_def)

end
