(* ===== verification/Smoke_Checks.thy ===== *)
theory Smoke_Checks
  imports Renode_Harness Complex_Main
begin

text \<open>
  The smoke tests of \<open>scripts/lib/renode/renode_smoke.py\<close>, as actions over the effects of theory
  Renode_Harness: what they read from the monitor and the consoles, the Studio RPC exchanges, the
  six runs with their cleanup, and the retries.  A loop with a deadline has the number of rounds
  that the deadline leaves as an argument; a pause (\<open>time.sleep\<close>) is no effect.  Virtual times are
  \<^typ>\<open>rat\<close>; texts of failures are shortened and progress output is left out.
\<close>

section \<open>Reading the monitor\<close>

definition ESC_CHAR :: char where "ESC_CHAR = CHR 0x1B"

definition is_digit :: "char \<Rightarrow> bool" where
  "is_digit c = (let n = (of_char c :: nat) in 48 \<le> n \<and> n \<le> 57)"

text \<open>\<open>re.sub(r"\x1b\[[0-9;]*m", "", s)\<close>: what follows a colour code that starts here, if one does.\<close>

definition after_code :: "string \<Rightarrow> string option" where
  "after_code s =
     (if prefix [ESC_CHAR, CHR ''['' ] s then
        (case dropWhile (\<lambda>c. is_digit c \<or> c = CHR '';'') (drop 2 s) of
           [] \<Rightarrow> None
         | m # rest \<Rightarrow> if m = CHR ''m'' then Some rest else None)
      else None)"

lemma after_code_shorter: "after_code s = Some rest \<Longrightarrow> length rest < length s"
proof -
  assume a: "after_code s = Some rest"
  then have "dropWhile (\<lambda>c. is_digit c \<or> c = CHR '';'') (drop 2 s) = CHR ''m'' # rest"
    by (auto simp: after_code_def split: if_splits list.splits)
  then have "length (CHR ''m'' # rest) \<le> length (drop 2 s)" by (metis length_dropWhile_le)
  then show ?thesis by simp
qed

function strip_ansi :: "string \<Rightarrow> string" where
  "strip_ansi [] = []"
| "strip_ansi (c # cs) =
     (case after_code (c # cs) of Some rest \<Rightarrow> strip_ansi rest | None \<Rightarrow> c # strip_ansi cs)"
  by pat_completeness auto
termination
  by (relation "measure length") (auto dest: after_code_shorter)

definition clean_lines :: "string \<Rightarrow> string list" where
  "clean_lines text = map py_strip (splitlines (strip_ansi text))"

definition clean_symbol :: "string \<Rightarrow> string" where
  "clean_symbol text =
     (case filter (\<lambda>l. \<not> (l = [] \<or> prefix ''sysbus FindSymbolAt'' l \<or> prefix ''('' l)) (clean_lines text) of
        [] \<Rightarrow> [] | l # _ \<Rightarrow> l)"

definition flag_of :: "string \<Rightarrow> bool option" where
  "flag_of text =
     (case filter (\<lambda>l. l = ''True'' \<or> l = ''False'') (clean_lines text) of
        [] \<Rightarrow> None | l # _ \<Rightarrow> Some (l = ''True''))"

text \<open>\<open>_parse_virtual_seconds\<close>: a match of the expression at the start of the text, and the first match.\<close>

definition TIME_LABEL :: string where "TIME_LABEL = ''Elapsed Virtual Time:''"

definition digits_of :: "string \<Rightarrow> string" where "digits_of s = takeWhile is_digit s"

definition time_at :: "string \<Rightarrow> rat option" where
  "time_at s =
     (if \<not> prefix TIME_LABEL s then None
      else
        (let s1 = dropWhile py_space (drop (length TIME_LABEL) s);
             h = digits_of s1; s2 = drop (length h) s1;
             m = digits_of (drop 1 s2); s3 = drop (length m) (drop 1 s2);
             sec = digits_of (drop 1 s3); s4 = drop (length sec) (drop 1 s3);
             frac = (if take 1 s4 = ''.'' then digits_of (drop 1 s4) else []) in
         if h \<noteq> [] \<and> take 1 s2 = '':'' \<and> m \<noteq> [] \<and> take 1 s3 = '':'' \<and> sec \<noteq> []
         then Some (of_nat (nat_of_dec h * 3600 + nat_of_dec m * 60 + nat_of_dec sec)
                + of_nat (nat_of_dec frac) / 10 ^ length frac)
         else None))"

fun parse_virtual_seconds :: "string \<Rightarrow> rat option" where
  "parse_virtual_seconds [] = None"
| "parse_virtual_seconds (c # cs) =
     (case time_at (c # cs) of Some v \<Rightarrow> Some v | None \<Rightarrow> parse_virtual_seconds cs)"

text \<open>\<open>_parse_virtual_seconds(...) or vt\<close>: no reading and a reading of 0 keep the old value.\<close>

definition next_vt :: "string \<Rightarrow> rat \<Rightarrow> rat" where
  "next_vt reply vt = (case parse_virtual_seconds reply of None \<Rightarrow> vt | Some v \<Rightarrow> if v = 0 then vt else v)"

text \<open>\<open>re.search(r"0x[0-9A-Fa-f]+", s)\<close>, or the stripped text.\<close>

fun find_hex :: "string \<Rightarrow> string option" where
  "find_hex [] = None"
| "find_hex (c # cs) =
     (let ds = takeWhile (\<lambda>d. hex_val d \<noteq> None) (drop 1 cs) in
      if c = CHR ''0'' \<and> take 1 cs = ''x'' \<and> ds \<noteq> [] then Some (''0x'' @ ds) else find_hex cs)"

definition pc_of :: "string \<Rightarrow> string" where
  "pc_of reply = (case find_hex reply of None \<Rightarrow> py_strip reply | Some pc \<Rightarrow> pc)"

section \<open>Consoles\<close>

definition mon :: "string \<Rightarrow> string fx_act" where "mon c = perform (Exec c)"

text \<open>\<open>wait_for_text\<close> and the settling loop, as sequences of \<open>drain_text\<close> calls.\<close>

fun await_text :: "nat \<Rightarrow> string \<Rightarrow> string \<Rightarrow> string \<Rightarrow> string fx_act" where
  "await_text 0 s needle buf = give buf"
| "await_text (Suc n) s needle buf =
     andthen (perform (Drain s)) (\<lambda>t.
     if py_in needle (buf @ t) then give (buf @ t) else await_text n s needle (buf @ t))"

definition settle :: "nat \<Rightarrow> string \<Rightarrow> unit fx_act" where
  "settle n s = andthen (each (\<lambda>_. perform (Drain s)) [0..<n]) (\<lambda>_. give ())"

definition expect_text :: "nat \<Rightarrow> string \<Rightarrow> string \<Rightarrow> string \<Rightarrow> unit fx_act" where
  "expect_text n s needle failure =
     andthen (await_text n s needle []) (\<lambda>text.
     if py_in needle text then give () else throw (AssertionError (failure @ text)))"

definition close_sock :: "string \<Rightarrow> unit fx_act" where
  "close_sock s = andthen (perform (Sock_close s)) (\<lambda>_. give ())"

definition close_all :: "string list \<Rightarrow> unit fx_act" where
  "close_all ss = andthen (each close_sock ss) (\<lambda>_. give ())"

section \<open>Studio RPC checks\<close>

text \<open>
  What the checks look at in a decoded \<open>Response\<close>, and the generated message classes: request
  encoders and the parser.  \<open>Rr id body\<close> is a \<open>request_response\<close>, \<open>Note sub kind\<close> a notification of
  subsystem \<open>sub\<close> whose core part, if any, is \<open>kind\<close>.
\<close>

datatype rr_body = Core_info string | Custom_list "(nat \<times> string) list" | Other_body "string option"

datatype response = Rr nat rr_body | Note "string option" "string option" | No_kind

record studio_api =
  device_info_request :: "nat \<Rightarrow> byte list"
  has_custom :: bool
  list_custom_request :: "byte list"
  set_lock_request :: "nat \<Rightarrow> nat \<Rightarrow> byte list \<Rightarrow> byte list"
  parse_response :: "byte list \<Rightarrow> response result"

text \<open>The answer of \<open>read_frame\<close>: no text for \<open>None\<close>, otherwise a mark and the payload bytes as characters.\<close>

definition frame_reply :: "string \<Rightarrow> byte list option" where
  "frame_reply t = (case t of [] \<Rightarrow> None | _ # bs \<Rightarrow> Some (map of_char bs))"

definition rpc_send :: "string \<Rightarrow> byte list \<Rightarrow> unit fx_act" where
  "rpc_send s bytes = andthen (perform (Rpc_send s bytes)) (\<lambda>_. give ())"

definition rpc_receive :: "string \<Rightarrow> byte list option fx_act" where
  "rpc_receive s = andthen (perform (Rpc_receive s)) (\<lambda>t. give (frame_reply t))"

definition fail :: "string \<Rightarrow> 'a fx_act" where "fail m = throw (AssertionError m)"

text \<open>\<open>_assert_get_device_info\<close>, from the round \<open>i\<close> on.\<close>

definition device_name :: "studio_api \<Rightarrow> bool \<Rightarrow> byte list option \<Rightarrow> string fx_act" where
  "device_name api nonempty reply =
     (case reply of
        None \<Rightarrow> fail ''no Studio RPC response frame received (timeout)''
      | Some bytes \<Rightarrow>
          (case parse_response api bytes of
             Inl e \<Rightarrow> throw e
           | Inr (Rr _ (Core_info name)) \<Rightarrow>
               if nonempty \<and> name = [] then fail ''GetDeviceInfoResponse.name was empty'' else give name
           | Inr (Rr _ _) \<Rightarrow> fail ''expected core subsystem in response''
           | Inr _ \<Rightarrow> fail ''expected a request_response''))"

fun device_info_rounds :: "studio_api \<Rightarrow> string \<Rightarrow> bool \<Rightarrow> nat list \<Rightarrow> string \<Rightarrow> string fx_act" where
  "device_info_rounds api s nonempty [] name = give name"
| "device_info_rounds api s nonempty (i # is) name =
     andthen (rpc_send s (device_info_request api (i + 1))) (\<lambda>_.
     andthen (rpc_receive s) (\<lambda>reply.
     andthen (device_name api nonempty reply) (\<lambda>name'.
     device_info_rounds api s nonempty is name')))"

definition assert_get_device_info :: "studio_api \<Rightarrow> string \<Rightarrow> bool \<Rightarrow> nat \<Rightarrow> string fx_act" where
  "assert_get_device_info api s nonempty rounds = device_info_rounds api s nonempty [0..<rounds] []"

text \<open>\<open>_drain_frames\<close> reads until nothing comes; \<open>n\<close> bounds the frames that still come.\<close>

fun drain_frames :: "nat \<Rightarrow> string \<Rightarrow> unit fx_act" where
  "drain_frames 0 s = throw (RuntimeError ''frames keep coming'')"
| "drain_frames (Suc n) s =
     andthen (rpc_receive s) (\<lambda>reply. case reply of None \<Rightarrow> give () | Some _ \<Rightarrow> drain_frames n s)"

definition DEVTOOL_SET_LOCK_LOCKED :: "byte list" where "DEVTOOL_SET_LOCK_LOCKED = [0x0A, 0x02, 0x08, 0x01]"
definition DEVTOOL_SET_LOCK_UNLOCKED :: "byte list" where "DEVTOOL_SET_LOCK_UNLOCKED = [0x0A, 0x02, 0x08, 0x02]"

definition unlock_id :: nat where "unlock_id = 92"

definition is_lock_note :: "response \<Rightarrow> bool" where
  "is_lock_note r = (r = Note (Some ''core'') (Some ''lock_state_changed''))"

fun answers :: "nat \<Rightarrow> response \<Rightarrow> bool" where
  "answers i (Rr j _) = (i = j)"
| "answers i _ = False"

text \<open>The loop of the burst: what was seen, the notification and the response.\<close>

fun burst_loop :: "studio_api \<Rightarrow> string \<Rightarrow> nat \<Rightarrow> bool \<Rightarrow> bool \<Rightarrow> (bool \<times> bool) fx_act" where
  "burst_loop api s 0 note resp = give (note, resp)"
| "burst_loop api s (Suc n) note resp =
     (if note \<and> resp then give (note, resp)
      else andthen (rpc_receive s) (\<lambda>reply.
        case reply of
          None \<Rightarrow> give (note, resp)
        | Some bytes \<Rightarrow>
            (case parse_response api bytes of
               Inl e \<Rightarrow> burst_loop api s n note resp
             | Inr r \<Rightarrow> burst_loop api s n (note \<or> is_lock_note r) (resp \<or> answers unlock_id r))))"

definition burst_verdict :: "bool \<times> bool \<Rightarrow> unit fx_act" where
  "burst_verdict = (\<lambda>(note, resp).
     if \<not> resp \<and> \<not> note then fail ''unlock produced no device->host frames at all (timeout)''
     else if \<not> resp then fail ''unlock notification arrived but its CallResponse did not''
     else if \<not> note then fail ''unlock CallResponse arrived but the lock_state_changed notification did not''
     else give ())"

definition custom_index :: "(nat \<times> string) list \<Rightarrow> nat option" where
  "custom_index subs =
     (case filter (\<lambda>(i, ident). py_in ''devtool'' ident) subs of [] \<Rightarrow> None | (i, _) # _ \<Rightarrow> Some i)"

definition unlock_exchange :: "studio_api \<Rightarrow> string \<Rightarrow> nat \<Rightarrow> nat \<Rightarrow> nat \<Rightarrow> unit fx_act" where
  "unlock_exchange api s frames polls index =
     andthen (rpc_send s (set_lock_request api 91 index DEVTOOL_SET_LOCK_LOCKED)) (\<lambda>_.
     andthen (drain_frames frames s) (\<lambda>_.
     andthen (rpc_send s (set_lock_request api unlock_id index DEVTOOL_SET_LOCK_UNLOCKED)) (\<lambda>_.
     andthen (burst_loop api s polls False False) burst_verdict)))"

definition listed_subsystems :: "studio_api \<Rightarrow> byte list option \<Rightarrow> (nat \<times> string) list fx_act" where
  "listed_subsystems api reply =
     (case reply of
        None \<Rightarrow> fail ''no list_custom_subsystems response (timeout)''
      | Some bytes \<Rightarrow>
          (case parse_response api bytes of
             Inl e \<Rightarrow> throw e
           | Inr (Rr _ (Custom_list subs)) \<Rightarrow> give subs
           | Inr _ \<Rightarrow> fail ''unexpected list_custom_subsystems response shape''))"

definition assert_unlock_burst :: "studio_api \<Rightarrow> string \<Rightarrow> nat \<Rightarrow> nat \<Rightarrow> unit fx_act" where
  "assert_unlock_burst api s frames polls =
     (if \<not> has_custom api then give ()
      else
        andthen (rpc_send s (list_custom_request api)) (\<lambda>_.
        andthen (rpc_receive s) (\<lambda>reply.
        andthen (listed_subsystems api reply) (\<lambda>subs.
        case custom_index subs of
          None \<Rightarrow> give ()
        | Some index \<Rightarrow> unlock_exchange api s frames polls index))))"

section \<open>The USB runs\<close>

record limits =
  settle_polls :: nat
  wiring_polls :: nat
  pause_polls :: nat
  banner_polls :: nat
  event_polls :: nat
  burst_polls :: nat
  frame_bound :: nat
  wall_polls :: nat
  attempts :: nat

definition USB_BRIDGE_NAME :: string where "USB_BRIDGE_NAME = ''bridge''"
definition USB_REPL_TEMPLATE :: string where "USB_REPL_TEMPLATE = ''xiao_nrf52840_usb.repl''"

definition wired_query :: "nat \<Rightarrow> string" where
  "wired_query i = ''sysbus.'' @ USB_BRIDGE_NAME @ ''_cdc'' @ dec_of_nat i @ '' IsWired''"

fun wait_wired :: "nat \<Rightarrow> unit fx_act" where
  "wait_wired 0 = fail ''USB enumeration never wired the first CDC channel''"
| "wait_wired (Suc n) =
     andthen (mon (wired_query 0)) (\<lambda>reply. if flag_of reply = Some True then give () else wait_wired n)"

text \<open>\<open>finally\<close> with sockets that only exist once the first part has returned them.\<close>

definition with_cdc ::
  "string list fx_act \<Rightarrow> (string list \<Rightarrow> unit fx_act) \<Rightarrow> (string list \<Rightarrow> unit fx_act) \<Rightarrow> unit fx_act"
where
  "with_cdc body cleanup rest =
     andthen (attempt body (\<lambda>e. andthen (cleanup []) (\<lambda>_. throw e))) (\<lambda>cdc. ensure (rest cdc) (cleanup cdc))"

definition usb_checks :: "studio_api \<Rightarrow> limits \<Rightarrow> bool \<Rightarrow> string list \<Rightarrow> unit fx_act" where
  "usb_checks api lm nonempty cdc =
     andthen (wait_wired (wiring_polls lm)) (\<lambda>_.
     andthen (mon (wired_query 1)) (\<lambda>reply.
     let dual_cdc = (flag_of reply = Some True); studio = (if dual_cdc then cdc ! 1 else cdc ! 0) in
     andthen (if dual_cdc then expect_text (banner_polls lm) (cdc ! 0) ''Booting Zephyr''
                ''never saw the Zephyr boot banner on the console CDC; got: '' else give ()) (\<lambda>_.
     andthen (assert_get_device_info api studio nonempty 2) (\<lambda>_.
     assert_unlock_burst api studio (frame_bound lm) (burst_polls lm)))))"

definition usb_session ::
  "studio_api \<Rightarrow> boot_env \<Rightarrow> boot_args \<Rightarrow> limits \<Rightarrow> bool \<Rightarrow> string list \<Rightarrow> unit fx_act"
where
  "usb_session api env a lm nonempty socks =
     (let console = socks ! 0; rpc = socks ! 1;
          cleanup = (\<lambda>cdc. andthen (close_all (cdc @ [rpc, console])) (\<lambda>_. stop_session)) in
      andthen assert_mon (\<lambda>_.
      with_cdc
        (andthen (settle (settle_polls lm) console) (\<lambda>_.
         attach_dual_cdc_bridge env (pause_polls lm) (port_base a + 4) (port_base a + 5) USB_BRIDGE_NAME))
        cleanup (usb_checks api lm nonempty)))"

definition usb_boot :: "boot_env \<Rightarrow> boot_args \<Rightarrow> string \<Rightarrow> string list fx_act" where
  "usb_boot env a elf = boot_single_real env a elf None False USB_REPL_TEMPLATE"

definition usb_attempt ::
  "studio_api \<Rightarrow> boot_env \<Rightarrow> boot_args \<Rightarrow> limits \<Rightarrow> bool \<Rightarrow> string \<Rightarrow> unit fx_act"
where
  "usb_attempt api env a lm nonempty elf = andthen (usb_boot env a elf) (usb_session api env a lm nonempty)"

section \<open>The wired split\<close>

definition SPLIT_RELAYED_EVENT_MARKER :: string where "SPLIT_RELAYED_EVENT_MARKER = ''position: 0''"

definition press_command :: "string \<Rightarrow> string" where
  "press_command level = ''sysbus.gpio0 OnGPIO 2 '' @ level"

text \<open>The synthetic key press on the peripheral and its echo on the central's console.\<close>

definition relay_check :: "limits \<Rightarrow> string \<Rightarrow> unit fx_act" where
  "relay_check lm central_console =
     andthen (perform (Drain central_console)) (\<lambda>_.
     andthen (exec (''mach set '' @ quoted ''peripheral'')) (\<lambda>_.
     andthen (exec (press_command ''true'')) (\<lambda>_.
     andthen (exec (press_command ''false'')) (\<lambda>_.
     expect_text (event_polls lm) central_console SPLIT_RELAYED_EVENT_MARKER
       ''central never processed a key event relayed from the peripheral; got: ''))))"

definition split_session :: "limits \<Rightarrow> string list \<Rightarrow> unit fx_act" where
  "split_session lm socks =
     (let central_console = socks ! 0; peripheral_console = socks ! 1 in
      andthen assert_mon (\<lambda>_.
      ensure
        (andthen (expect_text (banner_polls lm) central_console ''Welcome to ZMK'' ''central never saw the ZMK boot banner; got: '') (\<lambda>_.
         andthen (expect_text (banner_polls lm) peripheral_console ''Welcome to ZMK'' ''peripheral never saw the ZMK boot banner; got: '') (\<lambda>_.
         relay_check lm central_console)))
        (andthen (close_all [peripheral_console, central_console]) (\<lambda>_. stop_session))))"

definition split_smoke :: "boot_env \<Rightarrow> boot_args \<Rightarrow> limits \<Rightarrow> string \<Rightarrow> string \<Rightarrow> unit fx_act" where
  "split_smoke env a lm central_elf peripheral_elf =
     andthen (boot_split_wired env a central_elf peripheral_elf) (split_session lm)"

definition usb_wired_session ::
  "studio_api \<Rightarrow> boot_env \<Rightarrow> boot_args \<Rightarrow> limits \<Rightarrow> bool \<Rightarrow> string list \<Rightarrow> unit fx_act"
where
  "usb_wired_session api env a lm nonempty socks =
     (let central_console = socks ! 0; peripheral_console = socks ! 1;
          cleanup = (\<lambda>cdc. andthen (close_all (cdc @ [peripheral_console, central_console])) (\<lambda>_. stop_session)) in
      andthen assert_mon (\<lambda>_.
      with_cdc
        (andthen (expect_text (banner_polls lm) central_console ''Welcome to ZMK'' ''central never saw the ZMK boot banner on uart0; got: '') (\<lambda>_.
         andthen (settle (settle_polls lm) central_console) (\<lambda>_.
         attach_dual_cdc_bridge env (pause_polls lm) (port_base a + 4) (port_base a + 5) USB_BRIDGE_NAME)))
        cleanup
        (\<lambda>cdc.
         andthen (wait_wired (wiring_polls lm)) (\<lambda>_.
         andthen (mon (wired_query 1)) (\<lambda>reply.
         andthen (assert_get_device_info api (if flag_of reply = Some True then cdc ! 1 else cdc ! 0) nonempty 2) (\<lambda>_.
         relay_check lm central_console))))))"

definition usb_wired_attempt ::
  "studio_api \<Rightarrow> boot_env \<Rightarrow> boot_args \<Rightarrow> limits \<Rightarrow> bool \<Rightarrow> string \<Rightarrow> string \<Rightarrow> unit fx_act"
where
  "usb_wired_attempt api env a lm nonempty central_elf peripheral_elf =
     andthen (boot_usb_wired_split env a central_elf peripheral_elf) (usb_wired_session api env a lm nonempty)"

section \<open>Liveness\<close>

definition FATAL_SYMBOLS :: "string list" where
  "FATAL_SYMBOLS = [''arch_system_halt'', ''z_fatal_error'', ''k_sys_fatal_error_handler'']"

definition FATAL_CONSOLE_MARKERS :: "string list" where
  "FATAL_CONSOLE_MARKERS = [''FATAL ERROR'', ''Halting system'']"

text \<open>The output so far of the console and, under \<open>rtt\<close>, of the RTT console.\<close>

definition drain_both :: "string \<Rightarrow> string option \<Rightarrow> string \<times> string \<Rightarrow> (string \<times> string) fx_act" where
  "drain_both console rtt bufs =
     andthen (perform (Drain console)) (\<lambda>t.
     case rtt of
       None \<Rightarrow> give (fst bufs @ t, snd bufs)
     | Some r \<Rightarrow> andthen (perform (Drain r)) (\<lambda>u. give (fst bufs @ t, snd bufs @ u)))"

fun run_until :: "string \<Rightarrow> string option \<Rightarrow> rat \<Rightarrow> nat \<Rightarrow> rat \<Rightarrow> string \<times> string \<Rightarrow> (rat \<times> string \<times> string) fx_act" where
  "run_until console rtt min_virtual 0 vt bufs = give (vt, bufs)"
| "run_until console rtt min_virtual (Suc n) vt bufs =
     andthen (drain_both console rtt bufs) (\<lambda>bufs'.
     andthen (mon ''machine GetTimeSourceInfo'') (\<lambda>reply.
     if next_vt reply vt \<ge> min_virtual then give (next_vt reply vt, bufs')
     else run_until console rtt min_virtual n (next_vt reply vt) bufs'))"

fun sample_pc :: "string \<Rightarrow> string option \<Rightarrow> nat \<Rightarrow> string \<times> string \<Rightarrow> ((string \<times> string) list \<times> string \<times> string) fx_act" where
  "sample_pc console rtt 0 bufs = give ([], bufs)"
| "sample_pc console rtt (Suc n) bufs =
     andthen (mon ''sysbus.cpu PC'') (\<lambda>reply.
     andthen (mon (''sysbus FindSymbolAt '' @ pc_of reply)) (\<lambda>found.
     andthen (drain_both console rtt bufs) (\<lambda>bufs'.
     andthen (sample_pc console rtt n bufs') (\<lambda>(samples, bufs'').
     give ((pc_of reply, clean_symbol found) # samples, bufs'')))))"

definition liveness_verdict :: "(string \<times> string) list \<Rightarrow> string \<times> string \<Rightarrow> unit fx_act" where
  "liveness_verdict samples bufs =
     (if filter (\<lambda>(pc, sym). sym \<in> set FATAL_SYMBOLS) samples \<noteq> []
      then fail ''CPU parked in a fatal frame -- image faulted''
      else if filter (\<lambda>m. py_in m (fst bufs) \<or> py_in m (snd bufs)) FATAL_CONSOLE_MARKERS \<noteq> []
      then fail ''console/RTT reported a fatal error''
      else give ())"

definition liveness_checks :: "rat \<Rightarrow> nat \<Rightarrow> limits \<Rightarrow> string \<Rightarrow> string option \<Rightarrow> unit fx_act" where
  "liveness_checks min_virtual sample_count lm console rtt =
     andthen (run_until console rtt min_virtual (wall_polls lm) 0 ([], [])) (\<lambda>(vt, bufs).
     if vt < min_virtual then fail ''emulation stalled?''
     else andthen (sample_pc console rtt sample_count bufs) (\<lambda>(samples, bufs'). liveness_verdict samples bufs'))"

definition liveness_session :: "rat \<Rightarrow> nat \<Rightarrow> limits \<Rightarrow> string list \<Rightarrow> unit fx_act" where
  "liveness_session min_virtual sample_count lm socks =
     (let console = socks ! 0; rpc = socks ! 1; rtt = (case drop 2 socks of [] \<Rightarrow> None | r # _ \<Rightarrow> Some r) in
      andthen assert_mon (\<lambda>_.
      ensure (liveness_checks min_virtual sample_count lm console rtt)
        (andthen (close_all ((case rtt of None \<Rightarrow> [] | Some r \<Rightarrow> [r]) @ [rpc, console])) (\<lambda>_. stop_session))))"

definition liveness_smoke ::
  "boot_env \<Rightarrow> boot_args \<Rightarrow> limits \<Rightarrow> string \<Rightarrow> rat \<Rightarrow> nat \<Rightarrow> bool \<Rightarrow> int option \<Rightarrow> unit fx_act"
where
  "liveness_smoke env a lm elf min_virtual sample_count rtt device_addr =
     andthen (boot_single_real env a elf device_addr rtt ''xiao_nrf52840_real.repl'')
       (liveness_session min_virtual sample_count lm)"

section \<open>Studio over BLE\<close>

definition BLE_SECURITY_OK :: string where "BLE_SECURITY_OK = ''STAGE:S4-SECURITY-CHANGED OK''"
definition BLE_GATT_READ_OK :: string where "BLE_GATT_READ_OK = ''STAGE:S5-GATT-READ OK''"

definition BLE_FAIL_MARKERS :: "string list" where
  "BLE_FAIL_MARKERS = [''STAGE:S5-GATT-READ FAIL'', ''STAGE:S3-SECURITY-CHANGED FAIL'']"

definition read_reached :: "string \<Rightarrow> bool" where
  "read_reached text \<longleftrightarrow> py_in BLE_GATT_READ_OK text \<and> py_in BLE_SECURITY_OK text"

text \<open>Fine-then-coarse: the quantum is raised once, when the condition first holds.\<close>

definition coarsen :: "string option \<Rightarrow> bool \<Rightarrow> bool \<Rightarrow> bool fx_act" where
  "coarsen quantum raised ready =
     (if truthy quantum \<and> \<not> raised \<and> ready
      then andthen (raise_global_quantum (the quantum)) (\<lambda>_. give True) else give raised)"

text \<open>The polling loop: the host's output and the reason of a failure, if there is one.\<close>

fun ble_loop ::
  "string \<Rightarrow> string \<Rightarrow> rat \<Rightarrow> string option \<Rightarrow> nat \<Rightarrow> bool \<Rightarrow> rat \<Rightarrow> string \<Rightarrow> (string \<times> string option) fx_act"
where
  "ble_loop dut host budget quantum 0 raised vt hbuf = give (hbuf, Some ''wall-clock safety budget exhausted'')"
| "ble_loop dut host budget quantum (Suc n) raised vt hbuf =
     andthen (perform (Drain host)) (\<lambda>t.
     andthen (perform (Drain dut)) (\<lambda>_.
     andthen (coarsen quantum raised (py_in BLE_SECURITY_OK (hbuf @ t))) (\<lambda>raised'.
     if read_reached (hbuf @ t) then give (hbuf @ t, None)
     else if filter (\<lambda>m. py_in m (hbuf @ t)) BLE_FAIL_MARKERS \<noteq> []
     then give (hbuf @ t, Some ''host reported a failure marker'')
     else
       andthen (exec (''mach set '' @ quoted ''dut'')) (\<lambda>_.
       andthen (mon ''machine GetTimeSourceInfo'') (\<lambda>reply.
       if next_vt reply vt \<ge> budget then give (hbuf @ t, Some ''virtual-time budget exhausted'')
       else ble_loop dut host budget quantum n raised' (next_vt reply vt) (hbuf @ t))))))"

definition read_log :: "string \<Rightarrow> string fx_act" where
  "read_log path = attempt (perform (Read_text path))
     (\<lambda>e. case e of OSError _ \<Rightarrow> give [] | TimeoutError _ \<Rightarrow> give [] | _ \<Rightarrow> throw e)"

definition ble_checks :: "string \<Rightarrow> string \<Rightarrow> string \<Rightarrow> rat \<Rightarrow> string option \<Rightarrow> limits \<Rightarrow> unit fx_act" where
  "ble_checks logf dut host budget quantum lm =
     andthen (ble_loop dut host budget quantum (wall_polls lm) False 0 []) (\<lambda>(hbuf, reason).
     andthen (perform (Drain host)) (\<lambda>t.
     andthen (perform (Drain dut)) (\<lambda>_.
     andthen (read_log logf) (\<lambda>_.
     if reason = None \<and> read_reached (hbuf @ t) then give ()
     else fail (case reason of None \<Rightarrow> ''encrypted Studio RPC read not reached'' | Some r \<Rightarrow> r)))))"

text \<open>The Renode log is a temporary file made before the boot.\<close>

definition with_log :: "string \<Rightarrow> (string \<Rightarrow> string list fx_act) \<Rightarrow> (string \<times> string list) fx_act" where
  "with_log pfx boot =
     andthen (perform (Mkstemp pfx ''.log'')) (\<lambda>logf. andthen (boot logf) (\<lambda>socks. give (logf, socks)))"

definition ble_session :: "rat \<Rightarrow> string option \<Rightarrow> limits \<Rightarrow> string \<times> string list \<Rightarrow> unit fx_act" where
  "ble_session budget quantum lm = (\<lambda>(logf, socks).
     let dut_console = socks ! 0; dut_rpc = socks ! 1; host_console = socks ! 2 in
     andthen assert_mon (\<lambda>_.
     ensure (ble_checks logf dut_console host_console budget quantum lm)
       (andthen (quietly (perform (Unlink logf))) (\<lambda>_.
        andthen (close_all [host_console, dut_rpc, dut_console]) (\<lambda>_. stop_session)))))"

definition ble_studio_smoke ::
  "boot_env \<Rightarrow> boot_args \<Rightarrow> limits \<Rightarrow> string \<Rightarrow> string \<Rightarrow> rat \<Rightarrow> string option \<Rightarrow> unit fx_act"
where
  "ble_studio_smoke env a lm dut_elf host_elf budget quantum =
     andthen (with_log ''zmk-ble-renode-'' (\<lambda>logf. boot_ble_pair env a dut_elf host_elf (Some logf)))
       (ble_session budget quantum lm)"

section \<open>The wireless split\<close>

definition split_l2_seen :: "string \<Rightarrow> bool" where
  "split_l2_seen text \<longleftrightarrow> py_in ''Security changed'' text \<and> py_in ''level 2'' text"

text \<open>The loop state: outputs of the peripheral's RTT and the host, whether the split link was secured.\<close>

record chain_state =
  rtt_buf :: string
  host_buf :: string
  secured :: bool

definition chain_start :: chain_state where
  "chain_start = \<lparr>rtt_buf = [], host_buf = [], secured = False\<rparr>"

definition chain_heard :: "string \<Rightarrow> string \<Rightarrow> chain_state \<Rightarrow> chain_state" where
  "chain_heard t u st =
     \<lparr>rtt_buf = rtt_buf st @ t, host_buf = host_buf st @ u,
      secured = (secured st \<or> split_l2_seen (rtt_buf st @ t))\<rparr>"

definition chain_complete :: "chain_state \<Rightarrow> bool" where
  "chain_complete st \<longleftrightarrow> read_reached (host_buf st) \<and> secured st"

fun chain_loop ::
  "string \<Rightarrow> string \<Rightarrow> string \<Rightarrow> rat \<Rightarrow> string option \<Rightarrow> nat \<Rightarrow> bool \<Rightarrow> rat \<Rightarrow> chain_state \<Rightarrow>
     (chain_state \<times> string option) fx_act"
where
  "chain_loop central prtt host budget quantum 0 raised vt st = give (st, Some ''wall-clock safety budget exhausted'')"
| "chain_loop central prtt host budget quantum (Suc n) raised vt st =
     andthen (perform (Drain prtt)) (\<lambda>t.
     andthen (perform (Drain host)) (\<lambda>u.
     andthen (perform (Drain central)) (\<lambda>_.
     andthen (coarsen quantum raised (secured (chain_heard t u st) \<and> py_in BLE_SECURITY_OK (host_buf (chain_heard t u st))))
       (\<lambda>raised'.
     if chain_complete (chain_heard t u st) then give (chain_heard t u st, None)
     else
       andthen (exec (''mach set '' @ quoted ''central'')) (\<lambda>_.
       andthen (mon ''machine GetTimeSourceInfo'') (\<lambda>reply.
       if next_vt reply vt \<ge> budget then give (chain_heard t u st, Some ''virtual-time budget exhausted'')
       else chain_loop central prtt host budget quantum n raised' (next_vt reply vt) (chain_heard t u st)))))))"

definition chain_verdict :: "bool \<Rightarrow> bool \<Rightarrow> bool \<Rightarrow> string option \<Rightarrow> unit fx_act" where
  "chain_verdict host_reached split_ok trimming reason =
     (if reason = None \<and> host_reached \<and> split_ok then
        (if trimming then fail ''radio trimming warning(s)'' else give ())
      else
        (let reason' = (if reason = None \<and> host_reached \<and> \<not> split_ok
                        then Some ''host reached the encrypted Studio read but the split link never secured''
                        else reason) in
         fail (case reason' of None \<Rightarrow> ''peripheral->central->host encrypted chain not reached'' | Some r \<Rightarrow> r)))"

definition chain_checks ::
  "string \<Rightarrow> string \<Rightarrow> string \<Rightarrow> string \<Rightarrow> rat \<Rightarrow> string option \<Rightarrow> limits \<Rightarrow> unit fx_act"
where
  "chain_checks logf central prtt host budget quantum lm =
     andthen (chain_loop central prtt host budget quantum (wall_polls lm) False 0 chain_start) (\<lambda>(st, reason).
     andthen (perform (Drain prtt)) (\<lambda>_.
     andthen (perform (Drain host)) (\<lambda>u.
     andthen (perform (Drain central)) (\<lambda>_.
     andthen (read_log logf) (\<lambda>renode_log.
     chain_verdict (read_reached (host_buf st @ u)) (secured st) (py_in ''trimming'' renode_log) reason)))))"

text \<open>The idle sockets are closed under \<open>except OSError\<close>.\<close>

definition chain_session :: "rat \<Rightarrow> string option \<Rightarrow> limits \<Rightarrow> string \<times> string list \<Rightarrow> unit fx_act" where
  "chain_session budget quantum lm = (\<lambda>(logf, socks).
     let central_console = socks ! 0; peripheral_rtt = socks ! 1; host_console = socks ! 2; idle = drop 3 socks in
     andthen assert_mon (\<lambda>_.
     ensure (chain_checks logf central_console peripheral_rtt host_console budget quantum lm)
       (andthen (quietly (perform (Unlink logf))) (\<lambda>_.
        andthen (close_all [peripheral_rtt, host_console, central_console]) (\<lambda>_.
        andthen (each (\<lambda>s. quietly (perform (Sock_close s))) idle) (\<lambda>_. stop_session))))))"

definition ble_split_attempt ::
  "boot_env \<Rightarrow> boot_args \<Rightarrow> limits \<Rightarrow> string \<Rightarrow> string \<Rightarrow> string \<Rightarrow> rat \<Rightarrow> string option \<Rightarrow> unit fx_act"
where
  "ble_split_attempt env a lm central_elf peripheral_elf host_elf budget quantum =
     andthen (with_log ''zmk-ble-split-renode-'' (\<lambda>logf. boot_ble_split env a central_elf peripheral_elf host_elf (Some logf)))
       (chain_session budget quantum lm)"

section \<open>Retries\<close>

text \<open>
  The loop over attempts, from attempt \<open>i\<close> on with \<open>n\<close> left: an exception that \<open>again\<close> admits is kept
  and the next attempt runs; \<open>final\<close> turns the last one into what is raised in the end.
\<close>

fun retry :: "(exn \<Rightarrow> bool) \<Rightarrow> (exn option \<Rightarrow> exn) \<Rightarrow> (nat \<Rightarrow> 'a fx_act) \<Rightarrow> nat \<Rightarrow> nat \<Rightarrow> exn option \<Rightarrow> 'a fx_act" where
  "retry again final once i 0 last_err = throw (final last_err)"
| "retry again final once i (Suc n) last_err =
     attempt (once i) (\<lambda>e. if again e then retry again final once (Suc i) n (Some e) else throw e)"

fun usb_again :: "exn \<Rightarrow> bool" where
  "usb_again (AssertionError m) = True"
| "usb_again (TimeoutError m) = True"
| "usb_again (OSError m) = True"
| "usb_again e = False"

fun split_again :: "exn \<Rightarrow> bool" where
  "split_again (AssertionError m) = True"
| "split_again e = False"

text \<open>\<open>repr_of\<close> is \<open>repr\<close> of an exception; \<open>ports i\<close> is the random port base of attempt \<open>i\<close>.\<close>

definition usb_final :: "(exn \<Rightarrow> string) \<Rightarrow> exn option \<Rightarrow> exn" where
  "usb_final repr_of last_err =
     (case last_err of
        None \<Rightarrow> AssertionError []
      | Some (AssertionError m) \<Rightarrow> AssertionError m
      | Some e \<Rightarrow> AssertionError (repr_of e))"

definition split_final :: "exn option \<Rightarrow> exn" where
  "split_final last_err = (case last_err of None \<Rightarrow> AssertionError [] | Some e \<Rightarrow> e)"

definition usb_smoke ::
  "(exn \<Rightarrow> string) \<Rightarrow> (nat \<Rightarrow> nat) \<Rightarrow> studio_api result \<Rightarrow> boot_env \<Rightarrow> boot_args \<Rightarrow> limits \<Rightarrow> bool \<Rightarrow> string \<Rightarrow>
     unit fx_act"
where
  "usb_smoke repr_of ports protos env a lm nonempty elf =
     (case protos of
        Inl e \<Rightarrow> throw e
      | Inr api \<Rightarrow> retry usb_again (usb_final repr_of)
          (\<lambda>i. usb_attempt api env (a\<lparr>port_base := ports i\<rparr>) lm nonempty elf) 1 (attempts lm) None)"

definition usb_wired_smoke ::
  "(exn \<Rightarrow> string) \<Rightarrow> (nat \<Rightarrow> nat) \<Rightarrow> studio_api result \<Rightarrow> boot_env \<Rightarrow> boot_args \<Rightarrow> limits \<Rightarrow> bool \<Rightarrow> string \<Rightarrow>
     string \<Rightarrow> unit fx_act"
where
  "usb_wired_smoke repr_of ports protos env a lm nonempty central_elf peripheral_elf =
     (case protos of
        Inl e \<Rightarrow> throw e
      | Inr api \<Rightarrow> retry usb_again (usb_final repr_of)
          (\<lambda>i. usb_wired_attempt api env (a\<lparr>port_base := ports i\<rparr>) lm nonempty central_elf peripheral_elf)
          1 (attempts lm) None)"

definition ble_split_smoke ::
  "(nat \<Rightarrow> nat) \<Rightarrow> boot_env \<Rightarrow> boot_args \<Rightarrow> limits \<Rightarrow> string \<Rightarrow> string \<Rightarrow> string \<Rightarrow> rat \<Rightarrow> string option \<Rightarrow> unit fx_act"
where
  "ble_split_smoke ports env a lm central_elf peripheral_elf host_elf budget quantum =
     retry split_again split_final
       (\<lambda>i. ble_split_attempt env (a\<lparr>port_base := ports i\<rparr>) lm central_elf peripheral_elf host_elf budget quantum)
       1 (attempts lm) None"


section \<open>Every started emulation is killed\<close>

text \<open>After every accepted \<open>start\<close> command the record has a later kill of the process.\<close>

fun stops_all :: "fx_record \<Rightarrow> bool" where
  "stops_all [] = True"
| "stops_all ((eff, r) # es) = ((eff = Exec ''start'' \<and> is_ok r \<longrightarrow> killed es) \<and> stops_all es)"

lemma stops_all_append: "stops_all as \<Longrightarrow> stops_all bs \<Longrightarrow> stops_all (as @ bs)"
  by (induction as rule: stops_all.induct) auto

lemma stops_all_before_kill: "killed bs \<Longrightarrow> stops_all bs \<Longrightarrow> stops_all (as @ bs)"
  by (induction as rule: stops_all.induct) auto

definition emulating :: "fx_record \<Rightarrow> bool" where
  "emulating es \<longleftrightarrow> (\<exists>t. (Exec ''start'', Inr t) \<in> set es)"

lemma emulating_append [simp]: "emulating (as @ bs) \<longleftrightarrow> emulating as \<or> emulating bs" "\<not> emulating []"
  by (auto simp: emulating_def)

lemma stops_all_idle: "\<not> emulating es \<Longrightarrow> stops_all es"
proof (induction es rule: stops_all.induct)
  case (2 eff r es)
  then show ?case by (cases r) (auto simp: emulating_def)
qed simp

lemma not_emulating: "list_all (\<lambda>er. fst er \<noteq> Exec ''start'') es \<Longrightarrow> \<not> emulating es"
  by (fastforce simp: emulating_def list_all_iff)

lemma cleanup_not_emulating: "list_all (\<lambda>er. cleanup_fx (fst er)) es \<Longrightarrow> \<not> emulating es"
  by (rule not_emulating[OF cleanup_no_start])

subsection \<open>What a boot leaves behind\<close>

definition ready :: "fx_record \<Rightarrow> bool" where
  "ready h \<longleftrightarrow> proc_set h \<and> mon_set h"

abbreviation no_session :: "fx \<Rightarrow> bool" where
  "no_session eff \<equiv> eff \<noteq> New_session"

lemma ready_append: "ready h \<Longrightarrow> list_all (\<lambda>er. no_session (fst er)) es \<Longrightarrow> ready (h @ es)"
  by (auto simp: ready_def proc_set_def mon_set_def since_session_append)

lemma ready_after:
  "(Popen c, Inr p) \<in> set es \<Longrightarrow> (Mon_connect n, Inr q) \<in> set es \<Longrightarrow> list_all (\<lambda>er. no_session (fst er)) es \<Longrightarrow>
     ready (h @ es)"
  unfolding ready_def proc_set_def mon_set_def
  by (auto simp: since_session_append list_ex_iff intro: bexI[of _ "(Popen c, Inr p)"] bexI[of _ "(Mon_connect n, Inr q)"])

definition readies :: "'a fx_act \<Rightarrow> bool" where
  "readies m = records os_world (\<lambda>h es r. (is_ok r \<longrightarrow> ready (h @ es)) \<and> (emulating es \<longrightarrow> is_ok r)) m"

lemma connect_monitor_connects:
  "records os_world (\<lambda>h es r. is_ok r \<longrightarrow> (\<exists>q. (Mon_connect port, Inr q) \<in> set es)) (connect_monitor port n)"
proof (induction n)
  case 0
  have "records os_world (\<lambda>h es r. \<not> is_ok r) (andthen (quietly (perform Kill)) (\<lambda>_. throw e :: unit fx_act))" for e
    by (rule records_andthen[where R = "\<lambda>_ _ r. r = Inr ()" and S = "\<lambda>_ _ _ r. \<not> is_ok r"])
      (auto intro: records_throw records_mono[OF quietly_perform])
  then show ?case unfolding connect_monitor.simps by (rule records_mono) simp
next
  case (Suc n)
  have once: "records os_world (\<lambda>h es r. is_ok r \<longrightarrow> (\<exists>q. (Mon_connect port, Inr q) \<in> set es))
      (andthen (perform (Mon_connect port)) (\<lambda>_. give ()))"
    by (rule records_andthen[where R = "\<lambda>h es r. es = [(Mon_connect port, r)]" and S = "\<lambda>_ h es r. es = []"])
      (auto intro: records_perform records_give)
  have again: "records os_world (\<lambda>h es r. is_ok r \<longrightarrow> (\<exists>q. (Mon_connect port, Inr q) \<in> set es))
      (case e of OSError _ \<Rightarrow> connect_monitor port n | TimeoutError _ \<Rightarrow> connect_monitor port n | _ \<Rightarrow> throw e)" for e
    using Suc by (cases e) (auto intro: records_throw)
  show ?case
    unfolding connect_monitor.simps by (rule records_attempt[OF once again]) auto
qed

lemma session_start_readies:
  "records os_world (\<lambda>h es r. (is_ok r \<longrightarrow> ready (h @ es)) \<and> \<not> emulating es) (session_start tries renode resc port vars)"
proof -
  have a: "records os_world (\<lambda>h es r. is_ok r \<longrightarrow> (\<exists>c p n q. (Popen c, Inr p) \<in> set es \<and> (Mon_connect n, Inr q) \<in> set es))
      (session_start tries renode resc port vars)"
    unfolding session_start_def
    by (rule records_andthen[OF records_perform connect_monitor_connects, where R = "\<lambda>h es r. es = [(Popen _, r)]"])
      (simp, simp, fastforce)
  have b: "only os_world setup_fx (session_start tries renode resc port vars)" by (rule only_session_start)
  show ?thesis
  proof (rule records_mono[OF records_conj[OF a b[unfolded only_def]]])
    fix h es :: fx_record and r :: "unit result"
    assume "(is_ok r \<longrightarrow> (\<exists>c p n q. (Popen c, Inr p) \<in> set es \<and> (Mon_connect n, Inr q) \<in> set es)) \<and> all_effects setup_fx h es r"
    moreover then have "list_all (\<lambda>er. no_session (fst er)) es" "list_all (\<lambda>er. fst er \<noteq> Exec ''start'') es"
      by (auto simp: list_all_iff)
    ultimately show "(is_ok r \<longrightarrow> ready (h @ es)) \<and> \<not> emulating es"
      by (blast intro: ready_after dest: not_emulating)
  qed
qed

text \<open>One rule for each construct of the boot functions, as for their other contracts.\<close>

lemma readies_skip:
  assumes "only os_world (\<lambda>eff. eff \<noteq> Exec ''start'') m" and "\<And>x. readies (f x)"
  shows "readies (andthen m f)"
  using assms(1) unfolding readies_def only_def
  by (rule records_andthen[OF _ assms(2)[unfolded readies_def]]) (auto dest: not_emulating)

text \<open>The part after the launch: no new session, and an accepted \<open>start\<close> is the last thing that can fail.\<close>

definition follows :: "'a fx_act \<Rightarrow> bool" where
  "follows m = records os_world (\<lambda>h es r. list_all (\<lambda>er. no_session (fst er)) es \<and> (emulating es \<longrightarrow> is_ok r)) m"

lemma follows_step:
  assumes "only os_world setup_fx m" and "\<And>x. follows (f x)"
  shows "follows (andthen m f)"
proof -
  have "records os_world (\<lambda>h es r. list_all (\<lambda>er. no_session (fst er)) es \<and> \<not> emulating es) m"
    by (rule records_mono[OF assms(1)[unfolded only_def]])
      (fastforce simp: list_all_iff intro!: not_emulating)
  then show ?thesis
    unfolding follows_def by (rule records_andthen[OF _ assms(2)[unfolded follows_def]]) auto
qed

lemma follows_go: "follows (andthen go (\<lambda>_. give x))"
proof -
  have e: "records os_world (\<lambda>h es r. list_all (\<lambda>er. no_session (fst er)) es \<and> (emulating es \<longrightarrow> is_ok r)) (exec ''start'')"
    unfolding exec_def
    by (rule records_andthen[where R = "\<lambda>h es r. es = [(Exec ''start'', r)]" and S = "\<lambda>_ h es r. es = [] \<and> is_ok r"])
      (auto intro: records_perform records_give simp: emulating_def)
  have "follows go"
    unfolding go_def follows_def
    by (rule records_andthen[OF only_assert_mon[of _ "\<lambda>_. False", unfolded only_def] e]) (auto simp: no_effects)
  then show ?thesis
    unfolding follows_def
    by (rule records_andthen[where S = "\<lambda>_ h es r. es = [] \<and> is_ok r"]) (auto intro: records_give)
qed

lemma readies_start:
  assumes "\<And>x. follows (f x)"
  shows "readies (andthen (session_start tries renode resc port vars) f)"
  unfolding readies_def
  by (rule records_andthen[OF session_start_readies assms[unfolded follows_def]])
    (auto dest: ready_append simp flip: append_assoc)

lemma readies_attempt:
  fixes m :: "'a fx_act"
  assumes "readies m"
  shows "readies (attempt m (\<lambda>e. andthen stop_session (\<lambda>_. throw e)))"
proof -
  have "records os_world (\<lambda>h es r. \<not> emulating es \<and> \<not> is_ok r) (andthen stop_session (\<lambda>_. throw e :: 'a fx_act))" for e
    by (rule records_andthen[OF only_stop[unfolded only_def], where S = "\<lambda>_ h es r. es = [] \<and> \<not> is_ok r"])
      (auto intro: records_throw dest: cleanup_not_emulating)
  then show ?thesis
    unfolding readies_def by (rule records_attempt[OF assms[unfolded readies_def]]) auto
qed

lemma readies_ensure:
  assumes "readies m"
  shows "readies (ensure m (unlink_all tmps))"
proof -
  have u: "records os_world (\<lambda>h es r. r = Inr () \<and> \<not> emulating es \<and> list_all (\<lambda>er. no_session (fst er)) es) (unlink_all tmps)"
    by (rule records_mono[OF records_conj[OF unlink_all_removes only_unlink_all[unfolded only_def]]])
      (auto simp: list_all_iff dest: cleanup_not_emulating[unfolded list_all_iff])
  show ?thesis
    unfolding readies_def
    by (rule records_ensure[OF assms[unfolded readies_def] u]) (auto dest: ready_append simp flip: append_assoc)
qed

lemma readies_file: "only os_world file_fx m \<Longrightarrow> (\<And>x. readies (f x)) \<Longrightarrow> readies (andthen m f)"
  by (rule readies_skip[OF file_not_start])

lemma readies_made: "(\<And>x. readies (f x)) \<Longrightarrow> readies (andthen (tell New_session) f)"
  by (rule readies_skip) (intro only_intros, simp)

lemma setup_pieces:
  "only W setup_fx (perform (Uart n))" "only W setup_fx (exec (''mach set '' @ x))" "only W setup_fx (exec (''logFile @'' @ x))"
  by (auto intro!: only_perform only_exec)

lemmas follows_steps = follows_go follows_step[OF setup_pieces(1)] follows_step[OF setup_pieces(2)]
  follows_step[OF only_assert_mon] follows_step[OF only_preload] follows_step[OF only_rtt_setup]

lemmas readies_steps = readies_file[OF only_files(1)] readies_file[OF only_files(2)] readies_file[OF only_files(3)]
  readies_file[OF only_files(4)] readies_made readies_ensure readies_attempt readies_start

lemma only_log_step: "only W setup_fx (case l of None \<Rightarrow> give () | Some x \<Rightarrow> exec (''logFile @'' @ x))"
  by (intro only_intros setup_pieces)

lemma single_readies: "readies (boot_single_real env a elf d rtt t)"
proof -
  have f: "only os_world file_fx (case d of None \<Rightarrow> give None | Some d \<Rightarrow> andthen (mk_ficr env d) (\<lambda>p. give (Some p)))"
    by (intro only_intros only_files)
  have r: "only os_world setup_fx (if rtt then andthen (rtt_setup env n tname) (\<lambda>s. give [s]) else give [])" for n tname
    by (intro only_setup)
  show ?thesis
    unfolding boot_single_real_def
    by (rule readies_file[OF f]) (rule readies_steps follows_steps follows_step[OF r])+
qed

lemma pair_readies: "readies (boot_ble_pair env a e1 e2 l)"
  unfolding boot_ble_pair_def by (rule readies_steps follows_steps follows_step[OF only_log_step])+

lemma wired_readies: "readies (boot_split_wired env a e1 e2)"
  unfolding boot_split_wired_def by (rule readies_steps follows_steps)+

lemma usb_wired_readies: "readies (boot_usb_wired_split env a e1 e2)"
  unfolding boot_usb_wired_split_def by (rule readies_steps follows_steps)+

lemma split_readies: "readies (boot_ble_split env a e1 e2 e3 l)"
proof -
  have p: "only os_world setup_fx (each (\<lambda>mach. andthen (exec (''mach set '' @ [CHR 0x22] @ mach @ [CHR 0x22]))
      (\<lambda>_. preload ff n)) ms)" for ff n ms
    by (intro only_setup) simp
  show ?thesis
    unfolding boot_ble_split_def
    by (rule readies_steps follows_steps follows_step[OF only_log_step] follows_step[OF p])+
qed

lemma log_readies:
  assumes "\<And>l. readies (boot l)"
  shows "readies (with_log pfx boot)"
proof -
  have "readies (andthen (boot l) (\<lambda>socks. give (l, socks)))" for l
    using assms[of l] unfolding readies_def
    by (rule records_andthen[where S = "\<lambda>_ h es r. es = [] \<and> is_ok r"]) (auto intro: records_give)
  then show ?thesis
    unfolding with_log_def by (rule readies_skip[rotated]) (intro only_intros, simp)
qed

subsection \<open>What a session does with it\<close>

text \<open>Closing a socket does not fail.\<close>

definition closing_world :: "(fx, string) world \<Rightarrow> bool" where
  "closing_world w \<longleftrightarrow> os_world w \<and> (\<forall>h s. is_ok (w h (Sock_close s)))"

lemma records_weaken: "records W R m \<Longrightarrow> (\<And>w. W' w \<Longrightarrow> W w) \<Longrightarrow> records W' R m"
  unfolding records_def by blast

lemma closing_os: "records os_world R m \<Longrightarrow> records closing_world R m"
  by (erule records_weaken) (simp add: closing_world_def)

definition ends :: "'a fx_act \<Rightarrow> bool" where
  "ends m = records closing_world (\<lambda>h es r. ready h \<longrightarrow> killed es \<and> stops_all es) m"

text \<open>No check constructs a session, whatever the world does.\<close>

abbreviation steady :: "'a fx_act \<Rightarrow> bool" where
  "steady m \<equiv> only (\<lambda>_. True) no_session m"

lemma steady_records: "steady m \<Longrightarrow> records W (\<lambda>h es r. list_all (\<lambda>er. no_session (fst er)) es) m"
  unfolding only_def by (erule records_weaken) simp

lemma steady_extends: "steady m \<Longrightarrow> m w h = (r, h') \<Longrightarrow> \<exists>es. h' = h @ es"
  unfolding only_def by (erule recordsD) auto

definition succeeds :: "'a fx_act \<Rightarrow> bool" where
  "succeeds m = records closing_world (\<lambda>h es r. is_ok r \<and> list_all (\<lambda>er. no_session (fst er)) es) m"

lemma succeeds_andthen:
  assumes "succeeds m" and "\<And>x. succeeds (f x)"
  shows "succeeds (andthen m f)"
  using assms(1) unfolding succeeds_def by (rule records_andthen[OF _ assms(2)[unfolded succeeds_def]]) auto

lemma succeeds_give: "succeeds (give x)"
  unfolding succeeds_def by (rule records_give) simp

lemma succeeds_each: "(\<And>x. succeeds (f x)) \<Longrightarrow> succeeds (each f xs)"
  by (induction xs) (auto intro: succeeds_andthen succeeds_give)

lemma succeeds_quietly: "no_session eff \<Longrightarrow> succeeds (quietly (perform eff))"
  unfolding succeeds_def by (rule records_mono[OF closing_os[OF quietly_perform]]) auto

lemma succeeds_close: "succeeds (close_all ss)"
proof -
  have c: "succeeds (perform (Sock_close s))" for s
    unfolding succeeds_def by (rule records_perform) (auto simp: closing_world_def)
  show ?thesis
    unfolding close_all_def close_sock_def by (intro succeeds_andthen succeeds_each succeeds_give c)
qed

lemma ends_stop: "ends stop_session"
  unfolding ends_def
  by (rule records_mono[OF closing_os[OF records_conj[OF stop_kills only_stop[unfolded only_def]]]])
    (auto simp: ready_def dest: cleanup_not_emulating stops_all_idle)

lemma ends_after:
  assumes "succeeds m" and "\<And>x. ends (f x)"
  shows "ends (andthen m f)"
  using assms(1) unfolding ends_def succeeds_def
  by (rule records_andthen[OF _ assms(2)[unfolded ends_def]]) (auto dest: ready_append intro: stops_all_before_kill)

lemma ends_ensure:
  assumes "steady m" and "ends c"
  shows "ends (ensure m c)"
  unfolding ends_def
  by (rule records_ensure[OF steady_records[OF assms(1)] assms(2)[unfolded ends_def]])
    (auto dest: ready_append intro: stops_all_before_kill)

lemma ends_handler:
  assumes "steady m" and "\<And>e. ends (h e)"
    and "\<And>x. ends (f x)" and "\<And>e. records closing_world (\<lambda>_ _ r. \<not> is_ok r) (h e)"
  shows "ends (andthen (attempt m h) f)"
proof -
  have "records closing_world (\<lambda>h es r. ready h \<longrightarrow> (if is_ok r then ready (h @ es) else killed es \<and> stops_all es)) (attempt m h)"
    by (rule records_attempt[OF steady_records[OF assms(1)] records_conj[OF assms(2)[unfolded ends_def] assms(4)]])
      (auto dest: ready_append intro: stops_all_before_kill)
  then show ?thesis
    unfolding ends_def
    by (rule records_andthen[OF _ assms(3)[unfolded ends_def]]) (auto intro: stops_all_before_kill)
qed

lemma ends_mon:
  assumes "\<And>x. ends (f x)"
  shows "ends (andthen assert_mon f)"
proof -
  have "records closing_world (\<lambda>h es r. es = [] \<and> (mon_set h \<longrightarrow> is_ok r)) assert_mon"
    unfolding assert_mon_def
    by (rule records_andthen[where R = "\<lambda>h es r. es = [] \<and> r = Inr h" and S = "\<lambda>h _ es r. es = [] \<and> (mon_set h \<longrightarrow> is_ok r)"])
      (auto intro: records_recorded records_give records_throw)
  then show ?thesis
    unfolding ends_def
    by (rule records_andthen[OF _ assms[unfolded ends_def]]) (auto simp: ready_def)
qed

lemma ends_with_cdc:
  assumes "steady body" and "\<And>cdc. ends (cleanup cdc)" and "\<And>cdc. steady (rest cdc)"
  shows "ends (with_cdc body cleanup rest)"
proof -
  have e: "ends (andthen (cleanup []) (\<lambda>_. throw e :: 'b fx_act))" for e
    using assms(2)[of "[]"] unfolding ends_def
    by (rule records_andthen[where S = "\<lambda>_ h es r. es = []"]) (auto intro: records_throw)
  have t: "records closing_world (\<lambda>_ _ r. \<not> is_ok r) (andthen (cleanup []) (\<lambda>_. throw e :: 'b fx_act))" for e
    using assms(2)[of "[]"] unfolding ends_def
    by (rule records_andthen[where S = "\<lambda>_ _ _ r. \<not> is_ok r"]) (auto intro: records_throw)
  show ?thesis
    unfolding with_cdc_def
    by (rule ends_handler[OF assms(1) e ends_ensure[OF assms(3,2)] t])
qed

named_theorems steady_intros

lemma steady_prod [steady_intros]: "(\<And>x y. steady (f x y)) \<Longrightarrow> steady (case p of (x, y) \<Rightarrow> f x y)"
  by (cases p) simp

lemma steady_result [steady_intros]:
  "(\<And>e. steady (f e)) \<Longrightarrow> (\<And>x. steady (g x)) \<Longrightarrow> steady (case r of Inl e \<Rightarrow> f e | Inr x \<Rightarrow> g x)"
  by (cases r) simp_all

lemma steady_basic [steady_intros]:
  "steady (perform (Exec c))" "steady (perform (Drain s))" "steady (perform (Rpc_send s bs))"
  "steady (perform (Rpc_receive s))" "steady (perform (Uart n))" "steady (perform (Read_text f))"
  "steady (exec c)" "steady (mon c)" "steady (fail m)" "steady assert_mon" "steady (rpc_send s bs)" "steady (rpc_receive s)"
  unfolding exec_def mon_def fail_def rpc_send_def rpc_receive_def
  by (intro only_intros only_assert_mon; simp)+

lemmas steady_rules = only_basic only_andthen only_attempt only_each only_if only_option

lemma steady_await: "steady (await_text n s needle buf)"
  by (induction n arbitrary: buf) (auto intro!: steady_rules steady_intros)

lemma steady_consoles [steady_intros]: "steady (settle n s)" "steady (expect_text n s needle m)"
  unfolding settle_def expect_text_def by (intro steady_rules steady_intros steady_await)+

lemma steady_wait_paused: "steady (wait_paused ex re n)"
  by (induction n) (auto intro!: steady_rules steady_intros)

lemma steady_attach [steady_intros]: "steady (attach_dual_cdc_bridge env polls p q name)"
  unfolding attach_dual_cdc_bridge_def bridge_setup_def by (intro steady_rules steady_intros steady_wait_paused)

lemma steady_device_name: "steady (device_name api b reply)"
  unfolding device_name_def
  by (intro steady_rules steady_intros) (auto split: response.splits rr_body.splits intro!: steady_rules steady_intros)

lemma steady_device_info: "steady (device_info_rounds api s b is name)"
  by (induction "is" arbitrary: name) (auto intro!: steady_rules steady_intros steady_device_name)

lemma steady_drain_frames: "steady (drain_frames n s)"
  by (induction n) (auto intro!: steady_rules steady_intros)

lemma steady_burst_loop: "steady (burst_loop api s n a b)"
  by (induction n arbitrary: a b) (auto intro!: steady_rules steady_intros)

lemma steady_studio [steady_intros]:
  "steady (assert_get_device_info api s b n)" "steady (assert_unlock_burst api s m n)"
  unfolding assert_get_device_info_def assert_unlock_burst_def unlock_exchange_def burst_verdict_def
    listed_subsystems_def
  by (intro steady_rules steady_intros steady_device_info steady_drain_frames steady_burst_loop;
      auto split: response.splits rr_body.splits intro!: steady_rules steady_intros)+

lemma steady_wait_wired: "steady (wait_wired n)"
  by (induction n) (auto intro!: steady_rules steady_intros)

lemma steady_relay [steady_intros]: "steady (relay_check lm s)"
  unfolding relay_check_def by (intro steady_rules steady_intros)

lemma steady_usb: "steady (usb_checks api lm b cdc)"
  unfolding usb_checks_def Let_def by (intro steady_rules steady_intros steady_wait_wired)

lemma steady_drain_both: "steady (drain_both s rtt bufs)"
  unfolding drain_both_def by (intro steady_rules steady_intros)

lemma steady_run_until: "steady (run_until s rtt m n vt bufs)"
  by (induction n arbitrary: vt bufs) (auto intro!: steady_rules steady_intros steady_drain_both)

lemma steady_sample: "steady (sample_pc s rtt n bufs)"
  by (induction n arbitrary: bufs) (auto intro!: steady_rules steady_intros steady_drain_both)

lemma steady_liveness: "steady (liveness_checks m n lm s rtt)"
  unfolding liveness_checks_def liveness_verdict_def by (intro steady_rules steady_intros steady_run_until steady_sample)

lemma steady_coarsen [steady_intros]: "steady (coarsen q b c)"
  unfolding coarsen_def raise_global_quantum_def by (intro steady_rules steady_intros)

lemma steady_ble_loop: "steady (ble_loop dut host budget q n raised vt buf)"
  by (induction n arbitrary: raised vt buf) (auto intro!: steady_rules steady_intros)

lemma steady_read_log [steady_intros]: "steady (read_log f)"
  unfolding read_log_def by (intro steady_rules steady_intros) (auto split: exn.splits intro: only_basic)

lemma steady_ble: "steady (ble_checks f dut host budget q lm)"
  unfolding ble_checks_def by (intro steady_rules steady_intros steady_ble_loop)

lemma steady_chain_loop: "steady (chain_loop c p h budget q n raised vt st)"
  by (induction n arbitrary: raised vt st) (auto intro!: steady_rules steady_intros)

lemma steady_chain: "steady (chain_checks f c p h budget q lm)"
  unfolding chain_checks_def chain_verdict_def Let_def by (intro steady_rules steady_intros steady_chain_loop)

subsection \<open>The runs\<close>

lemma usb_ends: "ends (usb_session api env a lm b socks)"
  unfolding usb_session_def Let_def
  by (intro ends_mon ends_with_cdc ends_after[OF succeeds_close] ends_stop steady_rules steady_intros steady_usb)

lemma split_ends: "ends (split_session lm socks)"
  unfolding split_session_def Let_def
  by (intro ends_mon ends_ensure ends_after[OF succeeds_close] ends_stop steady_rules steady_intros)

lemma usb_wired_ends: "ends (usb_wired_session api env a lm b socks)"
  unfolding usb_wired_session_def Let_def
  by (intro ends_mon ends_with_cdc ends_after[OF succeeds_close] ends_stop steady_rules steady_intros steady_wait_wired)

lemma liveness_ends: "ends (liveness_session m n lm socks)"
  unfolding liveness_session_def Let_def
  by (intro ends_mon ends_ensure ends_after[OF succeeds_close] ends_stop steady_liveness)

lemma ble_ends: "ends (ble_session budget q lm ls)"
  unfolding ble_session_def Let_def
  by (cases ls; simp only: prod.case)
    (intro ends_mon ends_ensure ends_after[OF succeeds_close] ends_after[OF succeeds_quietly] ends_stop steady_ble; simp)

lemma chain_ends: "ends (chain_session budget q lm ls)"
  unfolding chain_session_def Let_def
  by (cases ls; simp only: prod.case)
    (intro ends_mon ends_ensure ends_after[OF succeeds_close] ends_after[OF succeeds_quietly]
      ends_after[OF succeeds_each] succeeds_quietly ends_stop steady_chain; simp)

text \<open>The contract of a run: its boot leaves a live process and monitor, its session ends the process.\<close>

locale smoke_run =
  fixes boot :: "'b fx_act" and session :: "'b \<Rightarrow> unit fx_act"
  assumes boot_readies: "readies boot"
    and session_ends: "ends (session x)"
begin

lemma run_stops: "records closing_world (\<lambda>h es r. stops_all es) (andthen boot session)"
  by (rule records_andthen[OF closing_os[OF boot_readies[unfolded readies_def]] session_ends[unfolded ends_def]])
    (auto intro: stops_all_idle stops_all_before_kill)

end

interpretation usb_run: smoke_run "usb_boot env a elf" "usb_session api env a lm b" for env a elf api lm b
  by unfold_locales (simp_all add: usb_boot_def single_readies usb_ends)

interpretation split_run: smoke_run "boot_split_wired env a e1 e2" "split_session lm" for env a e1 e2 lm
  by unfold_locales (rule wired_readies split_ends)+

interpretation usb_wired_run: smoke_run "boot_usb_wired_split env a e1 e2" "usb_wired_session api env a lm b" for env a e1 e2 api lm b
  by unfold_locales (rule usb_wired_readies usb_wired_ends)+

interpretation liveness_run: smoke_run "boot_single_real env a elf d rtt t" "liveness_session m n lm" for env a elf d rtt t m n lm
  by unfold_locales (rule single_readies liveness_ends)+

interpretation ble_run: smoke_run "with_log pfx (\<lambda>l. boot_ble_pair env a e1 e2 (Some l))" "ble_session budget q lm"
  for pfx env a e1 e2 budget q lm
  by unfold_locales (rule log_readies pair_readies ble_ends)+

interpretation chain_run: smoke_run "with_log pfx (\<lambda>l. boot_ble_split env a e1 e2 e3 (Some l))" "chain_session budget q lm"
  for pfx env a e1 e2 e3 budget q lm
  by unfold_locales (rule log_readies split_readies chain_ends)+

lemma retry_stops:
  assumes "\<And>i. records closing_world (\<lambda>h es r. stops_all es) (once i)"
  shows "records closing_world (\<lambda>h es r. stops_all es) (retry again final once i n last_err)"
proof (induction n arbitrary: i last_err)
  case (Suc n)
  have "records closing_world (\<lambda>h es r. stops_all es)
      (if again e then retry again final once (Suc i) n (Some e) else throw e)" for e
    by (auto intro: Suc.IH records_throw)
  then show ?case unfolding retry.simps by (rule records_attempt[OF assms]) (auto intro: stops_all_append)
qed (simp add: records_throw)

section \<open>What a success shows\<close>

text \<open>Following the effects of a success backwards through the combinators.\<close>

named_theorems ok_simps

lemma ok_andthen [ok_simps]:
  "andthen m f w h = (Inr y, h'') \<longleftrightarrow> (\<exists>x h'. m w h = (Inr x, h') \<and> f x w h' = (Inr y, h''))"
  by (auto simp: andthen_def split: prod.splits sum.splits)

lemma ok_basic [ok_simps]:
  "give x w h = (Inr y, h') \<longleftrightarrow> y = x \<and> h' = h"
  "throw e w h = (Inr y, h') \<longleftrightarrow> False"
  "fail msg w h = (Inr y, h') \<longleftrightarrow> False"
  "perform eff w h = (Inr t, h') \<longleftrightarrow> w h eff = Inr t \<and> h' = h @ [(eff, Inr t)]"
  by (auto simp: act_simps fail_def)

lemma ok_exec [ok_simps]:
  "exec c w h = (Inr y, h') \<longleftrightarrow> (\<exists>t. w h (Exec c) = Inr t \<and> h' = h @ [(Exec c, Inr t)])"
  "mon c w h = (Inr t, h') \<longleftrightarrow> w h (Exec c) = Inr t \<and> h' = h @ [(Exec c, Inr t)]"
  by (auto simp: exec_def mon_def ok_andthen ok_basic)

lemma ok_assert_mon [ok_simps]: "assert_mon w h = (Inr y, h') \<longleftrightarrow> mon_set h \<and> h' = h"
  by (auto simp: assert_mon_def ok_andthen ok_basic act_simps)

lemma ok_if [ok_simps]:
  "(if b then m else m') w h = (Inr y, h') \<longleftrightarrow> (if b then m w h = (Inr y, h') else m' w h = (Inr y, h'))"
  by simp

text \<open>All that was read from a console.\<close>

fun heard :: "string \<Rightarrow> fx_record \<Rightarrow> string" where
  "heard s [] = []"
| "heard s ((eff, r) # es) = (if eff = Drain s then (case r of Inr t \<Rightarrow> t | Inl _ \<Rightarrow> []) else []) @ heard s es"

lemma heard_append [simp]: "heard s (as @ bs) = heard s as @ heard s bs"
  by (induction s as rule: heard.induct) auto

lemma py_in_more: "py_in n t \<Longrightarrow> py_in n (t @ u)" "py_in n u \<Longrightarrow> py_in n (t @ u)"
  unfolding py_in_def by (auto intro: sublist_order.order_trans sublist_appendI[of _ "[]", simplified])

lemma coarsen_heard: "coarsen q b c w h = (Inr y, h') \<Longrightarrow> heard s h' = heard s h"
  by (auto simp: coarsen_def raise_global_quantum_def ok_simps split: if_splits)

subsection \<open>The wireless split\<close>

lemma split_l2_more: "split_l2_seen t \<Longrightarrow> split_l2_seen (t @ u)"
  unfolding split_l2_seen_def by (simp add: py_in_more)

lemma read_reached_more: "read_reached t \<Longrightarrow> read_reached (t @ u)"
  unfolding read_reached_def by (simp add: py_in_more)

text \<open>The buffers hold what was heard since the record where \<open>tp\<close> and \<open>tk\<close> had been heard.\<close>

definition tracks :: "string \<Rightarrow> string \<Rightarrow> string \<Rightarrow> string \<Rightarrow> chain_state \<Rightarrow> fx_record \<Rightarrow> bool" where
  "tracks p k tp tk st h \<longleftrightarrow> heard p h = tp @ rtt_buf st \<and> heard k h = tk @ host_buf st \<and>
     (secured st \<longrightarrow> split_l2_seen (rtt_buf st))"

lemma tracks_heard:
  "tracks p k tp tk st h \<Longrightarrow> distinct [c, p, k] \<Longrightarrow>
     tracks p k tp tk (chain_heard t u st) (h @ [(Drain p, Inr t), (Drain k, Inr u), (Drain c, Inr x)])"
  by (auto simp: tracks_def chain_heard_def split_l2_more)

lemma tracks_exec: "tracks p k tp tk st (h @ [(Exec a, r), (Exec b, r')]) \<longleftrightarrow> tracks p k tp tk st h"
  by (auto simp: tracks_def)

lemma tracks_coarsen: "coarsen q b e w h = (Inr y, h') \<Longrightarrow> tracks p k tp tk st h \<Longrightarrow> tracks p k tp tk st h'"
  by (simp add: tracks_def coarsen_heard)

lemma chain_loop_hears:
  assumes "chain_loop c p k budget q n raised vt st w h = (Inr (st', reason), h')" and "distinct [c, p, k]"
    and "tracks p k tp tk st h"
  shows "tracks p k tp tk st' h' \<and> (reason = None \<longrightarrow> chain_complete st')"
  using assms
proof (induction n arbitrary: raised vt st h)
  case 0
  then show ?case by (auto simp: ok_simps)
next
  case (Suc n)
  from Suc.prems(1) obtain t u x raised' h3 where
    co: "coarsen q raised (secured (chain_heard t u st) \<and> py_in BLE_SECURITY_OK (host_buf (chain_heard t u st))) w
      (h @ [(Drain p, Inr t), (Drain k, Inr u), (Drain c, Inr x)]) = (Inr raised', h3)"
    and rest: "(if chain_complete (chain_heard t u st) then give (chain_heard t u st, None)
     else
       andthen (exec (''mach set '' @ quoted ''central'')) (\<lambda>_.
       andthen (mon ''machine GetTimeSourceInfo'') (\<lambda>reply.
       if next_vt reply vt \<ge> budget then give (chain_heard t u st, Some ''virtual-time budget exhausted'')
       else chain_loop c p k budget q n raised' (next_vt reply vt) (chain_heard t u st)))) w h3 = (Inr (st', reason), h')"
    by (simp add: ok_andthen ok_basic del: not_None_eq) blast
  have tr: "tracks p k tp tk (chain_heard t u st) h3"
    by (rule tracks_coarsen[OF co tracks_heard[OF Suc.prems(3,2)]])
  from rest show ?case
    using tr Suc.IH[OF _ Suc.prems(2)]
    by (cases "chain_complete (chain_heard t u st)") (auto simp: ok_simps tracks_exec split: if_splits)
qed

lemma read_log_ok [ok_simps]:
  "read_log f w h = (Inr t, h') \<longleftrightarrow>
     (\<exists>r. w h (Read_text f) = r \<and> h' = h @ [(Read_text f, r)] \<and>
       (case r of Inr t' \<Rightarrow> t = t' | Inl e \<Rightarrow> os_error e \<and> t = []))"
proof (cases "w h (Read_text f)")
  case (Inl e)
  then show ?thesis by (cases e) (auto simp: read_log_def attempt_def act_simps)
qed (auto simp: read_log_def attempt_def act_simps)

lemma chain_verdict_ok [ok_simps]:
  "chain_verdict host_reached split_ok trimming reason w h = (Inr y, h') \<longleftrightarrow>
     reason = None \<and> host_reached \<and> split_ok \<and> \<not> trimming \<and> h' = h"
  by (auto simp: chain_verdict_def ok_simps Let_def)

text \<open>The first of the two failure reasons of the verdict cannot occur: a loop that ends without a
  reason has seen the split link secured.\<close>

lemma chain_unsecured_unreachable:
  "chain_loop c p k budget q n False 0 chain_start w h = (Inr (st, None), h') \<Longrightarrow> distinct [c, p, k] \<Longrightarrow> secured st"
  using chain_loop_hears[where st = chain_start and tp = "heard p h" and tk = "heard k h"]
  by (force simp: tracks_def chain_start_def chain_complete_def)

definition split_chain_shown :: "string \<Rightarrow> string \<Rightarrow> string \<Rightarrow> fx_record \<Rightarrow> bool" where
  "split_chain_shown logf prtt host es \<longleftrightarrow>
     split_l2_seen (heard prtt es) \<and> read_reached (heard host es) \<and>
     (\<exists>r. last es = (Read_text logf, r) \<and> (\<forall>t. r = Inr t \<longrightarrow> \<not> py_in ''trimming'' t))"

subsection \<open>Liveness\<close>

text \<open>The symbols that the sampled program counters resolved to.\<close>

fun symbols :: "fx_record \<Rightarrow> string list" where
  "symbols [] = []"
| "symbols ((eff, r) # es) =
     (case (eff, r) of
        (Exec c, Inr t) \<Rightarrow> if prefix ''sysbus FindSymbolAt '' c then clean_symbol t # symbols es else symbols es
      | _ \<Rightarrow> symbols es)"

lemma symbols_append [simp]: "symbols (as @ bs) = symbols as @ symbols bs"
  by (induction as rule: symbols.induct) (auto split: fx.splits sum.splits)

definition reached :: "rat \<Rightarrow> fx_record \<Rightarrow> bool" where
  "reached m es \<longleftrightarrow> (\<exists>t v. (Exec ''machine GetTimeSourceInfo'', Inr t) \<in> set es \<and>
     parse_virtual_seconds t = Some v \<and> m \<le> v)"

lemma reached_append [simp]: "reached m (as @ bs) \<longleftrightarrow> reached m as \<or> reached m bs"
  by (auto simp: reached_def)

definition noise :: "string \<Rightarrow> string option \<Rightarrow> string \<times> string \<Rightarrow> fx_record \<Rightarrow> bool" where
  "noise console rtt bufs es \<longleftrightarrow> heard console es = fst bufs \<and> (\<forall>r. rtt = Some r \<longrightarrow> heard r es = snd bufs)"

lemma drain_both_hears:
  assumes "drain_both console rtt bufs w h = (Inr bufs', h')" and "rtt \<noteq> Some console"
  shows "\<exists>es. h' = h @ es \<and> symbols es = [] \<and> (\<forall>xs. noise console rtt bufs xs \<longrightarrow> noise console rtt bufs' (xs @ es))"
  using assms by (cases rtt) (auto simp: drain_both_def ok_simps noise_def)

lemma next_vt_reached:
  "next_vt t vt \<ge> m \<Longrightarrow> vt < m \<Longrightarrow> reached m [(Exec ''machine GetTimeSourceInfo'', Inr t)]"
  by (auto simp: next_vt_def reached_def split: option.splits if_splits)

lemma run_until_reaches:
  assumes "run_until console rtt m n vt bufs w h = (Inr (vt', bufs'), h')" and "rtt \<noteq> Some console" and "vt < m"
  shows "\<exists>es. h' = h @ es \<and> symbols es = [] \<and> (m \<le> vt' \<longrightarrow> reached m es) \<and>
    (\<forall>xs. noise console rtt bufs xs \<longrightarrow> noise console rtt bufs' (xs @ es))"
  using assms
proof (induction n arbitrary: vt bufs h)
  case 0
  then show ?case by (auto simp: ok_simps)
next
  case (Suc n)
  from Suc.prems(1) obtain b1 h1 t where d: "drain_both console rtt bufs w h = (Inr b1, h1)"
    and rest0: "(if next_vt t vt \<ge> m then give (next_vt t vt, b1) else run_until console rtt m n (next_vt t vt) b1) w
      (h1 @ [(Exec ''machine GetTimeSourceInfo'', Inr t)]) = (Inr (vt', bufs'), h')"
    by (auto simp: ok_andthen ok_exec)
  then have rest: "if m \<le> next_vt t vt then vt' = next_vt t vt \<and> bufs' = b1 \<and> h' = h1 @ [(Exec ''machine GetTimeSourceInfo'', Inr t)]
      else run_until console rtt m n (next_vt t vt) b1 w (h1 @ [(Exec ''machine GetTimeSourceInfo'', Inr t)]) = (Inr (vt', bufs'), h')"
    by (auto simp: ok_basic split: if_splits)
  from drain_both_hears[OF d Suc.prems(2)] obtain es1 where es1: "h1 = h @ es1" "symbols es1 = []"
    "\<forall>xs. noise console rtt bufs xs \<longrightarrow> noise console rtt b1 (xs @ es1)" by blast
  let ?g = "[(Exec ''machine GetTimeSourceInfo'', Inr t)]"
  have g: "noise console rtt b xs \<Longrightarrow> noise console rtt b (xs @ ?g)" for b xs by (simp add: noise_def)
  show ?case
  proof (cases "m \<le> next_vt t vt")
    case True
    with rest es1 g next_vt_reached[OF True Suc.prems(3)] show ?thesis
      by (intro exI[of _ "es1 @ ?g"]) (auto simp flip: append_assoc)
  next
    case False
    with rest have "run_until console rtt m n (next_vt t vt) b1 w (h1 @ ?g) = (Inr (vt', bufs'), h')" by simp
    from Suc.IH[OF this Suc.prems(2)] False obtain es2 where es2: "h' = (h1 @ ?g) @ es2" "symbols es2 = []" "m \<le> vt' \<longrightarrow> reached m es2"
      "\<forall>xs. noise console rtt b1 xs \<longrightarrow> noise console rtt bufs' (xs @ es2)" by auto
    have "noise console rtt bufs' (xs @ es1 @ ?g @ es2)" if "noise console rtt bufs xs" for xs
      using g that es1(3) es2(4) by (metis append_assoc)
    moreover have "m \<le> vt' \<longrightarrow> reached m (es1 @ ?g @ es2)" using es2(3) by (simp only: reached_append) simp
    moreover have "symbols (es1 @ ?g @ es2) = []" using es1(2) es2(2) by simp
    ultimately show ?thesis using es1(1) es2(1) by (intro exI[of _ "es1 @ ?g @ es2"]) simp
  qed
qed

lemma sample_pc_samples:
  assumes "sample_pc console rtt n bufs w h = (Inr (samples, bufs'), h')" and "rtt \<noteq> Some console"
  shows "\<exists>es. h' = h @ es \<and> symbols es = map snd samples \<and> length samples = n \<and>
    (\<forall>xs. noise console rtt bufs xs \<longrightarrow> noise console rtt bufs' (xs @ es))"
  using assms
proof (induction n arbitrary: bufs h samples)
  case 0
  then show ?case by (auto simp: ok_simps)
next
  case (Suc n)
  from Suc.prems(1) obtain t u b1 h1 ss where
    d: "drain_both console rtt bufs w (h @ [(Exec ''sysbus.cpu PC'', Inr t), (Exec (''sysbus FindSymbolAt '' @ pc_of t), Inr u)]) = (Inr b1, h1)"
    and rest: "sample_pc console rtt n b1 w h1 = (Inr (ss, bufs'), h')" and samples: "samples = (pc_of t, clean_symbol u) # ss"
    by (auto simp: ok_simps)
  let ?g = "[(Exec ''sysbus.cpu PC'', Inr t), (Exec (''sysbus FindSymbolAt '' @ pc_of t), Inr u)]"
  from drain_both_hears[OF d Suc.prems(2)] obtain es1 where es1: "h1 = (h @ ?g) @ es1" "symbols es1 = []"
    "\<forall>xs. noise console rtt bufs xs \<longrightarrow> noise console rtt b1 (xs @ es1)" by blast
  from Suc.IH[OF rest Suc.prems(2)] obtain es2 where es2: "h' = h1 @ es2" "symbols es2 = map snd ss" "length ss = n"
    "\<forall>xs. noise console rtt b1 xs \<longrightarrow> noise console rtt bufs' (xs @ es2)" by blast
  have g: "noise console rtt b xs \<Longrightarrow> noise console rtt b (xs @ ?g)" for b xs by (simp add: noise_def)
  have "noise console rtt bufs' (xs @ ?g @ es1 @ es2)" if "noise console rtt bufs xs" for xs
    using g[OF that] es1(3) es2(4) by (metis append_assoc)
  then show ?case
    using es1(1,2) es2(1-3) samples by (intro exI[of _ "?g @ es1 @ es2"]) simp
qed

definition alive_shown :: "rat \<Rightarrow> nat \<Rightarrow> string \<Rightarrow> string option \<Rightarrow> fx_record \<Rightarrow> bool" where
  "alive_shown m n console rtt es \<longleftrightarrow>
     reached m es \<and> length (symbols es) = n \<and> set (symbols es) \<inter> set FATAL_SYMBOLS = {} \<and>
     (\<forall>mk \<in> set FATAL_CONSOLE_MARKERS.
        \<not> py_in mk (heard console es) \<and> (\<forall>r. rtt = Some r \<longrightarrow> \<not> py_in mk (heard r es)))"

subsection \<open>Studio over USB\<close>

text \<open>A frame that decodes to a response with property \<open>P\<close> was received on \<open>s\<close>.\<close>

definition got :: "studio_api \<Rightarrow> string \<Rightarrow> (response \<Rightarrow> bool) \<Rightarrow> fx_record \<Rightarrow> bool" where
  "got api s P es \<longleftrightarrow> (\<exists>t bs r. (Rpc_receive s, Inr t) \<in> set es \<and> frame_reply t = Some bs \<and>
     parse_response api bs = Inr r \<and> P r)"

lemma got_append [simp]: "got api s P (as @ bs) \<longleftrightarrow> got api s P as \<or> got api s P bs" "\<not> got api s P []"
  by (auto simp: got_def)

lemma ok_rpc [ok_simps]:
  "rpc_send s bs w h = (Inr y, h') \<longleftrightarrow> (\<exists>t. w h (Rpc_send s bs) = Inr t \<and> h' = h @ [(Rpc_send s bs, Inr t)])"
  "rpc_receive s w h = (Inr v, h') \<longleftrightarrow>
     (\<exists>t. w h (Rpc_receive s) = Inr t \<and> v = frame_reply t \<and> h' = h @ [(Rpc_receive s, Inr t)])"
  by (auto simp: rpc_send_def rpc_receive_def ok_andthen ok_basic)

lemma burst_loop_got:
  assumes "burst_loop api s n a b w h = (Inr (note, resp), h')"
  shows "\<exists>es. h' = h @ es \<and> (note \<longrightarrow> a \<or> got api s is_lock_note es) \<and> (resp \<longrightarrow> b \<or> got api s (answers unlock_id) es)"
  using assms
proof (induction n arbitrary: a b h)
  case 0
  then show ?case by (auto simp: ok_simps)
next
  case (Suc n)
  show ?case
  proof (cases "a \<and> b")
    case True
    with Suc.prems show ?thesis by (auto simp: ok_simps)
  next
    case False
    with Suc.prems obtain t where rest: "(case frame_reply t of None \<Rightarrow> give (a, b)
      | Some bytes \<Rightarrow> (case parse_response api bytes of Inl e \<Rightarrow> burst_loop api s n a b
             | Inr r \<Rightarrow> burst_loop api s n (a \<or> is_lock_note r) (b \<or> answers unlock_id r))) w (h @ [(Rpc_receive s, Inr t)]) = (Inr (note, resp), h')"
      by (auto simp: ok_andthen ok_rpc)
    let ?g = "[(Rpc_receive s, Inr t)]"
    show ?thesis
    proof (cases "frame_reply t")
      case None
      with rest show ?thesis by (auto simp: ok_basic)
    next
      case (Some bs)
      show ?thesis
      proof (cases "parse_response api bs")
        case (Inl e)
        with rest Some Suc.IH[of a b "h @ ?g"] obtain es where "h' = (h @ ?g) @ es"
          "note \<longrightarrow> a \<or> got api s is_lock_note es" "resp \<longrightarrow> b \<or> got api s (answers unlock_id) es" by auto
        then show ?thesis by (intro exI[of _ "?g @ es"]) (simp only: got_append append_assoc, blast)
      next
        case (Inr r)
        with rest Some Suc.IH[of "a \<or> is_lock_note r" "b \<or> answers unlock_id r" "h @ ?g"] obtain es where "h' = (h @ ?g) @ es"
          "note \<longrightarrow> (a \<or> is_lock_note r) \<or> got api s is_lock_note es"
          "resp \<longrightarrow> (b \<or> answers unlock_id r) \<or> got api s (answers unlock_id) es" by auto
        moreover have "P r \<Longrightarrow> got api s P ?g" for P using Some Inr by (auto simp: got_def)
        ultimately show ?thesis by (intro exI[of _ "?g @ es"]) (simp only: got_append append_assoc, blast)
      qed
    qed
  qed
qed

text \<open>The burst: after the unlock request, the notification and the response both arrived.\<close>

definition burst_shown :: "studio_api \<Rightarrow> string \<Rightarrow> fx_record \<Rightarrow> bool" where
  "burst_shown api s es \<longleftrightarrow>
     (\<exists>index xs t ys. es = xs @ (Rpc_send s (set_lock_request api unlock_id index DEVTOOL_SET_LOCK_UNLOCKED), Inr t) # ys \<and>
        got api s is_lock_note ys \<and> got api s (answers unlock_id) ys)"

text \<open>No burst is asked for when the generated protos have no custom subsystem, or none is named devtool.\<close>

definition no_devtool :: "studio_api \<Rightarrow> string \<Rightarrow> fx_record \<Rightarrow> bool" where
  "no_devtool api s es \<longleftrightarrow> \<not> has_custom api \<or>
     got api s (\<lambda>r. \<exists>i subs. r = Rr i (Custom_list subs) \<and> (\<forall>(j, ident) \<in> set subs. \<not> py_in ''devtool'' ident)) es"

lemma no_devtool_more: "no_devtool api s es \<Longrightarrow> no_devtool api s (as @ es)"
  by (auto simp: no_devtool_def)

lemma burst_shown_more: "burst_shown api s es \<Longrightarrow> burst_shown api s (as @ es)"
  unfolding burst_shown_def
  by (elim exE conjE, rule_tac x = index in exI, rule_tac x = "as @ xs" in exI) auto

lemma custom_index_None: "custom_index subs = None \<longleftrightarrow> (\<forall>(j, ident) \<in> set subs. \<not> py_in ''devtool'' ident)"
proof -
  have "custom_index subs = None \<longleftrightarrow> filter (\<lambda>(i, ident). py_in ''devtool'' ident) subs = []"
    by (auto simp: custom_index_def split: list.splits)
  then show ?thesis by (auto simp: filter_empty_conv)
qed

lemma ok_listed: "listed_subsystems api reply w h = (Inr subs, h') \<longleftrightarrow>
     h' = h \<and> (\<exists>bs i. reply = Some bs \<and> parse_response api bs = Inr (Rr i (Custom_list subs)))"
  by (auto simp: listed_subsystems_def ok_simps split: option.splits sum.splits response.splits rr_body.splits)

lemma unlock_exchange_burst:
  assumes "unlock_exchange api s frames polls index w h = (Inr y, h')"
  shows "\<exists>es. h' = h @ es \<and> burst_shown api s es"
proof -
  from assms obtain t h1 u nt resp where
    d: "drain_frames frames s w (h @ [(Rpc_send s (set_lock_request api 91 index DEVTOOL_SET_LOCK_LOCKED), Inr t)]) = (Inr (), h1)"
    and b: "burst_loop api s polls False False w
      (h1 @ [(Rpc_send s (set_lock_request api unlock_id index DEVTOOL_SET_LOCK_UNLOCKED), Inr u)]) = (Inr (nt, resp), h')"
    and v: nt resp
    by (auto simp: unlock_exchange_def burst_verdict_def ok_simps split: if_splits)
  from steady_extends[OF steady_drain_frames d] obtain es1
    where es1: "h1 = (h @ [(Rpc_send s (set_lock_request api 91 index DEVTOOL_SET_LOCK_LOCKED), Inr t)]) @ es1" by blast
  from burst_loop_got[OF b] v obtain es2 where
    "h' = (h1 @ [(Rpc_send s (set_lock_request api unlock_id index DEVTOOL_SET_LOCK_UNLOCKED), Inr u)]) @ es2"
    "got api s is_lock_note es2" "got api s (answers unlock_id) es2" by auto
  with es1 show ?thesis
    unfolding burst_shown_def
    by (intro exI[of _ "((Rpc_send s (set_lock_request api 91 index DEVTOOL_SET_LOCK_LOCKED), Inr t) # es1) @
        (Rpc_send s (set_lock_request api unlock_id index DEVTOOL_SET_LOCK_UNLOCKED), Inr u) # es2"] conjI)
      (simp, blast)
qed

lemma unlock_burst_shown:
  assumes "assert_unlock_burst api s frames polls w h = (Inr y, h')"
  shows "\<exists>es. h' = h @ es \<and> (no_devtool api s es \<or> burst_shown api s es)"
proof (cases "has_custom api")
  case False
  with assms show ?thesis by (auto simp: assert_unlock_burst_def ok_basic no_devtool_def)
next
  case True
  with assms obtain t u bs i subs where fr: "frame_reply u = Some bs" "parse_response api bs = Inr (Rr i (Custom_list subs))"
    and rest: "(case custom_index subs of None \<Rightarrow> give () | Some index \<Rightarrow> unlock_exchange api s frames polls index) w
      (h @ [(Rpc_send s (list_custom_request api), Inr t), (Rpc_receive s, Inr u)]) = (Inr y, h')"
    by (auto simp: assert_unlock_burst_def ok_andthen ok_rpc ok_listed)
  let ?g = "[(Rpc_send s (list_custom_request api), Inr t), (Rpc_receive s, Inr u)]"
  show ?thesis
  proof (cases "custom_index subs")
    case None
    with rest fr show ?thesis
      by (intro exI[of _ ?g]) (auto simp: ok_basic no_devtool_def got_def custom_index_None)
  next
    case (Some index)
    with rest unlock_exchange_burst[of api s frames polls index w "h @ ?g" y h'] obtain es
      where es: "h' = (h @ ?g) @ es" "burst_shown api s es" by auto
    then have "burst_shown api s (?g @ es)" by (rule_tac burst_shown_more)
    with es show ?thesis by (intro exI[of _ "?g @ es"]) simp
  qed
qed

text \<open>Request \<open>i\<close> was sent and the frame read next is a core response, with a name if one is required.\<close>

definition answered :: "studio_api \<Rightarrow> string \<Rightarrow> bool \<Rightarrow> nat \<Rightarrow> fx_record \<Rightarrow> bool" where
  "answered api s nonempty i es \<longleftrightarrow>
     (\<exists>xs t u ys bs j name. es = xs @ [(Rpc_send s (device_info_request api i), Inr t), (Rpc_receive s, Inr u)] @ ys \<and>
        frame_reply u = Some bs \<and> parse_response api bs = Inr (Rr j (Core_info name)) \<and> (nonempty \<longrightarrow> name \<noteq> []))"

lemma answered_append: "answered api s b i es \<Longrightarrow> answered api s b i (as @ es @ bs)"
  unfolding answered_def by (metis append_assoc)

lemma ok_device_name: "device_name api nonempty reply w h = (Inr name, h') \<longleftrightarrow>
     h' = h \<and> (\<exists>bs j. reply = Some bs \<and> parse_response api bs = Inr (Rr j (Core_info name)) \<and> (nonempty \<longrightarrow> name \<noteq> []))"
  by (auto simp: device_name_def ok_simps split: option.splits sum.splits response.splits rr_body.splits if_splits)

lemma device_info_answered:
  assumes "device_info_rounds api s nonempty is name w h = (Inr name', h')"
  shows "\<exists>es. h' = h @ es \<and> (\<forall>i \<in> set is. answered api s nonempty (i + 1) es)"
  using assms
proof (induction "is" arbitrary: name h)
  case (Cons i "is")
  then obtain t u bs j nm where fr: "frame_reply u = Some bs" "parse_response api bs = Inr (Rr j (Core_info nm))" "nonempty \<longrightarrow> nm \<noteq> []"
    and rest: "device_info_rounds api s nonempty is nm w (h @ [(Rpc_send s (device_info_request api (i + 1)), Inr t), (Rpc_receive s, Inr u)]) = (Inr name', h')"
    by (auto simp: ok_andthen ok_rpc ok_device_name)
  let ?g = "[(Rpc_send s (device_info_request api (i + 1)), Inr t), (Rpc_receive s, Inr u)]"
  from Cons.IH[OF rest] obtain es where es: "h' = (h @ ?g) @ es" "\<forall>i \<in> set is. answered api s nonempty (i + 1) es" by blast
  have "answered api s nonempty (i + 1) (?g @ es)"
    unfolding answered_def using fr by (intro exI[of _ "[]"] exI conjI) auto
  moreover have "answered api s nonempty (k + 1) (?g @ es)" if "k \<in> set is" for k
    using answered_append[of api s nonempty "k + 1" es ?g "[]"] es(2) that by simp
  ultimately show ?case using es(1) by (intro exI[of _ "?g @ es"]) auto
qed (simp add: ok_basic)

definition usb_shown :: "studio_api \<Rightarrow> bool \<Rightarrow> string \<Rightarrow> fx_record \<Rightarrow> bool" where
  "usb_shown api nonempty studio es \<longleftrightarrow>
     answered api studio nonempty 1 es \<and> answered api studio nonempty 2 es \<and>
     (no_devtool api studio es \<or> burst_shown api studio es)"

subsection \<open>Studio over BLE\<close>

lemma ble_loop_hears:
  assumes "ble_loop dut k budget q n raised vt buf w h = (Inr (buf', reason), h')" and "dut \<noteq> k" and "heard k h = tk @ buf"
  shows "heard k h' = tk @ buf' \<and> (reason = None \<longrightarrow> read_reached buf')"
  using assms
proof (induction n arbitrary: raised vt buf h)
  case 0
  then show ?case by (auto simp: ok_simps)
next
  case (Suc n)
  from Suc.prems(1) obtain t x raised' h3 where
    co: "coarsen q raised (py_in BLE_SECURITY_OK (buf @ t)) w (h @ [(Drain k, Inr t), (Drain dut, Inr x)]) = (Inr raised', h3)"
    and rest: "(if read_reached (buf @ t) then give (buf @ t, None)
     else if filter (\<lambda>m. py_in m (buf @ t)) BLE_FAIL_MARKERS \<noteq> []
     then give (buf @ t, Some ''host reported a failure marker'')
     else
       andthen (exec (''mach set '' @ quoted ''dut'')) (\<lambda>_.
       andthen (mon ''machine GetTimeSourceInfo'') (\<lambda>reply.
       if next_vt reply vt \<ge> budget then give (buf @ t, Some ''virtual-time budget exhausted'')
       else ble_loop dut k budget q n raised' (next_vt reply vt) (buf @ t)))) w h3 = (Inr (buf', reason), h')"
    by (simp add: ok_andthen ok_basic del: not_None_eq) blast
  have hk: "heard k h3 = tk @ buf @ t" using coarsen_heard[OF co] Suc.prems(2,3) by simp
  from rest show ?case
    using hk Suc.IH[OF _ Suc.prems(2)] by (auto simp: ok_simps split: if_splits)
qed

lemma ble_checks_shown:
  assumes "dut \<noteq> host" and "ble_checks logf dut host budget quantum lm w h = (Inr (), h')"
  shows "\<exists>es. h' = h @ es \<and> read_reached (heard host es)"
proof -
  from assms(2) obtain buf h1 t x r where l: "ble_loop dut host budget quantum (wall_polls lm) False 0 [] w h = (Inr (buf, None), h1)"
    and h': "h' = h1 @ [(Drain host, Inr t), (Drain dut, Inr x), (Read_text logf, r)]" and v: "read_reached (buf @ t)"
    by (clarsimp simp: ble_checks_def ok_simps split: if_splits)
  have "heard host h1 = heard host h @ buf" using ble_loop_hears[OF l assms(1), of "heard host h"] by simp
  moreover obtain es where "h1 = h @ es" using steady_extends[OF steady_ble_loop l] by blast
  ultimately show ?thesis
    using h' v assms(1) by (intro exI[of _ "es @ [(Drain host, Inr t), (Drain dut, Inr x), (Read_text logf, r)]"]) simp
qed

section \<open>What the retries amount to\<close>

text \<open>The record before attempt \<open>i + k\<close>, and the outcome of that attempt.\<close>

fun record_before :: "(nat \<Rightarrow> 'a fx_act) \<Rightarrow> (fx, string) world \<Rightarrow> fx_record \<Rightarrow> nat \<Rightarrow> nat \<Rightarrow> fx_record" where
  "record_before once w h i 0 = h"
| "record_before once w h i (Suc k) = record_before once w (snd (once i w h)) (Suc i) k"

definition outcome :: "(nat \<Rightarrow> 'a fx_act) \<Rightarrow> (fx, string) world \<Rightarrow> fx_record \<Rightarrow> nat \<Rightarrow> nat \<Rightarrow> 'a result" where
  "outcome once w h i k = fst (once (i + k) w (record_before once w h i k))"

lemma outcome_simps [simp]:
  "outcome once w h i 0 = fst (once i w h)"
  "outcome once w h i (Suc k) = outcome once w (snd (once i w h)) (Suc i) k"
  by (simp_all add: outcome_def)

fun assertion_error :: "exn \<Rightarrow> bool" where
  "assertion_error (AssertionError m) = True"
| "assertion_error e = False"

definition retried :: "(exn \<Rightarrow> bool) \<Rightarrow> (nat \<Rightarrow> 'a fx_act) \<Rightarrow> (fx, string) world \<Rightarrow> fx_record \<Rightarrow> nat \<Rightarrow> nat \<Rightarrow> bool" where
  "retried again once w h i k \<longleftrightarrow> (\<forall>j<k. \<exists>e. outcome once w h i j = Inl e \<and> again e)"

lemma retried_simps [simp]:
  "retried again once w h i 0"
  "retried again once w h i (Suc k) \<longleftrightarrow>
     (\<exists>e. fst (once i w h) = Inl e \<and> again e) \<and> retried again once w (snd (once i w h)) (Suc i) k"
  unfolding retried_def by (auto simp: less_Suc_eq_0_disj)

lemma ex_less_Suc: "(\<exists>k < Suc n. P k) \<longleftrightarrow> P 0 \<or> (\<exists>k < n. P (Suc k))"
  using less_Suc_eq_0_disj by auto

text \<open>
  Bounded retries over a class of exceptions, whose last one is turned into an \<open>AssertionError\<close>.
\<close>

locale bounded_retry =
  fixes again :: "exn \<Rightarrow> bool" and final :: "exn option \<Rightarrow> exn" and once :: "nat \<Rightarrow> unit fx_act"
  assumes final_none: "assertion_error (final None)"
    and final_some: "again e \<Longrightarrow> assertion_error (final (Some e))"
begin

lemma succeeds_iff:
  "fst (retry again final once i n le w h) = Inr x \<longleftrightarrow> (\<exists>k<n. outcome once w h i k = Inr x \<and> retried again once w h i k)"
proof (induction n arbitrary: i le h)
  case (Suc n)
  show ?case
  proof (cases "once i w h")
    case (Pair r h1)
    then show ?thesis
      using Suc.IH[of "Suc i" _ h1] by (cases r) (auto simp: ex_less_Suc attempt_def act_simps)
  qed
qed (simp add: act_simps)

lemma fails_iff:
  assumes "\<not> assertion_error e" and "\<And>e'. le = Some e' \<Longrightarrow> again e'"
  shows "fst (retry again final once i n le w h) = Inl e \<longleftrightarrow>
    (\<exists>k<n. outcome once w h i k = Inl e \<and> \<not> again e \<and> retried again once w h i k)"
  using assms(2)
proof (induction n arbitrary: i le h)
  case 0
  then have "assertion_error (final le)" by (cases le) (auto intro: final_none final_some)
  with assms(1) show ?case by (auto simp: act_simps)
next
  case (Suc n)
  show ?case
  proof (cases "once i w h")
    case (Pair r h1)
    then show ?thesis
      using Suc.IH[of "Some _" "Suc i" h1] by (cases r) (auto simp: ex_less_Suc attempt_def act_simps)
  qed
qed

end

interpretation usb_retry: bounded_retry usb_again "usb_final repr_of"
    "\<lambda>i. usb_attempt api env (a\<lparr>port_base := ports i\<rparr>) lm b elf" for repr_of api env a ports lm b elf
  by unfold_locales (auto simp: usb_final_def split: exn.splits)

interpretation usb_wired_retry: bounded_retry usb_again "usb_final repr_of"
    "\<lambda>i. usb_wired_attempt api env (a\<lparr>port_base := ports i\<rparr>) lm b e1 e2" for repr_of api env a ports lm b e1 e2
  by unfold_locales (auto simp: usb_final_def split: exn.splits)

interpretation split_retry: bounded_retry split_again split_final
    "\<lambda>i. ble_split_attempt env (a\<lparr>port_base := ports i\<rparr>) lm e1 e2 e3 budget q" for env a ports lm e1 e2 e3 budget q
  by unfold_locales (auto simp: split_final_def elim: split_again.elims)

section \<open>Properties\<close>

definition sample_limits :: limits where
  "sample_limits = \<lparr>settle_polls = 1, wiring_polls = 1, pause_polls = 1, banner_polls = 1, event_polls = 1,
     burst_polls = 2, frame_bound = 2, wall_polls = 2, attempts = 2\<rparr>"

text \<open>
  C8. No smoke run leaves an emulation behind.  In a world where calls to the operating system raise
  only its own errors and closing a socket succeeds, whatever else fails, retries included: after
  every accepted \<open>start\<close> command the Renode process is killed later in the same run.
\<close>

theorem smoke_runs_stop:
  assumes "closing_world w"
    and "run \<in> {usb_smoke repr_of ports protos env a lm b e1, usb_wired_smoke repr_of ports protos env a lm b e1 e2,
      split_smoke env a lm e1 e2, liveness_smoke env a lm e1 t n rtt d, ble_studio_smoke env a lm e1 e2 budget q,
      ble_split_smoke ports env a lm e1 e2 e3 budget q}"
  shows "\<exists>es. snd (run w h) = h @ es \<and> stops_all es"
proof -
  have "records closing_world (\<lambda>h es r. stops_all es) run"
    using assms(2) unfolding insert_iff empty_iff usb_smoke_def usb_wired_smoke_def split_smoke_def liveness_smoke_def
      ble_studio_smoke_def ble_split_smoke_def usb_attempt_def usb_wired_attempt_def ble_split_attempt_def
    by (auto split: sum.splits intro!: records_throw retry_stops usb_run.run_stops split_run.run_stops
        usb_wired_run.run_stops liveness_run.run_stops ble_run.run_stops chain_run.run_stops)
  with assms(1) show ?thesis unfolding records_def by blast
qed

text \<open>A world where every call succeeds and nothing is ever printed: the banner never comes.\<close>

definition mute :: "(fx, string) world" where "mute h eff = Inr []"

lemma mute_closing: "closing_world mute"
  by (simp add: closing_world_def os_world_def mute_def)

theorem smoke_runs_stop_witness:
  "\<exists>es. snd (split_smoke sample_boot_env sample_boot_args sample_limits ''c'' ''p'' mute []) = [] @ es \<and>
     stops_all es \<and> emulating es"
proof -
  let ?run = "split_smoke sample_boot_env sample_boot_args sample_limits ''c'' ''p''"
  obtain es where es: "snd (?run mute []) = [] @ es" "stops_all es"
    using smoke_runs_stop[OF mute_closing, where run = ?run and env = sample_boot_env and a = sample_boot_args
        and lm = sample_limits and ?e1.0 = "''c''" and ?e2.0 = "''p''"] by blast
  have "emulating (snd (?run mute []))"
    by (simp add: split_smoke_def boot_split_wired_def session_start_def sample_boot_args_def numeral_2_eq_2
        andthen_def act_simps attempt_def go_def assert_mon_def mon_set_def since_session_def exec_def
        split_session_def ensure_def expect_text_def sample_limits_def py_in_def mute_def close_all_def close_sock_def
        stop_session_def proc_set_def quietly_def emulating_def)
  with es show ?thesis by auto
qed


fun chain_world :: "(fx, string) world" where
  "chain_world h (Drain s) =
     (if s = ''p'' then Inr ''Security changed: level 2''
      else if s = ''k'' then Inr (BLE_SECURITY_OK @ BLE_GATT_READ_OK) else Inr [])"
| "chain_world h eff = Inr []"



fun lively :: "(fx, string) world" where
  "lively h (Exec c) = Inr ''Elapsed Virtual Time: 00:00:20.5''"
| "lively h eff = Inr []"

lemma lively_reading: "next_vt ''Elapsed Virtual Time: 00:00:20.5'' vt = 41 / 2"
  by (simp add: next_vt_def time_at_def TIME_LABEL_def py_space_def digits_of_def is_digit_def Let_def nat_of_dec_def dec_digit_def)

lemma lively_symbol: "clean_symbol ''Elapsed Virtual Time: 00:00:20.5'' = ''Elapsed Virtual Time: 00:00:20.5''"
  by (code_simp)


text \<open>
  C23. The USB smoke passes only on a working Studio channel.  If its checks succeed, two device
  information requests were each answered by a core response on one of the CDC channels, and unless the image
  has no development tool, the unlock request was followed by both its notification and its response.
\<close>

theorem usb_verdict:
  assumes "usb_checks api lm nonempty cdc w h = (Inr (), h')"
  shows "\<exists>es studio. h' = h @ es \<and> studio \<in> {cdc ! 0, cdc ! 1} \<and> usb_shown api nonempty studio es"
proof -
  let ?banner = "\<lambda>reply. if flag_of reply = Some True then expect_text (banner_polls lm) (cdc ! 0) ''Booting Zephyr''
                ''never saw the Zephyr boot banner on the console CDC; got: '' else give ()"
  let ?chan = "\<lambda>reply. if flag_of reply = Some True then cdc ! 1 else cdc ! 0"
  from assms obtain v u reply y h2 name h3 where p: "wait_wired (wiring_polls lm) w h = (Inr v, u)"
    and h1: "?banner reply w (u @ [(Exec (wired_query 1), Inr reply)]) = (Inr y, h2)"
    and i0: "assert_get_device_info api (?chan reply) nonempty 2 w h2 = (Inr name, h3)"
    and b0: "assert_unlock_burst api (?chan reply) (frame_bound lm) (burst_polls lm) w h3 = (Inr (), h')"
    unfolding usb_checks_def Let_def ok_andthen ok_exec by blast
  obtain studio where i: "assert_get_device_info api studio nonempty 2 w h2 = (Inr name, h3)"
    and b: "assert_unlock_burst api studio (frame_bound lm) (burst_polls lm) w h3 = (Inr (), h')"
    and st: "studio \<in> {cdc ! 0, cdc ! 1}"
    using i0 b0 by (cases "flag_of reply = Some True") auto
  have e: "steady (?banner r)" for r
    by (intro steady_rules steady_intros)
  obtain a where a: "u = h @ a" using steady_extends[OF steady_wait_wired p] by blast
  obtain c where c: "h2 = (u @ [(Exec (wired_query 1), Inr reply)]) @ c" using steady_extends[OF e h1] by blast
  from device_info_answered[OF i[unfolded assert_get_device_info_def]] obtain es1 where
    es1: "h3 = h2 @ es1" "\<forall>i \<in> set [0..<2]. answered api studio nonempty (i + 1) es1" by blast
  from unlock_burst_shown[OF b] obtain es2 where es2: "h' = h3 @ es2" "no_devtool api studio es2 \<or> burst_shown api studio es2" by blast
  obtain d where d: "h2 = h @ d" using a c by auto
  have "answered api studio nonempty 1 (d @ es1 @ es2)" "answered api studio nonempty 2 (d @ es1 @ es2)"
    using es1(2) answered_append[of api studio nonempty _ es1 d es2] by (auto simp: numeral_2_eq_2)
  moreover have "no_devtool api studio (d @ es1 @ es2) \<or> burst_shown api studio (d @ es1 @ es2)"
    using es2(2) by (auto intro: no_devtool_more burst_shown_more)
  ultimately show ?thesis
    using d es1(1) es2(1) st unfolding usb_shown_def by (intro exI[of _ "d @ es1 @ es2"] exI[of _ studio]) simp
qed

definition sample_api :: studio_api where
  "sample_api = \<lparr>device_info_request = (\<lambda>i. [1]), has_custom = True, list_custom_request = [2],
     set_lock_request = (\<lambda>i index payload. [3, of_nat i]),
     parse_response = (\<lambda>bs. if bs = [1] then Inr (Rr 1 (Core_info ''kb''))
        else if bs = [2] then Inr (Rr 90 (Custom_list [(0, ''zmk__devtool'')]))
        else if bs = [3] then Inr (Note (Some ''core'') (Some ''lock_state_changed'')) else Inr (Rr 92 (Other_body None)))\<rparr>"

text \<open>A device: its answer depends on the last request.\<close>

definition reply_bytes :: "byte list \<Rightarrow> fx_record \<Rightarrow> string" where
  "reply_bytes bs h = (if bs = [1] then [CHR ''>'', CHR 0x01] else if bs = [2] then [CHR ''>'', CHR 0x02]
     else if bs = [3, 92] then [CHR ''>'', CHR 0x03] else [])"

fun device :: "(fx, string) world" where
  "device h (Rpc_receive s) =
     (case fst (last h) of Rpc_send _ bs \<Rightarrow> Inr (reply_bytes bs h) | _ \<Rightarrow> Inr ''>'')"
| "device h (Exec c) = Inr ''True''"
| "device h (Drain s) = Inr ''Booting Zephyr''"
| "device h eff = Inr []"

lemma sample_frames:
  "frame_reply [CHR ''>'', CHR 0x01] = Some [1]" "frame_reply [CHR ''>'', CHR 0x02] = Some [2]"
  "frame_reply [CHR ''>'', CHR 0x03] = Some [3]" "frame_reply ''>'' = Some []" "frame_reply [] = None"
  by (simp_all add: frame_reply_def)

lemma flag_true: "flag_of ''True'' = Some True"
  by code_simp

lemma devtool_in: "py_in ''devtool'' ''zmk__devtool''"
  by (simp add: py_in_def sublist_Cons_right)

theorem usb_verdict_witness:
  "\<exists>es studio. usb_checks sample_api sample_limits True [''s0'', ''s1''] device [] = (Inr (), [] @ es) \<and>
     studio \<in> {[''s0'', ''s1''] ! 0, [''s0'', ''s1''] ! 1} \<and> usb_shown sample_api True studio es"
proof -
  have "\<exists>h'. usb_checks sample_api sample_limits True [''s0'', ''s1''] device [] = (Inr (), h')"
    by (simp add: usb_checks_def sample_limits_def numeral_2_eq_2 andthen_def act_simps mon_def flag_true Let_def
        expect_text_def py_in_def assert_get_device_info_def rpc_send_def rpc_receive_def sample_api_def reply_bytes_def
        sample_frames device_name_def assert_unlock_burst_def listed_subsystems_def custom_index_def
        devtool_in[unfolded py_in_def] unlock_exchange_def unlock_id_def is_lock_note_def burst_verdict_def)
  then obtain h' where h': "usb_checks sample_api sample_limits True [''s0'', ''s1''] device [] = (Inr (), h')" ..
  show ?thesis using usb_verdict[OF h'] h' by auto
qed

text \<open>
  The retries of the USB smoke.  It passes exactly if one of its first \<open>attempts\<close> attempts passes and
  each one before it raised a retryable exception, and it ends in anything but an \<open>AssertionError\<close> exactly if
  such an attempt raised an exception that is not retried.
\<close>

lemma usb_smoke_verdict:
  "let once = (\<lambda>i. usb_attempt api env (a\<lparr>port_base := ports i\<rparr>) lm nonempty elf);
       run = usb_smoke repr_of ports (Inr api) env a lm nonempty elf w h in
   (fst run = Inr () \<longleftrightarrow> (\<exists>k < attempts lm. outcome once w h 1 k = Inr () \<and> retried usb_again once w h 1 k)) \<and>
   ((\<exists>e. fst run = Inl e \<and> \<not> assertion_error e) \<longleftrightarrow>
      (\<exists>k < attempts lm. \<exists>e. outcome once w h 1 k = Inl e \<and> \<not> usb_again e \<and> retried usb_again once w h 1 k))"
proof -
  have na: "\<not> usb_again e \<Longrightarrow> \<not> assertion_error e" for e by (cases e) auto
  show ?thesis
    unfolding Let_def usb_smoke_def sum.case usb_retry.succeeds_iff
    using usb_retry.fails_iff[where le = None] na by (simp cong: conj_cong) blast
qed

text \<open>The wireless split retries nothing but assertion errors: a timeout while booting escapes at once.\<close>

lemma split_boot_timeout_escapes:
  assumes "fst (ble_split_attempt env (a\<lparr>port_base := ports 1\<rparr>) lm e1 e2 e3 budget q w h) = Inl (TimeoutError m)"
    and "0 < attempts lm"
  shows "fst (ble_split_smoke ports env a lm e1 e2 e3 budget q w h) = Inl (TimeoutError m)"
  unfolding ble_split_smoke_def
  by (subst split_retry.fails_iff) (use assms in \<open>auto intro!: exI[of _ 0]\<close>)

end
