(* ===== verification/Ble_Runner.thy ===== *)
theory Ble_Runner
  imports Effects "HOL-Library.Char_ord" "HOL-Library.List_Lexorder"
begin

text \<open>
  The BabbleSim tests: \<open>scripts/lib/ble/runner.py\<close> and \<open>scripts/zmk_ble_test.py\<close>.  Builds, device
  processes, the phy, the filter and the diff are effects (theory Effects) answered with an exit
  code; the files of a case and the conversion of its requests are fields of \<open>ble_env\<close>.
\<close>

section \<open>Names\<close>

definition alnum :: "char \<Rightarrow> bool" where
  "alnum c = (let n = (of_char c :: nat) in
     48 \<le> n \<and> n \<le> 57 \<or> 65 \<le> n \<and> n \<le> 90 \<or> 97 \<le> n \<and> n \<le> 122)"

text \<open>\<open>re.sub(r"[^A-Za-z0-9]+", "_", s)\<close>.\<close>

function collapse :: "string \<Rightarrow> string" where
  "collapse [] = []"
| "collapse (c # cs) =
     (if alnum c then c # collapse cs
      else CHR ''_'' # collapse (dropWhile (\<lambda>d. \<not> alnum d) cs))"
  by pat_completeness auto
termination
  by (relation "measure length") (auto simp: le_imp_less_Suc length_dropWhile_le)

definition strip_char :: "char \<Rightarrow> string \<Rightarrow> string" where
  "strip_char c s = rev (dropWhile (\<lambda>d. d = c) (rev (dropWhile (\<lambda>d. d = c) s)))"

definition sanitize_prefix :: "string \<Rightarrow> string" where
  "sanitize_prefix name =
     (let cleaned = strip_char (CHR ''_'') (collapse name) in if cleaned \<noteq> [] then cleaned else ''ble'')"

definition discover_cases :: "string list \<Rightarrow> string list" where
  "discover_cases keymaps = sort_key path_parts (remdups (map path_parent keymaps))"

text \<open>\<open>_case_rel\<close>: relative to \<open>tests/ble\<close> of the module, or the bare name outside of it.\<close>

definition case_rel :: "string \<Rightarrow> string \<Rightarrow> string" where
  "case_rel root dir =
     (let rs = path_parts root; ds = path_parts dir in
      if take (length rs) ds = rs
      then (if length ds = length rs then ''.'' else py_join ''/'' (drop (length rs) ds))
      else path_name dir)"

definition slashes_to_underscores :: "string \<Rightarrow> string" where
  "slashes_to_underscores s = map (\<lambda>c. if c = CHR ''/'' then CHR ''_'' else c) s"

definition sim_id :: "string \<Rightarrow> string \<Rightarrow> string" where
  "sim_id pfx rel = pfx @ ''_'' @ slashes_to_underscores rel"

section \<open>\<open>shlex.split\<close>\<close>

text \<open>The POSIX-mode state machine: between words, in a word, in quotes, after a backslash (which
  returns to the word, or to the double quotes it stands in).\<close>

datatype lex_mode = Blank | Word | Quote char | Escape "char option"

definition shell_space :: "char \<Rightarrow> bool" where
  "shell_space c \<longleftrightarrow> c = CHR '' '' \<or> c = CHR 0x09 \<or> c = cr \<or> c = lf"

definition is_quote :: "char \<Rightarrow> bool" where
  "is_quote c \<longleftrightarrow> c = CHR 0x27 \<or> c = CHR 0x22"

definition backslash :: char where "backslash = CHR 0x5C"

text \<open>\<open>tok\<close> is the token read so far, in reverse.\<close>

fun shlex_go :: "lex_mode \<Rightarrow> string \<Rightarrow> bool \<Rightarrow> string \<Rightarrow> string list result" where
  "shlex_go Blank tok q [] = Inr []"
| "shlex_go Word tok q [] = Inr (if tok \<noteq> [] \<or> q then [rev tok] else [])"
| "shlex_go (Quote k) tok q [] = Inl (ValueError ''No closing quotation'')"
| "shlex_go (Escape k) tok q [] = Inl (ValueError ''No escaped character'')"
| "shlex_go Blank tok q (c # cs) =
     (if shell_space c then shlex_go Blank [] False cs
      else if c = backslash then shlex_go (Escape None) [] False cs
      else if is_quote c then shlex_go (Quote c) [] False cs
      else shlex_go Word [c] False cs)"
| "shlex_go Word tok q (c # cs) =
     (if shell_space c then
        bind_result (shlex_go Blank [] False cs)
          (\<lambda>ws. Inr (if tok \<noteq> [] \<or> q then rev tok # ws else ws))
      else if c = backslash then shlex_go (Escape None) tok q cs
      else if is_quote c then shlex_go (Quote c) tok q cs
      else shlex_go Word (c # tok) q cs)"
| "shlex_go (Quote k) tok q (c # cs) =
     (if c = k then shlex_go Word tok True cs
      else if c = backslash \<and> k = CHR 0x22 then shlex_go (Escape (Some k)) tok True cs
      else shlex_go (Quote k) (c # tok) True cs)"
| "shlex_go (Escape None) tok q (c # cs) = shlex_go Word (c # tok) q cs"
| "shlex_go (Escape (Some k)) tok q (c # cs) =
     shlex_go (Quote k) (if c \<noteq> backslash \<and> c \<noteq> k then c # backslash # tok else c # tok) q cs"

definition shlex_split :: "string \<Rightarrow> string list result" where
  "shlex_split s = shlex_go Blank [] False s"

section \<open>Effects\<close>

datatype bfx =
    West_build string string string "string list" string
  | Stage string string
  | Write_hex string string
  | Spawn "string list" bool
  | Run_phy "string list"
  | Reap nat
  | Kill_proc nat
  | Filter_log string string
  | Diff string string
  | Accept string string

type_synonym 'a ble_act = "(bfx, int, 'a) act"

record ble_env =
  zmk_app :: string
  module_dir :: string
  build_root :: string
  host_dir :: string
  sim_prefix :: string
  auto_accept :: bool
  has_file :: "string \<Rightarrow> bool"
  has_dir :: "string \<Rightarrow> bool"
  overlays :: "string \<Rightarrow> string list"
  host_apps :: "string list"
  file_text :: "string \<Rightarrow> string"
  convert_requests :: "string \<Rightarrow> string result"

definition tests_ble_root :: "ble_env \<Rightarrow> string" where
  "tests_ble_root env = path_join (module_dir env) ''tests/ble''"

definition west_build :: "string \<Rightarrow> string \<Rightarrow> string \<Rightarrow> string list \<Rightarrow> string \<Rightarrow> unit ble_act" where
  "west_build dir board source extra log_path =
     andthen (perform (West_build dir board source extra log_path)) (\<lambda>rc.
     if rc \<noteq> 0 then throw (BleTestError (''build failed: '' @ source)) else give ())"

definition stage :: "string \<Rightarrow> string \<Rightarrow> unit ble_act" where
  "stage exe name = andthen (perform (Stage exe name)) (\<lambda>_. give ())"

text \<open>\<open>Path.with_suffix\<close>: the part of the name from its last inner dot is replaced.\<close>

definition with_suffix :: "string \<Rightarrow> string \<Rightarrow> string" where
  "with_suffix p sfx =
     (let n = path_name p; stem = rev (drop 1 (dropWhile (\<lambda>c. c \<noteq> CHR ''.'') (rev n))) in
      if CHR ''.'' \<in> set n \<and> stem \<noteq> [] \<and> last n \<noteq> CHR ''.''
      then take (length p - length n) p @ stem @ sfx else p @ sfx)"

text \<open>\<open>build_host_apps\<close>; \<open>host_apps\<close> are the \<open>CMakeLists.txt\<close> files that the two patterns match.\<close>

definition build_host_apps :: "ble_env \<Rightarrow> unit ble_act" where
  "build_host_apps env =
     (let central = path_join (zmk_app env) ''tests/ble/central'';
          dir = path_join (build_root env) ''central'' in
      andthen
        (if has_dir env central then
           andthen (west_build dir ''nrf52_bsim'' central [] (with_suffix dir ''.build.log''))
             (\<lambda>_. stage (path_join dir ''zephyr/zephyr.exe'') ''ble_test_central.exe'')
         else give ())
        (\<lambda>_. andthen
          (each (\<lambda>cmake.
             let app = path_parent cmake; name = path_name app; adir = path_join (build_root env) name;
                 built = path_join adir ''zephyr/zephyr.exe'' in
             andthen (west_build adir ''nrf52_bsim'' app [] (with_suffix adir ''.build.log'')) (\<lambda>_.
             andthen (stage built (sim_prefix env @ ''_'' @ name @ ''.exe'')) (\<lambda>_.
             stage built (name @ ''.exe''))))
             (sort_key path_parts (remdups (host_apps env))))
          (\<lambda>_. give ())))"

section \<open>The simulation\<close>

definition read_siblings :: "ble_env \<Rightarrow> string \<Rightarrow> string list" where
  "read_siblings env path =
     (if \<not> has_file env path then []
      else filter (\<lambda>l. l \<noteq> []) (map py_strip (splitlines (file_text env path))))"

definition dut_argv :: "string \<Rightarrow> string list" where
  "dut_argv sid = [''./'' @ sid, ''-d=0'', ''-s='' @ sid]"

definition handbrake_argv :: "string \<Rightarrow> string list" where
  "handbrake_argv sid = [''./bs_device_handbrake'', ''-s='' @ sid, ''-d=1'', ''-r=10'']"

definition phy_argv :: "string \<Rightarrow> nat \<Rightarrow> string list" where
  "phy_argv sid n = [''./bs_2G4_phy_v1'', ''-s='' @ sid, ''-D='' @ dec_of_nat n, ''-sim_length=50e6'']"

definition spawn_sibling :: "string \<Rightarrow> string \<Rightarrow> int ble_act" where
  "spawn_sibling sid line =
     (case shlex_split line of
        Inl e \<Rightarrow> throw e
      | Inr argv \<Rightarrow> perform (Spawn (argv @ [''-s='' @ sid]) True))"

text \<open>\<open>_run_simulation\<close>: the devices, then the phy in the foreground, then every device is reaped; a
  phy or a device that exceeds its time is not an error.\<close>

definition reap :: "nat \<Rightarrow> unit ble_act" where
  "reap k = attempt (andthen (perform (Reap k)) (\<lambda>_. give ()))
     (\<lambda>e. case e of TimeoutError _ \<Rightarrow> andthen (perform (Kill_proc k)) (\<lambda>_. give ()) | _ \<Rightarrow> throw e)"

definition run_simulation :: "string \<Rightarrow> string list \<Rightarrow> unit ble_act" where
  "run_simulation sid siblings =
     andthen (perform (Spawn (dut_argv sid) True)) (\<lambda>_.
     andthen (perform (Spawn (handbrake_argv sid) False)) (\<lambda>_.
     andthen (each (spawn_sibling sid) siblings) (\<lambda>_.
     andthen (attempt (andthen (perform (Run_phy (phy_argv sid (2 + length siblings)))) (\<lambda>_. give ()))
       (\<lambda>e. case e of TimeoutError _ \<Rightarrow> give () | _ \<Rightarrow> throw e)) (\<lambda>_.
     andthen (each reap [0..<2 + length siblings]) (\<lambda>_. give ())))))"

section \<open>One case\<close>

datatype status = Pass | Failed | Pending

text \<open>\<open>_evaluate\<close>: \<open>Diff\<close> answers the exit code of \<open>diff -auZ\<close>.\<close>

definition evaluate :: "ble_env \<Rightarrow> string \<Rightarrow> string \<Rightarrow> status ble_act" where
  "evaluate env case_dir case_build =
     (let snapshot = path_join case_dir ''events.snapshot'';
          filtered = path_join case_build ''filtered_output.log'' in
      andthen (perform (Filter_log (path_join case_build ''output.log'') (path_join case_dir ''events.patterns''))) (\<lambda>_.
      andthen (perform (Diff snapshot filtered)) (\<lambda>rc.
      if rc = 0 then give Pass
      else if has_file env (path_join case_dir ''pending'') then give Pending
      else if auto_accept env then andthen (perform (Accept filtered snapshot)) (\<lambda>_. give Pass)
      else give Failed)))"

text \<open>\<open>_resolve_studio_requests\<close>: the hex file to embed, converted from JSON when that is the form.\<close>

definition conversion_error :: "string \<Rightarrow> exn \<Rightarrow> exn" where
  "conversion_error rel e =
     (case e of
        ImportError m \<Rightarrow> BleTestError (''case '' @ rel @ '': converting studio_requests.json requires protobuf'')
      | RuntimeError m \<Rightarrow> BleTestError (''case '' @ rel @ '': studio_requests.json conversion failed: '' @ m)
      | ValueError m \<Rightarrow> BleTestError (''case '' @ rel @ '': studio_requests.json conversion failed: '' @ m)
      | OSError m \<Rightarrow> BleTestError (''case '' @ rel @ '': studio_requests.json conversion failed: '' @ m)
      | TimeoutError m \<Rightarrow> BleTestError (''case '' @ rel @ '': studio_requests.json conversion failed: '' @ m)
      | _ \<Rightarrow> e)"

definition resolve_studio_requests :: "ble_env \<Rightarrow> string \<Rightarrow> string \<Rightarrow> string \<Rightarrow> string option ble_act" where
  "resolve_studio_requests env case_dir case_build rel =
     (let json_file = path_join case_dir ''studio_requests.json'';
          hex_file = path_join case_dir ''studio_requests.hex'' in
      if has_file env json_file \<and> has_file env hex_file
      then throw (BleTestError (''case '' @ rel @ '': both studio_requests.json and studio_requests.hex exist''))
      else if has_file env hex_file then give (Some hex_file)
      else if \<not> has_file env json_file then give None
      else
        (case convert_requests env json_file of
           Inl e \<Rightarrow> throw (conversion_error rel e)
         | Inr content \<Rightarrow>
             (let derived = path_join case_build ''studio_requests.hex'' in
              andthen (perform (Write_hex derived content)) (\<lambda>_. give (Some derived)))))"

definition overlay_name :: "string \<Rightarrow> string" where
  "overlay_name overlay = (let n = path_name overlay in take (length n - 8) n)"

definition expand_line :: "ble_env \<Rightarrow> string \<Rightarrow> string \<Rightarrow> string" where
  "expand_line env studio_host_exe line =
     py_replace ''{studio_host}'' studio_host_exe (py_replace ''{prefix}'' (sim_prefix env) line)"

definition run_case :: "ble_env \<Rightarrow> string \<Rightarrow> (string \<times> status) ble_act" where
  "run_case env case_dir =
     (let rel = case_rel (tests_ble_root env) case_dir;
          sid = sim_id (sim_prefix env) rel;
          case_build = path_join (build_root env) rel;
          overlay_files = sort_key path_parts (overlays env case_dir);
          peripheral_conf = path_join case_dir ''peripheral.conf'';
          central_conf = path_join case_dir ''central.conf'';
          extra_peripheral = (if has_file env peripheral_conf then [''-DEXTRA_CONF_FILE='' @ peripheral_conf] else []);
          extra_central = (if has_file env central_conf then [''-DEXTRA_CONF_FILE='' @ central_conf] else [])
            @ (if overlay_files \<noteq> [] then [''-DCONFIG_ZMK_SPLIT_ROLE_CENTRAL=y''] else []);
          config = [''-DZMK_CONFIG='' @ case_dir, ''-DZMK_EXTRA_MODULES='' @ module_dir env];
          studio_host_exe = sid @ ''_studio_host.exe'' in
      andthen (each (\<lambda>overlay. west_build (path_join case_build (overlay_name overlay)) ''nrf52_bsim//zmk_test_mock''
          (zmk_app env) (config @ [''-DEXTRA_DTC_OVERLAY_FILE='' @ overlay] @ extra_peripheral)
          (path_join case_build (overlay_name overlay @ ''.build.log''))) overlay_files) (\<lambda>_.
      andthen (west_build (path_join case_build ''dut'') ''nrf52_bsim//zmk_test_mock'' (zmk_app env)
          (config @ extra_central) (path_join case_build ''dut.build.log'')) (\<lambda>_.
      andthen (stage (path_join case_build ''dut/zephyr/zmk.exe'') sid) (\<lambda>_.
      andthen (each (\<lambda>overlay. stage (path_join (path_join case_build (overlay_name overlay)) ''zephyr/zmk.exe'')
          (sid @ ''_'' @ overlay_name overlay @ ''.exe'')) overlay_files) (\<lambda>_.
      andthen (resolve_studio_requests env case_dir case_build rel) (\<lambda>requests_hex.
      andthen
        (case requests_hex of
           None \<Rightarrow> give ()
         | Some hex \<Rightarrow>
             if \<not> has_dir env (host_dir env)
             then throw (BleTestError (''case '' @ rel @ '' has studio_requests data but the shared host app was not found''))
             else andthen (west_build (path_join case_build ''studio_host'') ''nrf52_bsim'' (host_dir env)
                 [''-DSTUDIO_REQUESTS_HEX_FILE='' @ hex] (path_join case_build ''studio_host.build.log''))
               (\<lambda>_. stage (path_join case_build ''studio_host/zephyr/zephyr.exe'') studio_host_exe)) (\<lambda>_.
      andthen (run_simulation sid (map (expand_line env studio_host_exe)
          (read_siblings env (path_join case_dir ''siblings.txt'')))) (\<lambda>_.
      andthen (evaluate env case_dir case_build) (\<lambda>st. give (rel, st))))))))))"

text \<open>\<open>run\<close>: sequentially, or in a pool whose \<open>map\<close> keeps the order; the summary is sorted by name.\<close>

definition run_cases :: "ble_env \<Rightarrow> string list \<Rightarrow> (string \<times> status) list ble_act" where
  "run_cases env cases = each (run_case env) cases"

definition status_text :: "status \<Rightarrow> string" where
  "status_text st = (case st of Pass \<Rightarrow> ''PASS'' | Failed \<Rightarrow> ''FAILED'' | Pending \<Rightarrow> ''PENDING'')"

definition summary :: "(string \<times> status) list \<Rightarrow> string list" where
  "summary results = map (\<lambda>(rel, st). status_text st @ '': '' @ rel) (sort_key fst results)"

section \<open>\<open>west zmk-ble-test\<close>\<close>

text \<open>\<open>git_top\<close> is what \<open>git rev-parse --show-toplevel\<close> prints, \<open>None\<close> when it fails.\<close>

definition resolve_module ::
  "(string \<Rightarrow> string) \<Rightarrow> (string \<Rightarrow> bool) \<Rightarrow> string option \<Rightarrow> string \<Rightarrow> string option \<Rightarrow> string result"
where
  "resolve_module absolute is_dir git_top cwd module_arg =
     (if truthy module_arg then
        (let m = absolute (the module_arg) in
         if \<not> is_dir m then Inl (SystemExit (''--module is not a directory: '' @ m)) else Inr m)
      else
        (case git_top of
           None \<Rightarrow> Inr cwd
         | Some out \<Rightarrow> if py_strip out \<noteq> [] then Inr (py_strip out) else Inr cwd))"

definition resolve_bsim ::
  "(string \<Rightarrow> string) \<Rightarrow> (string \<Rightarrow> bool) \<Rightarrow> string \<Rightarrow> string option \<Rightarrow> string option \<Rightarrow> string option \<Rightarrow>
     (string \<times> string) result"
where
  "resolve_bsim absolute is_file topdir out_path components bsim_arg =
     (let phy = ''bin/bs_2G4_phy_v1'';
          candidate = path_join topdir ''dependencies/tools/bsim'';
          b0 = (if truthy bsim_arg then bsim_arg else out_path);
          bsim = (if truthy b0 then b0
                  else if is_file (path_join candidate phy) then Some candidate else None) in
      case bsim of
        None \<Rightarrow> Inl (SystemExit ''BSIM_OUT_PATH is not set'')
      | Some b \<Rightarrow>
          (let bp = absolute b in
           if \<not> is_file (path_join bp phy) then Inl (SystemExit ''no bin/bs_2G4_phy_v1 (uncompiled?)'')
           else Inr (bp, if truthy components then absolute (the components) else path_join bp ''components'')))"

text \<open>The end of \<open>do_run\<close>, from the discovered cases on; \<open>log.die\<close> raises \<open>SystemExit\<close>.\<close>

definition exn_text :: "exn \<Rightarrow> string" where
  "exn_text e = (case e of AssertionError m \<Rightarrow> m | TimeoutError m \<Rightarrow> m | OSError m \<Rightarrow> m | ValueError m \<Rightarrow> m
     | KeyError m \<Rightarrow> m | RuntimeError m \<Rightarrow> m | ImportError m \<Rightarrow> m | ParseError m \<Rightarrow> m | BleTestError m \<Rightarrow> m
     | SystemExit m \<Rightarrow> m)"

definition ble_do_run :: "ble_env \<Rightarrow> string list \<Rightarrow> unit ble_act" where
  "ble_do_run env keymaps =
     (let cases = discover_cases keymaps in
      if cases = [] then throw (SystemExit ''no test cases (nrf52_bsim.keymap) found'')
      else
        andthen
          (attempt (andthen (build_host_apps env) (\<lambda>_. run_cases env cases))
            (\<lambda>e. throw (SystemExit (exn_text e)))) (\<lambda>results.
        let failed = filter (\<lambda>r. snd r = Failed) results in
        if failed \<noteq> []
        then throw (SystemExit (dec_of_nat (length failed) @ '' BLE case(s) FAILED: '' @ py_join '', '' (map fst failed)))
        else give ()))"

text \<open>The whole of \<open>do_run\<close>: what the command resolves before it runs the cases.\<close>

record ble_host =
  projects :: "(string \<times> string) list"
  ws_topdir :: string
  work_dir :: string
  absolute_of :: "string \<Rightarrow> string"
  dir_exists :: "string \<Rightarrow> bool"
  file_exists :: "string \<Rightarrow> bool"
  git_top_of :: "string option"
  bsim_variable :: "string option"
  components_variable :: "string option"
  accept_variable :: "string option"
  keymaps_below :: "string \<Rightarrow> string list"

record ble_args =
  tests_arg :: "string option"
  module_arg :: "string option"
  bsim_arg :: "string option"
  prefix_arg :: "string option"
  accept_arg :: bool

record ble_setup =
  set_app :: string
  set_module :: string
  set_tests :: string
  set_prefix :: string
  set_accept :: bool
  set_bsim :: "string \<times> string"

definition zmk_app_of :: "ble_host \<Rightarrow> string result" where
  "zmk_app_of host =
     (case filter (\<lambda>(n, p). n = ''zmk'') (projects host) of
        [] \<Rightarrow> Inl (SystemExit ''ZMK project not found in the west manifest.'')
      | (n, p) # _ \<Rightarrow>
          (let app = path_join p ''app'' in
           if dir_exists host app then Inr app else Inl (SystemExit (''ZMK app dir not found: '' @ app))))"

definition ble_prepare :: "ble_host \<Rightarrow> ble_args \<Rightarrow> ble_setup result" where
  "ble_prepare host args =
     bind_result (zmk_app_of host) (\<lambda>app.
     bind_result (resolve_module (absolute_of host) (dir_exists host) (git_top_of host) (work_dir host) (module_arg args)) (\<lambda>m.
     bind_result (resolve_bsim (absolute_of host) (file_exists host) (ws_topdir host) (bsim_variable host)
         (components_variable host) (bsim_arg args)) (\<lambda>bsim.
     let tests = (if truthy (tests_arg args) then absolute_of host (the (tests_arg args)) else work_dir host) in
     if \<not> (dir_exists host tests \<or> file_exists host tests)
     then Inl (SystemExit (''tests_path does not exist: '' @ tests))
     else Inr \<lparr>set_app = app, set_module = m, set_tests = tests,
       set_prefix = (if truthy (prefix_arg args) then the (prefix_arg args) else sanitize_prefix (path_name m)),
       set_accept = (accept_arg args \<or> truthy (accept_variable host)), set_bsim = bsim\<rparr>)))"

text \<open>The constructor of \<open>BleRunner\<close>; \<open>disk\<close> gives the fields that stand for the file system.\<close>

definition runner_env :: "ble_host \<Rightarrow> ble_setup \<Rightarrow> ble_env \<Rightarrow> ble_env" where
  "runner_env host st disk =
     disk\<lparr>zmk_app := set_app st, module_dir := set_module st,
       build_root := path_join (ws_topdir host) ''build/ble'', sim_prefix := set_prefix st, auto_accept := set_accept st\<rparr>"

definition zmk_ble_test :: "ble_host \<Rightarrow> ble_env \<Rightarrow> ble_args \<Rightarrow> unit ble_act" where
  "zmk_ble_test host disk args =
     (case ble_prepare host args of
        Inl e \<Rightarrow> throw e
      | Inr st \<Rightarrow> ble_do_run (runner_env host st disk) (keymaps_below host (set_tests st)))"

section \<open>Lemmas on names\<close>

definition id_char :: "char \<Rightarrow> bool" where
  "id_char c \<longleftrightarrow> alnum c \<or> c = CHR ''_''"

lemma underscore_not_alnum [simp]: "\<not> alnum (CHR ''_'')"
  by (simp add: alnum_def)

definition no_double :: "string \<Rightarrow> bool" where
  "no_double s \<longleftrightarrow> successively (\<lambda>a b. \<not> (a = CHR ''_'' \<and> b = CHR ''_'')) s"

lemma collapse_chars: "list_all id_char (collapse s)"
  by (induction s rule: collapse.induct) (auto simp: id_char_def)

lemma collapse_hd: "collapse s \<noteq> [] \<Longrightarrow> s \<noteq> [] \<Longrightarrow> alnum (hd s) \<Longrightarrow> hd (collapse s) = hd s"
  by (cases s) auto

lemma collapse_empty [simp]: "collapse s = [] \<longleftrightarrow> s = []"
  by (cases s) auto

lemma no_double_Cons:
  "no_double (c # s) \<longleftrightarrow> no_double s \<and> (s = [] \<or> \<not> (c = CHR ''_'' \<and> hd s = CHR ''_''))"
  by (cases s) (auto simp: no_double_def)

lemma collapse_no_double: "no_double (collapse s)"
proof (induction s rule: collapse.induct)
  case 1
  then show ?case by (simp add: no_double_def)
next
  case (2 c cs)
  show ?case
  proof (cases "alnum c")
    case True
    then have "c \<noteq> CHR ''_''" by auto
    with True 2(1) show ?thesis by (simp add: no_double_Cons)
  next
    case False
    let ?d = "dropWhile (\<lambda>d. \<not> alnum d) cs"
    have "?d \<noteq> [] \<Longrightarrow> hd (collapse ?d) \<noteq> CHR ''_''"
      using hd_dropWhile[of "\<lambda>d. \<not> alnum d" cs] collapse_hd[of ?d] by auto
    with False 2(2) show ?thesis by (auto simp: no_double_Cons)
  qed
qed

lemma collapse_fixed: "list_all id_char s \<Longrightarrow> no_double s \<Longrightarrow> collapse s = s"
proof (induction s rule: collapse.induct)
  case (2 c cs)
  show ?case
  proof (cases "alnum c")
    case True
    with 2 show ?thesis by (simp add: no_double_Cons)
  next
    case False
    with 2(3) have c: "c = CHR ''_''" by (simp add: id_char_def)
    have "dropWhile (\<lambda>d. \<not> alnum d) cs = cs"
    proof (cases cs)
      case (Cons d ds)
      with 2(3,4) c show ?thesis by (auto simp: no_double_Cons id_char_def)
    qed simp
    with False 2 c show ?thesis by (simp add: no_double_Cons)
  qed
qed simp

lemma strip_char_parts: "\<exists>a b. s = a @ strip_char c s @ b"
proof -
  obtain a where a: "s = a @ dropWhile (\<lambda>d. d = c) s" by (metis takeWhile_dropWhile_id)
  let ?t = "dropWhile (\<lambda>d. d = c) s"
  have "rev ?t = takeWhile (\<lambda>d. d = c) (rev ?t) @ dropWhile (\<lambda>d. d = c) (rev ?t)" by simp
  then have "?t = strip_char c s @ rev (takeWhile (\<lambda>d. d = c) (rev ?t))"
    by (metis rev_append rev_rev_ident strip_char_def)
  with a show ?thesis by metis
qed

lemma strip_char_ends:
  assumes "strip_char c s \<noteq> []"
  shows "hd (strip_char c s) \<noteq> c" "last (strip_char c s) \<noteq> c"
proof -
  let ?t = "dropWhile (\<lambda>d. d = c) s"
  have ne: "dropWhile (\<lambda>d. d = c) (rev ?t) \<noteq> []" using assms by (simp add: strip_char_def)
  have "?t \<noteq> []" using ne by (metis dropWhile.simps(1) rev.simps(1))
  show "last (strip_char c s) \<noteq> c"
    using hd_dropWhile[OF ne] by (simp add: strip_char_def last_rev)
  obtain u where u: "?t = strip_char c s @ u"
    by (metis rev_append rev_rev_ident strip_char_def takeWhile_dropWhile_id)
  have "hd ?t \<noteq> c" using hd_dropWhile[OF \<open>?t \<noteq> []\<close>] .
  with u assms show "hd (strip_char c s) \<noteq> c" by (metis hd_append2)
qed

lemma strip_char_fixed: "s = [] \<or> hd s \<noteq> c \<and> last s \<noteq> c \<Longrightarrow> strip_char c s = s"
proof (elim disjE conjE)
  assume "hd s \<noteq> c" "last s \<noteq> c"
  then have "dropWhile (\<lambda>d. d = c) s = s" by (cases s) auto
  moreover have "dropWhile (\<lambda>d. d = c) (rev s) = rev s"
    using \<open>last s \<noteq> c\<close> by (cases "rev s") (auto simp: last_rev dest: arg_cong[of _ _ rev])
  ultimately show ?thesis by (simp add: strip_char_def)
qed (simp add: strip_char_def)

text \<open>What a bsim id may be made of.\<close>

definition safe_prefix :: "string \<Rightarrow> bool" where
  "safe_prefix s \<longleftrightarrow> s \<noteq> [] \<and> list_all id_char s \<and> no_double s \<and> hd s \<noteq> CHR ''_'' \<and> last s \<noteq> CHR ''_''"

lemma sanitize_safe: "safe_prefix (sanitize_prefix name)"
proof -
  let ?c = "strip_char (CHR ''_'') (collapse name)"
  obtain a b where ab: "collapse name = a @ ?c @ b" using strip_char_parts by blast
  have "list_all id_char ?c" using collapse_chars[of name] by (subst (asm) ab) simp
  moreover have "no_double ?c"
    using collapse_no_double[of name] unfolding no_double_def by (subst (asm) ab) (simp add: successively_append_iff)
  moreover have "safe_prefix ''ble''" by (simp add: safe_prefix_def id_char_def alnum_def no_double_def)
  ultimately show ?thesis
    using strip_char_ends[of "CHR ''_''" "collapse name"]
    by (auto simp: sanitize_prefix_def Let_def safe_prefix_def)
qed

lemma sanitize_fixed: "safe_prefix s \<Longrightarrow> sanitize_prefix s = s"
  by (simp add: sanitize_prefix_def safe_prefix_def collapse_fixed strip_char_fixed)

lemma slashes_inj:
  assumes "CHR ''_'' \<notin> set r1" "CHR ''_'' \<notin> set r2" "slashes_to_underscores r1 = slashes_to_underscores r2"
  shows "r1 = r2"
proof -
  have "inj_on (\<lambda>c. if c = CHR ''/'' then CHR ''_'' else c) (set r1 \<union> set r2)"
    using assms(1,2) by (auto simp: inj_on_def)
  then show ?thesis using assms(3) by (simp add: slashes_to_underscores_def inj_on_map_eq_map)
qed

lemma case_rel_below: "r \<noteq> [] \<Longrightarrow> case_rel root (root @ ''/'' @ r) = r"
proof -
  assume "r \<noteq> []"
  have "path_parts (root @ ''/'' @ r) = path_parts root @ path_parts r"
    using split_char_append_full[of "CHR ''/''" root r] by (simp add: path_parts_def)
  then show ?thesis by (simp add: case_rel_def path_parts_def)
qed

section \<open>Lemmas on the simulation\<close>

definition is_reap :: "bfx \<Rightarrow> bool" where
  "is_reap eff \<longleftrightarrow> (\<exists>k. eff = Reap k)"

text \<open>The devices are reaped in order, each one that exceeded its time is killed, nothing else.\<close>

definition reaps :: "nat list \<Rightarrow> (bfx, int) record_of \<Rightarrow> bool" where
  "reaps ks es \<longleftrightarrow> filter is_reap (map fst es) = map Reap ks \<and>
     (\<forall>eff \<in> fst ` set es. is_reap eff \<or> (\<exists>k. eff = Kill_proc k)) \<and>
     (\<forall>k m. (Reap k, Inl (TimeoutError m)) \<in> set es \<longrightarrow> Kill_proc k \<in> fst ` set es)"

lemma reap_records: "records W (\<lambda>h es r. is_ok r \<longrightarrow> reaps [k] es) (reap k)"
  unfolding reap_def
proof (rule records_attempt[where R = "\<lambda>h es r. \<exists>a. es = [(Reap k, a)] \<and> (\<forall>e. r = Inl e \<longrightarrow> a = Inl e) \<and> (is_ok r \<longrightarrow> is_ok a)"
      and S = "\<lambda>e h es r. is_ok r \<longrightarrow> (\<exists>m. e = TimeoutError m) \<and> (\<exists>a. es = [(Kill_proc k, a)])"])
  show "records W (\<lambda>h es r. \<exists>a. es = [(Reap k, a)] \<and> (\<forall>e. r = Inl e \<longrightarrow> a = Inl e) \<and> (is_ok r \<longrightarrow> is_ok a))
      (andthen (perform (Reap k)) (\<lambda>_. give ()))"
    by (rule records_andthen[where R = "\<lambda>h es r. es = [(Reap k, r)]" and S = "\<lambda>_ h es r. es = [] \<and> r = Inr ()"])
      (auto intro: records_perform records_give)
  have kill: "records W (\<lambda>h es r. is_ok r \<longrightarrow> (\<exists>a. es = [(Kill_proc k, a)])) (andthen (perform (Kill_proc k)) (\<lambda>_. give ()))"
    by (rule records_andthen[where R = "\<lambda>h es r. \<exists>a. es = [(Kill_proc k, a)]" and S = "\<lambda>_ h es r. es = []"])
      (auto intro: records_perform records_give)
  show "records W (\<lambda>h es r. is_ok r \<longrightarrow> (\<exists>m. e = TimeoutError m) \<and> (\<exists>a. es = [(Kill_proc k, a)]))
      (case e of TimeoutError _ \<Rightarrow> andthen (perform (Kill_proc k)) (\<lambda>_. give ()) | _ \<Rightarrow> throw e)" for e
    using kill by (cases e) (simp_all add: records_throw)
qed (auto simp: reaps_def is_reap_def elim: is_ok.elims)

lemma reaps_append: "reaps ks es \<Longrightarrow> reaps ks' es' \<Longrightarrow> reaps (ks @ ks') (es @ es')"
  unfolding reaps_def by (auto 4 3)

lemma reap_all: "records W (\<lambda>h es r. is_ok r \<longrightarrow> reaps ks es) (each reap ks)"
proof (induction ks)
  case Nil
  then show ?case by (simp add: records_give reaps_def)
next
  case (Cons k ks)
  have rest: "records W (\<lambda>h es r. is_ok r \<longrightarrow> reaps ks es) (andthen (each reap ks) (\<lambda>ys. give (y # ys)))" for y
    by (rule records_andthen[OF Cons.IH, where S = "\<lambda>_ h es r. es = []"]) (auto intro: records_give)
  show ?case
    unfolding each.simps
    by (rule records_andthen[OF reap_records rest]) (use reaps_append[of "[k]" _ ks] in auto)
qed

lemma siblings_records:
  "records W (\<lambda>h es r. is_ok r \<longrightarrow> (\<exists>argvs. map_result shlex_split siblings = Inr argvs \<and>
     map fst es = map (\<lambda>argv. Spawn (argv @ [''-s='' @ sid]) True) argvs)) (each (spawn_sibling sid) siblings)"
proof (induction siblings)
  case Nil
  then show ?case by (simp add: records_give)
next
  case (Cons line siblings)
  have head: "records W (\<lambda>h es r. is_ok r \<longrightarrow> (\<exists>argv. shlex_split line = Inr argv \<and>
      map fst es = [Spawn (argv @ [''-s='' @ sid]) True])) (spawn_sibling sid line)"
    by (cases "shlex_split line") (simp_all add: spawn_sibling_def records_throw records_perform)
  have rest: "records W (\<lambda>h es r. is_ok r \<longrightarrow> (\<exists>argvs. map_result shlex_split siblings = Inr argvs \<and>
      map fst es = map (\<lambda>argv. Spawn (argv @ [''-s='' @ sid]) True) argvs))
      (andthen (each (spawn_sibling sid) siblings) (\<lambda>ys. give (y # ys)))" for y
    by (rule records_andthen[OF Cons.IH, where S = "\<lambda>_ h es r. es = []"]) (auto intro: records_give)
  show ?case
    unfolding each.simps by (rule records_andthen[OF head rest]) auto
qed

text \<open>A record that starts with the effects \<open>L\<close> and goes on with the reaping of \<open>n\<close> devices.\<close>

definition shape :: "bfx list \<Rightarrow> nat \<Rightarrow> (bfx, int) record_of \<Rightarrow> bool" where
  "shape L n es \<longleftrightarrow> (\<exists>s ends. es = s @ ends \<and> map fst s = L \<and> reaps [0..<n] ends)"

lemma shape_ends: "reaps [0..<n] es \<Longrightarrow> shape [] n es"
  unfolding shape_def by (intro exI[of _ "[]"] exI[of _ es]) simp

lemma shape_prepend: "shape L n es \<Longrightarrow> map fst xs = l \<Longrightarrow> shape (l @ L) n (xs @ es)"
  unfolding shape_def by (elim exE conjE, rule_tac x = "xs @ s" in exI) auto

lemma shape_Cons: "shape L n es \<Longrightarrow> shape (eff # L) n ((eff, a) # es)"
  using shape_prepend[of L n es "[(eff, a)]" "[eff]"] by simp

definition simulated :: "string \<Rightarrow> string list \<Rightarrow> (bfx, int) record_of \<Rightarrow> bool" where
  "simulated sid siblings es \<longleftrightarrow> (\<exists>argvs. map_result shlex_split siblings = Inr argvs \<and>
     shape ([Spawn (dut_argv sid) True, Spawn (handbrake_argv sid) False]
       @ map (\<lambda>argv. Spawn (argv @ [''-s='' @ sid]) True) argvs @ [Run_phy (phy_argv sid (2 + length argvs))])
       (2 + length argvs) es)"

lemma phy_records:
  "records W (\<lambda>h es r. map fst es = [Run_phy argv])
     (attempt (andthen (perform (Run_phy argv)) (\<lambda>_. give ())) (\<lambda>e. case e of TimeoutError _ \<Rightarrow> give () | _ \<Rightarrow> throw e))"
proof (rule records_attempt[where S = "\<lambda>_ h es r. es = []"])
  show "records W (\<lambda>h es r. map fst es = [Run_phy argv]) (andthen (perform (Run_phy argv)) (\<lambda>_. give ()))"
    by (rule records_andthen[where R = "\<lambda>h es r. map fst es = [Run_phy argv]" and S = "\<lambda>_ h es r. es = []"])
      (auto intro: records_perform records_give)
  show "records W (\<lambda>h es r. es = []) (case e of TimeoutError _ \<Rightarrow> give () | _ \<Rightarrow> throw e)" for e
    by (cases e) (simp_all add: records_give records_throw)
qed auto

lemma shape_step:
  assumes "records W (\<lambda>h es r. map fst es = l) m" and "\<And>x. records W (\<lambda>h es r. is_ok r \<longrightarrow> shape L n es) (f x)"
  shows "records W (\<lambda>h es r. is_ok r \<longrightarrow> shape (l @ L) n es) (andthen m f)"
  by (rule records_andthen[OF assms]) (auto intro: shape_prepend)

lemma run_simulation_records: "records W (\<lambda>h es r. is_ok r \<longrightarrow> simulated sid siblings es) (run_simulation sid siblings)"
proof -
  let ?n = "2 + length siblings"
  let ?phy = "attempt (andthen (perform (Run_phy (phy_argv sid ?n))) (\<lambda>_. give ()))
        (\<lambda>e. case e of TimeoutError _ \<Rightarrow> give () | _ \<Rightarrow> throw e)"
  let ?sib = "\<lambda>argvs. map (\<lambda>argv. Spawn (argv @ [''-s='' @ sid]) True) argvs @ [Run_phy (phy_argv sid ?n)]"
  let ?fin = "andthen (each reap [0..<?n]) (\<lambda>_. give ())"
  have ends: "records W (\<lambda>h es r. is_ok r \<longrightarrow> shape [] ?n es) ?fin"
    by (rule records_andthen[OF reap_all, where S = "\<lambda>_ h es r. es = []"]) (auto intro: records_give shape_ends)
  have phy: "records W (\<lambda>h es r. is_ok r \<longrightarrow> shape [Run_phy (phy_argv sid ?n)] ?n es) (andthen ?phy (\<lambda>_. ?fin))"
    using shape_step[OF phy_records ends] by simp
  have sib: "records W (\<lambda>h es r. is_ok r \<longrightarrow> (\<exists>argvs. map_result shlex_split siblings = Inr argvs \<and> shape (?sib argvs) ?n es))
      (andthen (each (spawn_sibling sid) siblings) (\<lambda>_. andthen ?phy (\<lambda>_. ?fin)))"
    by (rule records_andthen[OF siblings_records phy]) (auto intro: shape_prepend)
  have spawn: "records W (\<lambda>h es r. map fst es = [Spawn argv tee]) (perform (Spawn argv tee))" for argv tee
    by (rule records_perform) simp
  have more: "records W (\<lambda>h es r. is_ok r \<longrightarrow> (\<exists>argvs. map_result shlex_split siblings = Inr argvs \<and> shape (l @ L argvs) ?n es))
      (andthen (perform (Spawn argv tee)) f)"
    if "\<And>x. records W (\<lambda>h es r. is_ok r \<longrightarrow> (\<exists>argvs. map_result shlex_split siblings = Inr argvs \<and> shape (L argvs) ?n es)) (f x)"
      "l = [Spawn argv tee]"
    for argv tee and f :: "int \<Rightarrow> unit ble_act" and l L
    by (rule records_andthen[OF spawn that(1)]) (use that(2) in \<open>auto intro: shape_Cons\<close>)
  have all: "records W (\<lambda>h es r. is_ok r \<longrightarrow> (\<exists>argvs. map_result shlex_split siblings = Inr argvs \<and>
      shape ([Spawn (dut_argv sid) True] @ [Spawn (handbrake_argv sid) False] @ ?sib argvs) ?n es)) (run_simulation sid siblings)"
    unfolding run_simulation_def by (rule more[OF more[OF sib refl] refl])
  have len: "map_result shlex_split siblings = Inr argvs \<Longrightarrow> length argvs = length siblings" for argvs
    by (rule map_result_length)
  show ?thesis
    by (rule records_mono[OF all]) (auto simp: simulated_def len)
qed

section \<open>Lemmas on the verdict\<close>

definition accepted_case :: "ble_env \<Rightarrow> string \<Rightarrow> status \<Rightarrow> (bfx \<times> int result) set \<Rightarrow> bool" where
  "accepted_case env dir st S \<longleftrightarrow> (\<exists>filtered rc. (Diff (path_join dir ''events.snapshot'') filtered, Inr rc) \<in> S \<and>
     (st = Failed \<or> rc = 0 \<or> (st = Pending \<and> has_file env (path_join dir ''pending'')) \<or>
      (auto_accept env \<and> (\<exists>a. (Accept filtered (path_join dir ''events.snapshot''), Inr a) \<in> S))))"

lemma grows_accepted: "grows (accepted_case env dir)"
  unfolding grows_def accepted_case_def by blast

lemma grows_accepted_pair: "grows (\<lambda>y. accepted_case env dir (snd y))"
  unfolding grows_def accepted_case_def by blast

lemma evaluate_leaves: "leaves W (accepted_case env dir) (evaluate env dir build)"
proof -
  let ?snap = "path_join dir ''events.snapshot''" and ?f = "path_join build ''filtered_output.log''"
  have acc: "records W (\<lambda>h es r. \<forall>y. r = Inr y \<longrightarrow> y = Pass \<and> (\<exists>a. (Accept ?f ?snap, Inr a) \<in> set es))
      (andthen (perform (Accept ?f ?snap)) (\<lambda>_. give Pass))"
    by (rule records_andthen[where R = "\<lambda>h es r. es = [(Accept ?f ?snap, r)]" and S = "\<lambda>_ h es r. es = [] \<and> r = Inr Pass"])
      (auto intro: records_perform records_give)
  have "leaves W (accepted_case env dir) (andthen (perform (Diff ?snap ?f)) (\<lambda>rc.
      if rc = 0 then give Pass
      else if has_file env (path_join dir ''pending'') then give Pending
      else if auto_accept env then andthen (perform (Accept ?f ?snap)) (\<lambda>_. give Pass)
      else give Failed))"
    unfolding leaves_def
  proof (rule records_andthen[where R = "\<lambda>h es r. es = [(Diff ?snap ?f, r)]"
        and S = "\<lambda>rc h es r. \<forall>y. r = Inr y \<longrightarrow> y = Failed \<or> rc = 0 \<or> (y = Pending \<and> has_file env (path_join dir ''pending'')) \<or>
          (auto_accept env \<and> (\<exists>a. (Accept ?f ?snap, Inr a) \<in> set es))"])
    show "records W (\<lambda>h es r. es = [(Diff ?snap ?f, r)]) (perform (Diff ?snap ?f))"
      by (rule records_perform) simp
    show "records W (\<lambda>h es r. \<forall>y. r = Inr y \<longrightarrow> y = Failed \<or> rc = 0 \<or> (y = Pending \<and> has_file env (path_join dir ''pending'')) \<or>
          (auto_accept env \<and> (\<exists>a. (Accept ?f ?snap, Inr a) \<in> set es)))
       (if rc = 0 then give Pass
        else if has_file env (path_join dir ''pending'') then give Pending
        else if auto_accept env then andthen (perform (Accept ?f ?snap)) (\<lambda>_. give Pass)
        else give Failed)" for rc
      using records_mono[OF acc] by (auto simp: records_give)
    show "\<forall>y. r = Inr y \<longrightarrow> accepted_case env dir y (set (es @ es'))"
      if "es = [(Diff ?snap ?f, Inr rc)]" and "\<forall>y. r = Inr y \<longrightarrow> y = Failed \<or> rc = 0 \<or> (y = Pending \<and> has_file env (path_join dir ''pending'')) \<or>
          (auto_accept env \<and> (\<exists>a. (Accept ?f ?snap, Inr a) \<in> set es'))"
      for es rc es' and r :: "status result"
      using that unfolding accepted_case_def by (intro allI impI exI[of _ ?f] exI[of _ rc]) auto
  qed auto
  then show ?thesis
    unfolding evaluate_def Let_def
    by (rule leaves_skip[OF only_perform(1)[where P = "\<lambda>_. True", OF TrueI] _ grows_accepted])
qed

abbreviation anything :: "bfx \<Rightarrow> bool" where "anything \<equiv> \<lambda>_. True"

lemma any_west_build: "only W anything (west_build d b s x l)"
  unfolding west_build_def by (intro only_intros) simp_all

lemma any_stage: "only W anything (stage x n)"
  unfolding stage_def by (intro only_intros) simp_all

lemma any_reap: "only W anything (reap k)"
  unfolding reap_def by (rule only_attempt) (auto intro!: only_intros split: exn.splits)

lemma any_simulation: "only W anything (run_simulation sid siblings)"
proof -
  have "only W anything (spawn_sibling sid line)" for line
    by (cases "shlex_split line") (simp_all add: spawn_sibling_def only_basic only_perform)
  moreover have "only W anything (case e of TimeoutError _ \<Rightarrow> give () | _ \<Rightarrow> throw e)" for e :: exn
    by (cases e) (simp_all add: only_basic)
  ultimately show ?thesis
    unfolding run_simulation_def by (intro only_intros any_reap) simp_all
qed

lemma any_resolve: "only W anything (resolve_studio_requests env d b rel)"
  unfolding resolve_studio_requests_def Let_def
  by (cases "convert_requests env (path_join d ''studio_requests.json'')") (auto intro!: only_intros)

lemma any_host_apps: "only W anything (build_host_apps env)"
  unfolding build_host_apps_def Let_def by (intro only_intros any_west_build any_stage)

lemma run_case_leaves: "leaves W (\<lambda>y. accepted_case env dir (snd y)) (run_case env dir)"
proof -
  have fin: "leaves W (\<lambda>y. accepted_case env dir (snd y)) (andthen (evaluate env dir build) (\<lambda>st. give (rel, st)))" for build rel
    by (rule leaves_then_give[OF evaluate_leaves]) simp
  note skip = leaves_skip[OF _ _ grows_accepted_pair]
  show ?thesis
    unfolding run_case_def Let_def
    by (rule skip[OF only_each[OF any_west_build]], rule skip[OF any_west_build], rule skip[OF any_stage],
        rule skip[OF only_each[OF any_stage]], rule skip[OF any_resolve], rule skip)
      (intro only_intros any_west_build any_stage, rule skip[OF any_simulation], rule fin)
qed

lemma run_cases_leaves:
  "leaves W (\<lambda>ys S. list_all2 (\<lambda>dir y. accepted_case env dir (snd y) S) cases ys) (run_cases env cases)"
  unfolding run_cases_def by (rule leaves_each[OF run_case_leaves grows_accepted_pair])

section \<open>Properties\<close>

text \<open>
  A module directory name becomes a usable simulation prefix.  The result consists of letters,
  digits and single underscores, is not empty, neither starts nor ends with an underscore, and
  a name that is already of this form is kept.
\<close>

theorem sanitize_prefix_safe:
  "safe_prefix (sanitize_prefix name) \<and> sanitize_prefix (sanitize_prefix name) = sanitize_prefix name"
  by (simp add: sanitize_safe sanitize_fixed)

text \<open>
  C39. The phy waits for exactly the devices that run.  When a simulation ends normally, its
  record is: the DUT, the handbrake and one device per line of \<open>siblings.txt\<close>, all on the same
  simulation id, then the phy with that number of devices; afterwards every device is reaped,
  and killed when it exceeded its time.
\<close>

theorem simulation_devices:
  "\<exists>es. snd (run_simulation sid siblings w h) = h @ es \<and>
     (\<forall>u. fst (run_simulation sid siblings w h) = Inr u \<longrightarrow> simulated sid siblings es)"
  using run_simulation_records[of "\<lambda>_. True" sid siblings] unfolding records_def by (metis is_ok.simps(2))

theorem simulation_devices_witness:
  "simulated ''m_x'' [''./dev -d=2''] (snd (run_simulation ''m_x'' [''./dev -d=2''] (\<lambda>_ _. Inr 0) []))"
proof -
  have "fst (run_simulation ''m_x'' [''./dev -d=2''] (\<lambda>_ _. Inr 0) []) = Inr ()"
    by (simp add: run_simulation_def andthen_def attempt_def act_simps spawn_sibling_def shlex_split_def
        shell_space_def backslash_def is_quote_def reap_def lf_def cr_def upt_rec)
  then show ?thesis
    using simulation_devices[of "''m_x''" "[''./dev -d=2'']" "\<lambda>_ _. Inr 0" "[]"] by simp
qed

text \<open>
  Simulation ids keep cases apart when names have no underscore.  Distinct cases under
  \<open>tests/ble\<close> whose relative paths contain no underscore get distinct ids; without that the
  replacement of slashes makes two cases share an id.
\<close>

lemma sim_ids_distinct:
  assumes "distinct rels" and "\<forall>r \<in> set rels. r \<noteq> [] \<and> CHR ''_'' \<notin> set r"
  shows "distinct (map (\<lambda>r. sim_id pfx (case_rel root (root @ ''/'' @ r))) rels) \<and>
    sim_id pfx (case_rel root (root @ ''/a/b'')) = sim_id pfx (case_rel root (root @ ''/a_b''))"
proof
  have "inj_on (\<lambda>r. sim_id pfx (case_rel root (root @ ''/'' @ r))) (set rels)"
    using assms(2) case_rel_below[simplified] by (intro inj_onI) (auto simp: sim_id_def intro: slashes_inj)
  with assms(1) show "distinct (map (\<lambda>r. sim_id pfx (case_rel root (root @ ''/'' @ r))) rels)"
    by (simp add: distinct_map)
  show "sim_id pfx (case_rel root (root @ ''/a/b'')) = sim_id pfx (case_rel root (root @ ''/a_b''))"
    using case_rel_below[of "''a/b''" root] case_rel_below[of "''a_b''" root]
    by (simp add: sim_id_def slashes_to_underscores_def)
qed

lemma sim_ids_distinct_witness:
  "distinct (map (\<lambda>r. sim_id ''m'' (case_rel ''/t'' (''/t'' @ ''/'' @ r))) [''a/b'', ''a-b'']) \<and>
    sim_id ''m'' (case_rel ''/t'' (''/t'' @ ''/a/b'')) = sim_id ''m'' (case_rel ''/t'' (''/t'' @ ''/a_b''))"
  by (rule sim_ids_distinct) simp_all

text \<open>From the discovered cases on.\<close>

lemma do_run_verdict_of:
  "\<exists>es. snd (ble_do_run env keymaps w h) = h @ es \<and>
     (\<forall>u. fst (ble_do_run env keymaps w h) = Inr u \<longrightarrow> keymaps \<noteq> [] \<and>
       (\<forall>dir \<in> path_parent ` set keymaps. \<exists>st. st \<noteq> Failed \<and> accepted_case env dir st (set es)))"
proof -
  let ?cases = "discover_cases keymaps"
  let ?ok = "\<lambda>ys S. list_all2 (\<lambda>dir y. accepted_case env dir (snd y) S) ?cases ys"
  have g: "grows ?ok"
    unfolding grows_def by (auto elim!: list_all2_mono intro: growsD[OF grows_accepted])
  have main: "leaves (\<lambda>_. True) ?ok (andthen (build_host_apps env) (\<lambda>_. run_cases env ?cases))"
    by (rule leaves_skip[OF any_host_apps run_cases_leaves g])
  have tried: "leaves (\<lambda>_. True) ?ok (attempt (andthen (build_host_apps env) (\<lambda>_. run_cases env ?cases))
      (\<lambda>e. throw (SystemExit (exn_text e))))"
    using main unfolding leaves_def
    by (rule records_attempt[where S = "\<lambda>_ h es r. \<not> is_ok r"]) (auto intro: records_throw)
  have set: "set ?cases = path_parent ` set keymaps" by (simp add: discover_cases_def)
  have "leaves (\<lambda>_. True) (\<lambda>_ S. keymaps \<noteq> [] \<and> (\<forall>dir \<in> set ?cases. \<exists>st. st \<noteq> Failed \<and> accepted_case env dir st S))
      (ble_do_run env keymaps)"
  proof (cases "?cases = []")
    case False
    then have ne: "keymaps \<noteq> []" by (auto simp: discover_cases_def)
    have cov: "\<forall>dir \<in> set ?cases. \<exists>st. st \<noteq> Failed \<and> accepted_case env dir st S"
      if "?ok ys S" "filter (\<lambda>r. snd r = Failed) ys = []" for ys S
      using that by (fastforce simp: list_all2_conv_all_nth in_set_conv_nth filter_empty_conv)
    have fin: "records (\<lambda>_. True) (\<lambda>h es r. es = [] \<and> (is_ok r \<longrightarrow> filter (\<lambda>r. snd r = Failed) ys = []))
        (let failed = filter (\<lambda>r. snd r = Failed) ys in
         if failed \<noteq> []
         then throw (SystemExit (dec_of_nat (length failed) @ '' BLE case(s) FAILED: '' @ py_join '', '' (map fst failed)))
         else give ())" for ys :: "(string \<times> status) list"
      by (simp add: Let_def records_give records_throw)
    have "leaves (\<lambda>_. True) (\<lambda>_ S. \<forall>dir \<in> set ?cases. \<exists>st. st \<noteq> Failed \<and> accepted_case env dir st S)
      (ble_do_run env keymaps)"
      unfolding leaves_def ble_do_run_def Let_def[of ?cases] if_not_P[OF False]
      by (rule records_andthen[OF tried[unfolded leaves_def] fin]) (use cov in auto)
    with ne show ?thesis by simp
  qed (simp add: ble_do_run_def leaves_def records_throw)
  then show ?thesis unfolding leaves_def records_def set by auto
qed

definition bare_env :: ble_env where
  "bare_env = \<lparr>zmk_app = ''/zmk/app'', module_dir = ''/m'', build_root = ''/b'', host_dir = ''/h'',
     sim_prefix = ''m'', auto_accept = False, has_file = (\<lambda>_. False), has_dir = (\<lambda>_. False),
     overlays = (\<lambda>_. []), host_apps = [], file_text = (\<lambda>_. []), convert_requests = (\<lambda>_. Inr [])\<rparr>"

lemma bare_env_simps [simp]:
  "has_file bare_env p = False" "has_dir bare_env p = False" "overlays bare_env p = []"
  "host_apps bare_env = []"
  by (simp_all add: bare_env_def)

definition bare :: "ble_env \<Rightarrow> bool" where
  "bare env \<longleftrightarrow> (\<forall>p. \<not> has_file env p \<and> \<not> has_dir env p \<and> overlays env p = []) \<and> host_apps env = []"

lemma bare_runner_env: "bare (runner_env host st bare_env)"
  by (simp add: bare_def runner_env_def bare_env_def)

lemma bare_run_case:
  assumes "bare env"
  shows "\<exists>rel h'. run_case env dir (\<lambda>_ _. Inr 0) h = (Inr (rel, Pass), h')"
  using assms by (simp add: bare_def run_case_def Let_def andthen_def act_simps west_build_def stage_def
      resolve_studio_requests_def read_siblings_def run_simulation_def attempt_def reap_def evaluate_def upt_rec)

lemma bare_do_run:
  assumes "bare env"
  shows "fst (ble_do_run env [k] (\<lambda>_ _. Inr 0) h) = Inr ()"
proof -
  obtain rel h' where "run_case env (path_parent k) (\<lambda>_ _. Inr 0) h = (Inr (rel, Pass), h')"
    using bare_run_case[OF assms] by blast
  with assms show ?thesis
    by (simp add: bare_def ble_do_run_def discover_cases_def build_host_apps_def run_cases_def Let_def andthen_def
        act_simps attempt_def)
qed


definition sample_host :: ble_host where
  "sample_host = \<lparr>projects = [(''zmk'', ''/zmk'')], ws_topdir = ''/ws'', work_dir = ''/m'', absolute_of = (\<lambda>p. p),
     dir_exists = (\<lambda>_. True), file_exists = (\<lambda>_. True), git_top_of = None, bsim_variable = Some ''/bsim'',
     components_variable = None, accept_variable = None, keymaps_below = (\<lambda>_. [''/m/tests/ble/a/x.keymap''])\<rparr>"

definition sample_ble_args :: ble_args where
  "sample_ble_args = \<lparr>tests_arg = None, module_arg = None, bsim_arg = None, prefix_arg = Some ''m'', accept_arg = False\<rparr>"

definition sample_setup :: ble_setup where
  "sample_setup = \<lparr>set_app = path_join ''/zmk'' ''app'', set_module = ''/m'', set_tests = ''/m'', set_prefix = ''m'',
     set_accept = False, set_bsim = (''/bsim'', path_join ''/bsim'' ''components'')\<rparr>"

lemma sample_prepared: "ble_prepare sample_host sample_ble_args = Inr sample_setup"
  by (simp add: ble_prepare_def sample_host_def sample_ble_args_def sample_setup_def zmk_app_of_def
      resolve_module_def resolve_bsim_def Let_def)

lemma sample_keymaps: "keymaps_below sample_host t = [''/m/tests/ble/a/x.keymap'']"
  by (simp add: sample_host_def)


text \<open>A sibling line that cannot be split or started ends the run before the phy: the devices started
  so far are neither reaped nor killed.\<close>

lemma bad_sibling_leaves_devices:
  "fst (run_simulation sid [[CHR 0x22]] (\<lambda>_ _. Inr 0) []) = Inl (ValueError ''No closing quotation'') \<and>
   map fst (snd (run_simulation sid [[CHR 0x22]] (\<lambda>_ _. Inr 0) [])) =
     [Spawn (dut_argv sid) True, Spawn (handbrake_argv sid) False]"
  by (simp add: run_simulation_def andthen_def act_simps spawn_sibling_def shlex_split_def
      shell_space_def backslash_def is_quote_def lf_def cr_def)

end
