(* ===== verification/Studio_Json.thy ===== *)
theory Studio_Json
  imports Hex_Payload Renode_Harness Link_Axes
begin

text \<open>
  \<open>scripts/lib/ble/studio_requests.py\<close>: the declarative \<open>studio_requests.json\<close> form of a request
  list.  The model starts from the parsed JSON value (\<open>JFloat\<close> keeps the text of the literal, \<open>JDict\<close>
  the pairs in order, with distinct keys as \<open>json.loads\<close> leaves them); the protobuf runtime (descriptor pool,
  \<open>ParseDict\<close>, message fields, serialisation) is a record of functions.
\<close>

section \<open>JSON and protobuf\<close>

datatype json =
    JNull
  | JBool bool
  | JInt int
  | JFloat string
  | JStr string
  | JList "json list"
  | JDict "(string \<times> json) list"

text \<open>
  \<open>message_encoder name\<close> is \<open>None\<close> for an unknown message name, and otherwise parses the fields and
  serialises the message; \<open>parse_request\<close> is \<open>ParseDict(_, studio_pb2.Request())\<close>.
\<close>

record 'r protobuf =
  message_encoder :: "string \<Rightarrow> ((string \<times> json) list \<Rightarrow> byte list result) option"
  parse_request :: "json \<Rightarrow> 'r result"
  request_id :: "'r \<Rightarrow> nat"
  with_request_id :: "nat \<Rightarrow> 'r \<Rightarrow> 'r"
  subsystem :: "'r \<Rightarrow> string option"
  serialize :: "'r \<Rightarrow> byte list"

section \<open>Base 64\<close>

definition b64_char :: "nat \<Rightarrow> char" where
  "b64_char n = (if n < 26 then char_of (65 + n) else if n < 52 then char_of (71 + n)
     else if n < 62 then char_of (n - 4) else if n = 62 then CHR ''+'' else CHR ''/'')"

fun b64encode :: "byte list \<Rightarrow> string" where
  "b64encode [] = []"
| "b64encode [a] = (let n = unat a in
     [b64_char (n div 4), b64_char (n mod 4 * 16), CHR ''='', CHR ''=''])"
| "b64encode [a, b] = (let n = unat a * 256 + unat b in
     [b64_char (n div 1024), b64_char (n div 16 mod 64), b64_char (n mod 16 * 4), CHR ''=''])"
| "b64encode (a # b # c # bs) = (let n = unat a * 65536 + unat b * 256 + unat c in
     b64_char (n div 262144) # b64_char (n div 4096 mod 64) # b64_char (n div 64 mod 64) # b64_char (n mod 64)
       # b64encode bs)"

text \<open>The decoder of RFC 4648, as a specification.\<close>

definition b64_val :: "char \<Rightarrow> nat" where
  "b64_val c = (let n = of_char c in
     if 65 \<le> n \<and> n \<le> 90 then n - 65 else if 97 \<le> n \<and> n \<le> 122 then n - 71
     else if 48 \<le> n \<and> n \<le> 57 then n + 4 else if n = 43 then 62 else 63)"

fun b64decode :: "string \<Rightarrow> byte list" where
  "b64decode (p # q # r # s # cs) =
     (if r = CHR ''='' then [word_of_nat (b64_val p * 4 + b64_val q div 16)]
      else if s = CHR ''='' then
        (let n = b64_val p * 1024 + b64_val q * 16 + b64_val r div 4 in
         [word_of_nat (n div 256), word_of_nat (n mod 256)])
      else
        (let n = b64_val p * 262144 + b64_val q * 4096 + b64_val r * 64 + b64_val s in
         word_of_nat (n div 65536) # word_of_nat (n div 256 mod 256) # word_of_nat (n mod 256)
           # b64decode cs))"
| "b64decode _ = []"

lemma b64_val_char [simp]: "n < 64 \<Longrightarrow> b64_val (b64_char n) = n"
  by (auto simp: b64_val_def b64_char_def Let_def)

lemma b64_char_not_pad: "n < 64 \<Longrightarrow> b64_char n \<noteq> CHR ''=''"
proof
  assume n: "n < 64" and eq: "b64_char n = CHR ''=''"
  have "(of_char (b64_char n) :: nat) \<noteq> 61" using n by (auto simp: b64_char_def)
  with eq show False by simp
qed

lemma digits64:
  fixes n a b c r s t :: nat
  shows "b = c * 64 + r \<Longrightarrow> a = b * 64 + s \<Longrightarrow> n = a * 64 + t \<Longrightarrow> c * 262144 + r * 4096 + s * 64 + t = n"
  by simp

lemma sextets4:
  "(n :: nat) div 262144 * 262144 + n div 4096 mod 64 * 4096 + n div 64 mod 64 * 64 + n mod 64 = n"
proof -
  have e: "n div 4096 = n div 64 div 64" "n div 262144 = n div 64 div 64 div 64"
    by (simp_all add: div_mult2_eq[symmetric])
  show ?thesis unfolding e by (rule digits64[where a = "n div 64" and b = "n div 64 div 64"])
      (simp_all only: div_mult_mod_eq)
qed

lemma digits_64_16:
  fixes n a c r t :: nat
  shows "a = c * 64 + r \<Longrightarrow> n = a * 16 + t \<Longrightarrow> c * 1024 + r * 16 + t = n"
  by simp

lemma sextets3: "(n :: nat) div 1024 * 1024 + n div 16 mod 64 * 16 + n mod 16 = n"
proof -
  have e: "n div 1024 = n div 16 div 64" by (simp add: div_mult2_eq[symmetric])
  show ?thesis unfolding e by (rule digits_64_16[where a = "n div 16"]) (simp_all only: div_mult_mod_eq)
qed

lemma byte_of_unat: "word_of_nat (unat (b :: byte)) = b"
  by simp

lemma byte_split: "(c :: nat) < 256 \<Longrightarrow> (m * 256 + c) div 256 = m \<and> (m * 256 + c) mod 256 = c"
  by simp

lemma b64_roundtrip: "b64decode (b64encode bs) = bs"
proof (induction bs rule: b64encode.induct)
  case 1
  then show ?case by simp
next
  case (2 a)
  have "unat a < 64 * 4" using unat_byte_less[of a] by simp
  then have "unat a div 4 < 64" "unat a mod 4 * 16 < 64"
    using mod_less_divisor[of 4 "unat a"] by (simp_all add: less_mult_imp_div_less)
  moreover have "unat a div 4 * 4 + unat a mod 4 * 16 div 16 = unat a" by simp
  ultimately show ?case by (simp add: Let_def)
next
  case (3 a b)
  let ?n = "unat a * 256 + unat b"
  have ab: "unat a < 256" "unat b < 256" by simp_all
  then have "?n < 64 * 1024" by linarith
  then have lt: "?n div 1024 < 64" "?n div 16 mod 64 < 64" "?n mod 16 * 4 < 64"
    using mod_less_divisor[of 16 ?n] by (simp_all add: less_mult_imp_div_less)
  have whole: "?n div 1024 * 1024 + ?n div 16 mod 64 * 16 + ?n mod 16 * 4 div 4 = ?n"
    using sextets3[of ?n] by simp
  have "?n div 256 = unat a" "?n mod 256 = unat b" using ab by simp_all
  then show ?case
    using lt whole by (simp only: b64encode.simps Let_def b64decode.simps b64_val_char b64_char_not_pad if_False refl if_True byte_of_unat)
next
  case (4 a b c bs)
  let ?n = "unat a * 65536 + unat b * 256 + unat c"
  have abc: "unat a < 256" "unat b < 256" "unat c < 256" by simp_all
  then have "?n < 64 * 262144" by linarith
  then have lt: "?n div 262144 < 64" "?n div 4096 mod 64 < 64" "?n div 64 mod 64 < 64" "?n mod 64 < 64"
    by (simp_all add: less_mult_imp_div_less)
  have "?n div 256 = unat a * 256 + unat b" "?n mod 256 = unat c"
    using abc(3) byte_split[of "unat c" "unat a * 256 + unat b"] by (simp_all add: algebra_simps)
  moreover from this have "?n div 65536 = unat a" "?n div 256 mod 256 = unat b"
    using abc(2) byte_split[of "unat b" "unat a"] div_mult2_eq[of ?n 256 256] by simp_all
  ultimately show ?case
    using lt sextets4[of ?n] 4
    by (simp only: b64encode.simps Let_def b64decode.simps b64_val_char b64_char_not_pad if_False byte_of_unat)
qed

section \<open>\<open>$type\<close>\<close>

lemma map_result_cong [fundef_cong]:
  "xs = ys \<Longrightarrow> (\<And>x. x \<in> set ys \<Longrightarrow> f x = g x) \<Longrightarrow> map_result f xs = map_result g ys"
  by (induction ys arbitrary: xs) auto

definition TYPE_KEY :: string where "TYPE_KEY = ''$type''"

definition message_class :: "'r protobuf \<Rightarrow> string \<Rightarrow> ((string \<times> json) list \<Rightarrow> byte list result) result" where
  "message_class pb type_name = (case message_encoder pb type_name of
     None \<Rightarrow> Inl (ValueError (''unknown $type '' @ type_name)) | Some enc \<Rightarrow> Inr enc)"

lemma json_dict_size: "(k, v) \<in> set kvs \<Longrightarrow> size v < Suc (size_list (size_prod (\<lambda>_. 0) size) kvs)"
  by (induction kvs) auto

text \<open>\<open>_expand_dollar_types\<close>.\<close>

function (sequential) expand_dollar_types :: "'r protobuf \<Rightarrow> json \<Rightarrow> json result" where
  "expand_dollar_types pb (JDict kvs) =
     (case map_of kvs TYPE_KEY of
        Some t \<Rightarrow>
          (case t of
             JStr type_name \<Rightarrow>
               bind_result (map_result (\<lambda>kv. bind_result (expand_dollar_types pb (snd kv)) (\<lambda>v. Inr (fst kv, v)))
                   (filter (\<lambda>kv. fst kv \<noteq> TYPE_KEY) kvs)) (\<lambda>fields.
               bind_result (message_class pb type_name) (\<lambda>enc.
               bind_result (enc fields) (\<lambda>msg. Inr (JStr (b64encode msg)))))
           | _ \<Rightarrow> Inl (ValueError ''$type must be a string''))
      | None \<Rightarrow>
          bind_result (map_result (\<lambda>kv. bind_result (expand_dollar_types pb (snd kv)) (\<lambda>v. Inr (fst kv, v))) kvs)
            (\<lambda>kvs'. Inr (JDict kvs')))"
| "expand_dollar_types pb (JList vs) =
     bind_result (map_result (expand_dollar_types pb) vs) (\<lambda>vs'. Inr (JList vs'))"
| "expand_dollar_types pb j = Inr j"
  by pat_completeness auto
termination
  by (relation "measure (\<lambda>(pb, j). size j)")
    (auto dest: json_dict_size simp: less_Suc_eq_le size_list_estimation')

text \<open>A value without the extension: no object in it has a \<open>$type\<close> key.\<close>

function (sequential) no_types :: "json \<Rightarrow> bool" where
  "no_types (JDict kvs) = (TYPE_KEY \<notin> fst ` set kvs \<and> list_all (\<lambda>kv. no_types (snd kv)) kvs)"
| "no_types (JList vs) = list_all no_types vs"
| "no_types j = True"
  by pat_completeness auto
termination
  by (relation "measure size") (auto dest: json_dict_size simp: less_Suc_eq_le size_list_estimation')

definition expand_member :: "'r protobuf \<Rightarrow> string \<times> json \<Rightarrow> (string \<times> json) result" where
  "expand_member pb kv = bind_result (expand_dollar_types pb (snd kv)) (\<lambda>v. Inr (fst kv, v))"

lemma expand_dict:
  "expand_dollar_types pb (JDict kvs) =
     (case map_of kvs TYPE_KEY of
        Some (JStr type_name) \<Rightarrow>
          bind_result (map_result (expand_member pb) (filter (\<lambda>kv. fst kv \<noteq> TYPE_KEY) kvs)) (\<lambda>fields.
          bind_result (message_class pb type_name) (\<lambda>enc.
          bind_result (enc fields) (\<lambda>msg. Inr (JStr (b64encode msg)))))
      | Some _ \<Rightarrow> Inl (ValueError ''$type must be a string'')
      | None \<Rightarrow> bind_result (map_result (expand_member pb) kvs) (\<lambda>kvs'. Inr (JDict kvs')))"
  by (simp add: expand_member_def[abs_def] split: option.split json.split)

declare expand_dollar_types.simps(1) [simp del]

lemma expand_member_Inr:
  "expand_member pb kv = Inr kv' \<longleftrightarrow> fst kv' = fst kv \<and> expand_dollar_types pb (snd kv) = Inr (snd kv')"
  by (cases kv') (auto simp: expand_member_def bind_result_Inr_iff)

lemma expand_identity: "no_types j \<Longrightarrow> expand_dollar_types pb j = Inr j"
proof (induction j rule: no_types.induct)
  case (1 kvs)
  then have "map_result (expand_member pb) kvs = Inr (map (\<lambda>kv. kv) kvs)"
    by (intro map_result_Inr) (auto simp: expand_member_Inr list_all_iff)
  moreover have "map_of kvs TYPE_KEY = None" using 1 by (auto simp: map_of_eq_None_iff)
  ultimately show ?case by (simp add: expand_dict)
next
  case (2 vs)
  then have "map_result (expand_dollar_types pb) vs = Inr (map (\<lambda>v. v) vs)"
    by (intro map_result_Inr) (auto simp: list_all_iff)
  then show ?case by simp
qed simp_all

lemma expand_members:
  assumes "map_result (expand_member pb) kvs = Inr kvs'"
  shows "map fst kvs' = map fst kvs" and "list_all2 (\<lambda>kv kv'. expand_dollar_types pb (snd kv) = Inr (snd kv')) kvs kvs'"
  using assms unfolding map_result_Inr_iff expand_member_Inr by (auto simp: list_all2_conv_all_nth intro: nth_equalityI)

lemma list_all2_list_all:
  "list_all2 R xs ys \<Longrightarrow> (\<And>x y. x \<in> set xs \<Longrightarrow> R x y \<Longrightarrow> P y) \<Longrightarrow> list_all P ys"
  by (induction rule: list_all2_induct) auto

lemma expand_no_types: "expand_dollar_types pb j = Inr j' \<Longrightarrow> no_types j'"
proof (induction pb j arbitrary: j' rule: expand_dollar_types.induct)
  case (1 pb kvs)
  show ?case
  proof (cases "map_of kvs TYPE_KEY")
    case None
    with 1(3) obtain kvs' where kvs': "map_result (expand_member pb) kvs = Inr kvs'" "j' = JDict kvs'"
      by (auto simp: expand_dict bind_result_Inr_iff)
    have "list_all (\<lambda>kv. no_types (snd kv)) kvs'"
      using expand_members(2)[OF kvs'(1)] by (rule list_all2_list_all) (rule 1(1)[OF None])
    moreover have "TYPE_KEY \<notin> fst ` set kvs'"
      using expand_members(1)[OF kvs'(1)] None by (metis map_of_eq_None_iff set_map)
    ultimately show ?thesis using kvs' by simp
  next
    case (Some t)
    with 1(3) obtain s where "j' = JStr s"
      by (auto simp: expand_dict bind_result_Inr_iff split: json.splits)
    then show ?thesis by simp
  qed
next
  case (2 pb vs)
  from 2(2) obtain vs' where vs': "list_all2 (\<lambda>v v'. expand_dollar_types pb v = Inr v') vs vs'" "j' = JList vs'"
    by (auto simp: bind_result_Inr_iff map_result_Inr_iff)
  then have "list_all no_types vs'" by (blast intro: list_all2_list_all 2(1))
  with vs' show ?case by simp
qed auto

text \<open>The meaning of a \<open>$type\<close> object.\<close>

definition typed_bytes :: "'r protobuf \<Rightarrow> (string \<times> json) list \<Rightarrow> json \<Rightarrow> bool" where
  "typed_bytes pb kvs j' \<longleftrightarrow>
     (\<exists>name enc fields bs text. map_of kvs TYPE_KEY = Some (JStr name) \<and> message_encoder pb name = Some enc \<and>
        list_all2 (\<lambda>kv kv'. fst kv' = fst kv \<and> expand_dollar_types pb (snd kv) = Inr (snd kv'))
          (filter (\<lambda>kv. fst kv \<noteq> TYPE_KEY) kvs) fields \<and>
        enc fields = Inr bs \<and> j' = JStr text \<and> b64decode text = bs)"

lemma expand_typed:
  assumes "expand_dollar_types pb (JDict kvs) = Inr j'" and "TYPE_KEY \<in> fst ` set kvs"
  shows "typed_bytes pb kvs j'"
proof -
  obtain t where t: "map_of kvs TYPE_KEY = Some t"
    using assms(2) by (metis map_of_eq_None_iff option.exhaust)
  with assms(1) obtain name where name: "t = JStr name"
    by (cases t) (auto simp: expand_dict)
  with assms(1) t obtain fields enc bs where
    "map_result (expand_member pb) (filter (\<lambda>kv. fst kv \<noteq> TYPE_KEY) kvs) = Inr fields"
    "message_class pb name = Inr enc" "enc fields = Inr bs" "j' = JStr (b64encode bs)"
    by (auto simp: expand_dict bind_result_Inr_iff)
  then show ?thesis
    using t name
    by (auto simp: typed_bytes_def map_result_Inr_iff expand_member_Inr message_class_def b64_roundtrip
        split: option.splits)
qed

text \<open>
  C21. Expansion removes the extension: the result holds no \<open>$type\<close> object at any depth and is
  itself left alone by a second expansion, and an object written with \<open>$type\<close> becomes the base 64
  text of exactly the bytes its message type encodes its expanded other fields to.
\<close>

theorem expand_dollar_types_sound:
  assumes "expand_dollar_types pb j = Inr j'"
  shows "no_types j' \<and> expand_dollar_types pb j' = Inr j' \<and>
    (\<forall>kvs. j = JDict kvs \<and> TYPE_KEY \<in> fst ` set kvs \<longrightarrow> typed_bytes pb kvs j')"
  using expand_no_types[OF assms] assms expand_typed by (auto intro: expand_identity)

text \<open>A small runtime: \<open>t.Bytes\<close> has one field, a number, and encodes it as one byte; a request is its
  \<open>request_id\<close> and what the \<open>keymap\<close> field holds.\<close>

definition toy_fields :: "(string \<times> json) list \<Rightarrow> byte list result" where
  "toy_fields kvs = (case map_of kvs ''value'' of
     Some (JInt i) \<Rightarrow> Inr [word_of_int i] | _ \<Rightarrow> Inl (ParseError ''no value''))"

definition toy_parse :: "json \<Rightarrow> (nat \<times> string) result" where
  "toy_parse j = (case j of
     JDict kvs \<Rightarrow>
       Inr (case map_of kvs ''requestId'' of Some (JInt i) \<Rightarrow> nat i | _ \<Rightarrow> 0,
            case map_of kvs ''keymap'' of Some (JStr s) \<Rightarrow> s | _ \<Rightarrow> [])
   | _ \<Rightarrow> Inl (ParseError ''not an object''))"

definition toy_protobuf :: "(nat \<times> string) protobuf" where
  "toy_protobuf =
     \<lparr>message_encoder = (\<lambda>name. if name = ''t.Bytes'' then Some toy_fields else None),
      parse_request = toy_parse, request_id = fst, with_request_id = (\<lambda>i r. (i, snd r)),
      subsystem = (\<lambda>r. if snd r = [] then None else Some ''keymap''),
      serialize = (\<lambda>r. word_of_nat (fst r) # map (\<lambda>c. of_char c) (snd r))\<rparr>"

definition toy_request :: json where
  "toy_request = JDict [(''keymap'', JDict [(TYPE_KEY, JStr ''t.Bytes''), (''value'', JInt 255)])]"

lemma toy_expands: "expand_dollar_types toy_protobuf toy_request = Inr (JDict [(''keymap'', JStr ''/w=='')])"
  by (simp add: toy_request_def toy_protobuf_def toy_fields_def expand_dict expand_member_def TYPE_KEY_def
      message_class_def Let_def b64_char_def char_of_def bit_0)

theorem expand_dollar_types_sound_witness:
  "no_types (JDict [(''keymap'', JStr ''/w=='')])"
  using expand_dollar_types_sound[OF toy_expands] by simp

end
