(* ===== verification/Studio_Requests.thy ===== *)
theory Studio_Requests
  imports Studio_Json
begin

text \<open>
  The rest of \<open>scripts/lib/ble/studio_requests.py\<close>: the messages it compiles, \<open>load_requests_json\<close>
  over the expansion of theory Studio_Json, and \<open>generator_main\<close>.  What \<open>protoc\<close> and the import of its
  output give is found in the environment \<open>proto_env\<close>; the files and the manifest are those of
  \<open>host_env\<close>.
\<close>

section \<open>Compiling the messages\<close>

text \<open>\<open>run_protoc\<close> answers exit code and error text; \<open>fresh_out\<close> is the temporary directory of a run.\<close>

record 'pb proto_env =
  run_protoc :: "string list \<Rightarrow> int \<times> string"
  fresh_out :: "string list \<Rightarrow> string"
  protos_in :: "string \<Rightarrow> string list"
  protos_below :: "string \<Rightarrow> string list"
  generated_in :: "string \<Rightarrow> string list"
  import_studio :: "string \<Rightarrow> 'pb result"
  import_generated :: "string \<Rightarrow> unit result"

definition load_studio_pb2 :: "host_env \<Rightarrow> 'pb proto_env \<Rightarrow> string \<Rightarrow> 'pb result" where
  "load_studio_pb2 env pe proto_dir =
     (if \<not> is_dir env proto_dir
      then Inl (OSError (''zmk-studio-messages proto dir not found: '' @ proto_dir))
      else
        (let proto_files = sort (protos_in pe proto_dir) in
         bind_result (compile_protos (run_protoc pe) proto_files [proto_dir] (fresh_out pe proto_files))
           (import_studio pe)))"

text \<open>
  \<open>load_workspace_studio_pb2\<close>: the first usable project of the manifest; whatever exception that
  raises is dropped, and the search below the workspace is tried.
\<close>

definition studio_candidates :: "host_env \<Rightarrow> (string \<times> string) list \<Rightarrow> string list" where
  "studio_candidates env projects =
     filter (is_dir env)
       (map (\<lambda>(name, path). path_join path ''proto/zmk'')
         (filter (\<lambda>(name, path). name = ''zmk-studio-messages'') projects))"

definition load_workspace_studio_pb2 :: "host_env \<Rightarrow> 'pb proto_env \<Rightarrow> 'pb result" where
  "load_workspace_studio_pb2 env pe =
     (let fallback = bind_result (find_studio_proto_dir env (topdir env)) (load_studio_pb2 env pe) in
      case manifest env of
        Inl e \<Rightarrow> fallback
      | Inr projects \<Rightarrow>
          (case studio_candidates env projects of
             [] \<Rightarrow> fallback
           | candidate # _ \<Rightarrow>
               (case load_studio_pb2 env pe candidate of Inr pb \<Rightarrow> Inr pb | Inl e \<Rightarrow> fallback)))"

definition compile_module_protos :: "host_env \<Rightarrow> 'pb proto_env \<Rightarrow> string \<Rightarrow> unit result" where
  "compile_module_protos env pe module_dir =
     (let proto_root = path_join module_dir ''proto'' in
      if \<not> is_dir env proto_root then Inr ()
      else
        (let proto_files = sort_key path_parts (protos_below pe proto_root) in
         if proto_files = [] then Inr ()
         else
           (let include_dirs = sort (remdups (map path_parent proto_files)) in
            bind_result (compile_protos (run_protoc pe) proto_files include_dirs (fresh_out pe proto_files)) (\<lambda>out_dir.
            bind_result (map_result (import_generated pe) (sort_key path_parts (generated_in pe out_dir)))
              (\<lambda>_. Inr ())))))"

section \<open>Loading requests\<close>

definition at_element :: "string \<Rightarrow> nat \<Rightarrow> string \<Rightarrow> exn" where
  "at_element path idx msg = ValueError (path @ '': element '' @ dec_of_nat idx @ msg)"

text \<open>The automatic \<open>request_id\<close>: the position from 1.\<close>

definition numbered :: "'r protobuf \<Rightarrow> nat \<Rightarrow> 'r \<Rightarrow> 'r" where
  "numbered pb idx req = (if request_id pb req = 0 then with_request_id pb (idx + 1) req else req)"

definition request_name :: "'r protobuf \<Rightarrow> 'r \<Rightarrow> string" where
  "request_name pb req =
     ''request_id='' @ dec_of_nat (request_id pb req) @ '' ('' @
       (case subsystem pb req of None \<Rightarrow> ''empty'' | Some which \<Rightarrow> which) @ '')''"

definition load_entry :: "'r protobuf \<Rightarrow> string \<Rightarrow> nat \<times> json \<Rightarrow> 'r entry result" where
  "load_entry pb path = (\<lambda>(idx, j).
     (case j of
        JDict _ \<Rightarrow>
          bind_result (expand_dollar_types pb j) (\<lambda>expanded.
            (case parse_request pb expanded of
               Inl (ParseError m) \<Rightarrow> Inl (at_element path idx ('': '' @ m))
             | Inl e \<Rightarrow> Inl e
             | Inr parsed \<Rightarrow>
                 (let req = numbered pb idx parsed in Inr (Named (request_name pb req) req))))
      | _ \<Rightarrow> Inl (at_element path idx '' is not a JSON object'')))"

definition load_data :: "'r protobuf \<Rightarrow> string \<Rightarrow> json \<Rightarrow> 'r entry list result" where
  "load_data pb path data =
     (case data of
        JList entries \<Rightarrow> map_result (load_entry pb path) (enumerate 0 entries)
      | _ \<Rightarrow> Inl (ValueError (path @ '': top level must be a JSON array of zmk.studio.Request objects'')))"

text \<open>\<open>read\<close> is \<open>json.loads\<close> of the file's text.\<close>

definition load_requests_json ::
  "host_env \<Rightarrow> 'r protobuf proto_env \<Rightarrow> (string \<Rightarrow> json result) \<Rightarrow> string \<Rightarrow> string option \<Rightarrow> 'r entry list result"
where
  "load_requests_json env pe read path module_dir =
     bind_result (load_workspace_studio_pb2 env pe) (\<lambda>pb.
     bind_result (case module_dir of None \<Rightarrow> Inr () | Some m \<Rightarrow> compile_module_protos env pe m) (\<lambda>_.
     bind_result (read path) (load_data pb path)))"

section \<open>The generator\<close>

text \<open>\<open>generator_main\<close>: the file it writes, if any, and the exit code; \<open>read\<close> gives the text of a file.\<close>

definition default_output_of :: "string \<Rightarrow> string" where
  "default_output_of generator_file = path_join (path_parent generator_file) ''studio_requests.hex''"

definition generator_main ::
  "host_env \<Rightarrow> 'r protobuf proto_env \<Rightarrow> ('r protobuf \<Rightarrow> 'r entry list result) \<Rightarrow> (string \<rightharpoonup> string) \<Rightarrow>
     string \<Rightarrow> string option \<Rightarrow> string option \<Rightarrow> bool \<Rightarrow> ((string \<times> string) option \<times> int) result"
where
  "generator_main env pe build_requests files generator_file default_output output check =
     (let default = (case default_output of None \<Rightarrow> default_output_of generator_file | Some d \<Rightarrow> d);
          out = (case output of None \<Rightarrow> default | Some out \<Rightarrow> out) in
      bind_result (load_workspace_studio_pb2 env pe) (\<lambda>pb.
      bind_result (build_requests pb) (\<lambda>requests.
        let content = render_hex (serialize pb) requests in
        if check then
          (let current = (case files out of None \<Rightarrow> [] | Some text \<Rightarrow> text) in
           Inr (None, if current \<noteq> content then 1 else 0))
        else Inr (Some (out, content), 0))))"

section \<open>What is loaded\<close>

text \<open>Documented behaviour of a message field: it reads back as assigned.\<close>

definition keeps_ids :: "'r protobuf \<Rightarrow> bool" where
  "keeps_ids pb \<longleftrightarrow> (\<forall>n r. request_id pb (with_request_id pb n r) = n)"

text \<open>What the entry at position \<open>i\<close> has to be turned into.\<close>

definition loaded_as :: "'r protobuf \<Rightarrow> nat \<Rightarrow> json \<Rightarrow> 'r entry \<Rightarrow> bool" where
  "loaded_as pb i j e \<longleftrightarrow>
     (\<exists>kvs expanded parsed req. j = JDict kvs \<and> expand_dollar_types pb j = Inr expanded \<and>
        parse_request pb expanded = Inr parsed \<and> e = Named (request_name pb req) req \<and>
        req = (if request_id pb parsed = 0 then with_request_id pb (i + 1) parsed else parsed) \<and>
        request_id pb req \<noteq> 0)"

lemma load_entry_Inr:
  assumes "keeps_ids pb" and "load_entry pb path (i, j) = Inr e"
  shows "loaded_as pb i j e"
proof -
  obtain kvs where j: "j = JDict kvs" using assms(2) by (cases j) (simp_all add: load_entry_def)
  then obtain expanded where x: "expand_dollar_types pb j = Inr expanded"
    using assms(2) by (auto simp: load_entry_def bind_result_Inr_iff)
  then obtain parsed where r: "parse_request pb expanded = Inr parsed"
    using assms(2) j by (cases "parse_request pb expanded") (auto simp: load_entry_def split: exn.splits)
  have "e = Named (request_name pb (numbered pb i parsed)) (numbered pb i parsed)"
    using assms(2) j x r by (simp add: load_entry_def Let_def)
  moreover have "request_id pb (numbered pb i parsed) \<noteq> 0"
    using assms(1) by (simp add: numbered_def keeps_ids_def)
  ultimately show ?thesis using j x r unfolding loaded_as_def by (auto simp: numbered_def)
qed

lemma load_data_Inr:
  assumes "keeps_ids pb" and "load_data pb path data = Inr named"
  shows "\<exists>entries. data = JList entries \<and> length named = length entries \<and>
    (\<forall>i < length entries. loaded_as pb i (entries ! i) (named ! i))"
proof -
  obtain entries where d: "data = JList entries"
    using assms(2) by (cases data) (simp_all add: load_data_def)
  then have m: "map_result (load_entry pb path) (enumerate 0 entries) = Inr named"
    using assms(2) by (simp add: load_data_def)
  have "loaded_as pb i (entries ! i) (named ! i)" if "i < length entries" for i
    using map_result_nth[OF m, of i] that by (intro load_entry_Inr[OF assms(1)]) (simp add: nth_enumerate_eq)
  with d map_result_length[OF m] show ?thesis by auto
qed

text \<open>
  C22. The requests of a file are loaded in order and none is lost.  When \<open>load_requests_json\<close>
  succeeds, the file is an array of objects, and request \<open>i\<close> is what the protobuf runtime parses
  from the expansion of element \<open>i\<close>, with its own request id or, where it has none, the position
  \<open>i + 1\<close>; no request is left with id 0.
\<close>

theorem load_requests_contract:
  assumes "load_workspace_studio_pb2 env pe = Inr pb" and "keeps_ids pb" and "read path = Inr data"
    and "load_requests_json env pe read path module_dir = Inr named"
  shows "\<exists>entries. data = JList entries \<and> length named = length entries \<and>
    (\<forall>i < length entries. loaded_as pb i (entries ! i) (named ! i))"
  using load_data_Inr[OF assms(2)] assms(1,3,4)
  by (auto simp: load_requests_json_def bind_result_Inr_iff)

definition toy_host :: host_env where
  "toy_host = \<lparr>is_file = (\<lambda>_. True), is_dir = (\<lambda>_. True), absolute = id, glob_protos = (\<lambda>_. []),
     glob_tests = (\<lambda>_. []), renode_at = (\<lambda>_. None), smoke_run = (\<lambda>_ _. Inr ()),
     manifest = Inr [(''zmk'', ''/w/zmk''), (''zmk-studio-messages'', ''/w/msgs'')], topdir = ''/w'',
     has_protobuf = True, environ = Map.empty, lib_renode_dir = [], test_exit = (\<lambda>_ _. 0)\<rparr>"

definition toy_protos :: "(nat \<times> string) protobuf proto_env" where
  "toy_protos = \<lparr>run_protoc = (\<lambda>_. (0, [])), fresh_out = (\<lambda>_. ''/tmp/o''),
     protos_in = (\<lambda>_. [''/w/msgs/proto/zmk/studio.proto'']), protos_below = (\<lambda>_. []),
     generated_in = (\<lambda>_. []), import_studio = (\<lambda>_. Inr toy_protobuf), import_generated = (\<lambda>_. Inr ())\<rparr>"

lemma toy_studio: "load_workspace_studio_pb2 toy_host toy_protos = Inr toy_protobuf"
  by (simp add: load_workspace_studio_pb2_def studio_candidates_def toy_host_def toy_protos_def
      load_studio_pb2_def compile_protos_def Let_def)

lemma toy_keeps_ids: "keeps_ids toy_protobuf"
  by (simp add: keeps_ids_def toy_protobuf_def)

lemma toy_loads:
  "load_requests_json toy_host toy_protos (\<lambda>_. Inr (JList [toy_request, JDict [(''requestId'', JInt 7)]])) ''/r.json'' None =
     Inr [Named ''request_id=1 (keymap)'' (1, ''/w==''), Named ''request_id=7 (empty)'' (7, [])]"
proof -
  have "expand_dollar_types toy_protobuf (JDict [(''requestId'', JInt 7)]) = Inr (JDict [(''requestId'', JInt 7)])"
    by (simp add: expand_dict expand_member_def TYPE_KEY_def)
  then show ?thesis
    using toy_expands
    by (simp add: load_requests_json_def toy_studio load_data_def load_entry_def toy_request_def
        toy_protobuf_def toy_parse_def numbered_def request_name_def dec_of_nat.simps Let_def
        char_of_def bit_0)
qed

theorem load_requests_contract_witness:
  "\<exists>entries. JList [toy_request, JDict [(''requestId'', JInt 7)]] = JList entries \<and> length entries = 2 \<and>
    loaded_as toy_protobuf 1 (entries ! 1) (Named ''request_id=7 (empty)'' (7, []))"
  using load_requests_contract[OF toy_studio toy_keeps_ids _ toy_loads] by (auto simp: less_Suc_eq)

section \<open>What is refused\<close>

lemma map_result_Inl:
  "map_result f xs = Inl e \<Longrightarrow> \<exists>i < length xs. (\<forall>k < i. is_ok (f (xs ! k))) \<and> f (xs ! i) = Inl e"
proof (induction xs)
  case (Cons x xs)
  show ?case
  proof (cases "f x")
    case (Inl e')
    with Cons.prems show ?thesis by auto
  next
    case (Inr y)
    with Cons.prems have "map_result f xs = Inl e" by (auto simp: bind_result_Inl_iff)
    from Cons.IH[OF this] obtain i where "i < length xs" "\<forall>k < i. is_ok (f (xs ! k))" "f (xs ! i) = Inl e"
      by blast
    with Inr show ?thesis by (intro exI[of _ "Suc i"]) (auto simp: less_Suc_eq_0_disj)
  qed
qed simp

text \<open>Why element \<open>i\<close> is refused with the exception \<open>e\<close>.\<close>

definition refused_as :: "'r protobuf \<Rightarrow> string \<Rightarrow> nat \<Rightarrow> json \<Rightarrow> exn \<Rightarrow> bool" where
  "refused_as pb path i j e \<longleftrightarrow>
     (case j of
        JDict kvs \<Rightarrow>
        (case expand_dollar_types pb j of
           Inl e' \<Rightarrow> e = e'
         | Inr x \<Rightarrow>
             (case parse_request pb x of
                Inl (ParseError m) \<Rightarrow> e = at_element path i ('': '' @ m)
              | Inl e' \<Rightarrow> e = e'
              | Inr _ \<Rightarrow> False))
      | _ \<Rightarrow> e = at_element path i '' is not a JSON object'')"

lemma load_entry_Inl: "load_entry pb path (i, j) = Inl e \<Longrightarrow> refused_as pb path i j e"
  by (cases j)
    (auto simp: load_entry_def refused_as_def bind_result_def Let_def split: sum.splits exn.splits)

lemma load_entry_ok: "is_ok (load_entry pb path (i, j)) \<Longrightarrow> \<not> refused_as pb path i j e"
  by (cases j)
    (auto simp: load_entry_def refused_as_def bind_result_def Let_def split: sum.splits exn.splits)


definition toy_bad_type :: json where
  "toy_bad_type = JDict [(''keymap'', JDict [(TYPE_KEY, JStr ''t.Bytes'')])]"

lemma toy_refuses:
  "load_requests_json toy_host toy_protos (\<lambda>_. Inr (JList [toy_request, toy_bad_type])) ''/r.json'' None
     = Inl (ParseError ''no value'')"
proof -
  have "expand_dollar_types toy_protobuf toy_bad_type = Inl (ParseError ''no value'')"
    by (simp add: toy_bad_type_def toy_protobuf_def toy_fields_def expand_dict expand_member_def TYPE_KEY_def
        message_class_def)
  then show ?thesis
    using toy_expands
    by (simp add: load_requests_json_def toy_studio load_data_def load_entry_def toy_request_def toy_bad_type_def
        toy_protobuf_def toy_parse_def numbered_def request_name_def Let_def)
qed


section \<open>Checking a generated file\<close>

text \<open>\<open>--check\<close> accepts exactly the content that a run without it writes.\<close>

lemma generator_check_after_write:
  assumes "generator_main env pe build files g d out False = Inr (Some (path, content), 0)"
  shows "generator_main env pe build files' g d out True =
    Inr (None, if (case files' path of None \<Rightarrow> [] | Some t \<Rightarrow> t) = content then 0 else 1)"
  using assms by (auto simp: generator_main_def bind_result_Inr_iff Let_def)

end
