(* ===== verification/Command_Line.thy ===== *)
theory Command_Line
  imports Py_Prelude Complex_Main
begin

text \<open>
  How the commands read their command lines: the part of \<open>argparse\<close> (CPython 3.11) that the option
  tables of this repository use.  A table is data (\<open>cmd_parser\<close>); reading marks every word as an option,
  an argument or \<open>--\<close>, then consumes options and positionals alternately, converts the words and
  fills a namespace.  A reading that stops is \<open>Inl\<close>: the help text (exit 0) or a usage error (exit 2).

  Conversions with the standard library behind them that is not arithmetic are parameters: what
  \<open>float\<close> makes of a text and which patterns \<open>re.compile\<close> accepts.
\<close>

section \<open>Numbers and paths as words\<close>

text \<open>The digits of \<open>int\<close>: single underscores may stand between digits.\<close>

fun digits_from :: "nat \<Rightarrow> string \<Rightarrow> nat \<Rightarrow> nat option" where
  "digits_from b [] n = Some n"
| "digits_from b (c # cs) n =
     (if c = CHR ''_'' then (if cs \<noteq> [] \<and> hd cs \<noteq> CHR ''_'' then digits_from b cs n else None)
      else (case hex_val c of None \<Rightarrow> None | Some d \<Rightarrow> if d < b then digits_from b cs (n * b + d) else None))"

definition py_digits :: "nat \<Rightarrow> string \<Rightarrow> nat option" where
  "py_digits b s = (if s = [] \<or> hd s = CHR ''_'' then None else digits_from b s 0)"

definition signed :: "(string \<Rightarrow> nat option) \<Rightarrow> string \<Rightarrow> int option" where
  "signed f s =
     (let t = py_strip s in
      if t = [] then None
      else if hd t = CHR ''-'' then map_option (\<lambda>n. - int n) (f (tl t))
      else if hd t = CHR ''+'' then map_option int (f (tl t))
      else map_option int (f t))"

text \<open>\<open>int(s)\<close>, and \<open>int(s, 0)\<close>, which takes a base prefix and refuses other leading zeros.\<close>

definition py_int :: "string \<Rightarrow> int option" where
  "py_int = signed (py_digits 10)"

definition base_of_prefix :: "char \<Rightarrow> nat option" where
  "base_of_prefix c =
     (if c = CHR ''x'' \<or> c = CHR ''X'' then Some 16 else if c = CHR ''o'' \<or> c = CHR ''O'' then Some 8
      else if c = CHR ''b'' \<or> c = CHR ''B'' then Some 2 else None)"

definition literal_digits :: "string \<Rightarrow> nat option" where
  "literal_digits s =
     (if length s \<ge> 2 \<and> hd s = CHR ''0'' \<and> base_of_prefix (s ! 1) \<noteq> None then
        (let b = the (base_of_prefix (s ! 1)); ds = drop 2 s in
         py_digits b (if ds \<noteq> [] \<and> hd ds = CHR ''_'' then tl ds else ds))
      else
        (case py_digits 10 s of
           None \<Rightarrow> None
         | Some n \<Rightarrow> if hd s = CHR ''0'' \<and> n \<noteq> 0 then None else Some n))"

definition py_int_any :: "string \<Rightarrow> int option" where
  "py_int_any = signed literal_digits"

text \<open>\<open>Path(s)\<close> as its normalised text.\<close>

definition py_path :: "string \<Rightarrow> string" where
  "py_path s =
     (let ws = filter (\<lambda>w. w \<noteq> [] \<and> w \<noteq> ''.'') (split_char (CHR ''/'') s);
          root = (if prefix ''//'' s \<and> \<not> prefix ''///'' s then ''//'' else if prefix ''/'' s then ''/'' else []) in
      if root = [] \<and> ws = [] then ''.'' else root @ py_join ''/'' ws)"

section \<open>Option tables\<close>

datatype arity = One | Any_number | At_least_one | Store_true | Show_help

datatype conversion = As_text | As_path | As_int | As_int_any | As_float | As_pattern

datatype arg_value =
    No_value
  | Text string
  | Switch bool
  | Whole int
  | Real_number rat
  | Several "arg_value list"

record option_decl =
  opt_flags :: "string list"
  opt_dest :: string
  opt_arity :: arity
  opt_conv :: conversion
  opt_choices :: "string list option"
  opt_default :: arg_value
  opt_required :: bool

text \<open>The positionals of this repository are \<open>nargs="?"\<close> or \<open>nargs="*"\<close>, without conversion.\<close>

record positional_decl =
  pos_dest :: string
  pos_many :: bool
  pos_default :: arg_value

record cmd_parser =
  options :: "option_decl list"
  positionals :: "positional_decl list"

definition plain_option :: "string list \<Rightarrow> string \<Rightarrow> option_decl" where
  "plain_option flags dest = \<lparr>opt_flags = flags, opt_dest = dest, opt_arity = One, opt_conv = As_text,
     opt_choices = None, opt_default = No_value, opt_required = False\<rparr>"

definition switch_option :: "string list \<Rightarrow> string \<Rightarrow> option_decl" where
  "switch_option flags dest = (plain_option flags dest)\<lparr>opt_arity := Store_true, opt_default := Switch False\<rparr>"

text \<open>The option that \<open>ArgumentParser\<close> adds by itself; it leaves nothing in the namespace.\<close>

definition help_option :: option_decl where
  "help_option = (plain_option [''-h'', ''--help''] ''help'')\<lparr>opt_arity := Show_help\<rparr>"

datatype usage_error =
    Ambiguous string
  | Expected_argument string
  | Ignored_explicit string string
  | Invalid_value string string
  | Invalid_choice string string
  | Missing_options "string list"
  | Unrecognized "string list"

datatype stop = Usage usage_error | Help_shown

type_synonym namespace = "string \<rightharpoonup> arg_value"

record readers =
  float_of :: "string \<Rightarrow> rat option"
  pattern_ok :: "string \<Rightarrow> bool"

definition flag_table :: "cmd_parser \<Rightarrow> (string \<times> option_decl) list" where
  "flag_table p = concat (map (\<lambda>opt. map (\<lambda>f. (f, opt)) (opt_flags opt)) (options p))"

definition flag_option :: "cmd_parser \<Rightarrow> string \<Rightarrow> option_decl option" where
  "flag_option p = map_of (flag_table p)"

section \<open>Marking the words\<close>

text \<open>
  The text attached to an option word: after \<open>=\<close> (\<open>True\<close>), or the rest of a short option (\<open>False\<close>).
\<close>

datatype mark =
    Argument
  | Dashes
  | Known option_decl string "(bool \<times> string) option"
  | Unknown

fun partition_eq :: "string \<Rightarrow> string \<times> string option" where
  "partition_eq [] = ([], None)"
| "partition_eq (c # cs) =
     (if c = CHR ''='' then ([], Some cs) else (case partition_eq cs of (a, e) \<Rightarrow> (c # a, e)))"

definition attached :: "string option \<Rightarrow> (bool \<times> string) option" where
  "attached e = map_option (\<lambda>t. (True, t)) e"

text \<open>\<open>_get_option_tuples\<close>: the options that a word may abbreviate.\<close>

definition abbreviations :: "cmd_parser \<Rightarrow> string \<Rightarrow> mark list" where
  "abbreviations p w =
     (if prefix ''--'' w then
        (case partition_eq w of (start, e) \<Rightarrow>
           concat (map (\<lambda>(f, opt). if prefix start f then [Known opt f (attached e)] else []) (flag_table p)))
      else
        concat (map (\<lambda>(f, opt).
          if f = take 2 w then [Known opt f (Some (False, drop 2 w))]
          else if prefix w f then [Known opt f None] else []) (flag_table p)))"

definition all_digits :: "string \<Rightarrow> bool" where
  "all_digits s \<longleftrightarrow> list_all (\<lambda>c. 48 \<le> (of_char c :: nat) \<and> of_char c \<le> (57 :: nat)) s"

text \<open>The pattern \<open>^-\d+$|^-\d*\.\d+$\<close>; \<open>$\<close> also matches before a final line feed.\<close>

definition negative_number :: "string \<Rightarrow> bool" where
  "negative_number w \<longleftrightarrow>
     (let t = (if w \<noteq> [] \<and> last w = lf then butlast w else w) in
      t \<noteq> [] \<and> hd t = CHR ''-'' \<and>
      (case split_char (CHR ''.'') (tl t) of
         [ds] \<Rightarrow> ds \<noteq> [] \<and> all_digits ds
       | [ds, es] \<Rightarrow> all_digits ds \<and> es \<noteq> [] \<and> all_digits es
       | _ \<Rightarrow> False))"

text \<open>\<open>_parse_optional\<close>.\<close>

definition mark_word :: "cmd_parser \<Rightarrow> string \<Rightarrow> stop + mark" where
  "mark_word p w =
     (if w = [] \<or> hd w \<noteq> CHR ''-'' then Inr Argument
      else case flag_option p w of
        Some opt \<Rightarrow> Inr (Known opt w None)
      | None \<Rightarrow>
          if length w = 1 then Inr Argument
          else (case partition_eq w of (start, e) \<Rightarrow>
            if e \<noteq> None \<and> flag_option p start \<noteq> None
            then Inr (Known (the (flag_option p start)) start (attached e))
            else (case abbreviations p w of
                [m] \<Rightarrow> Inr m
              | _ # _ # _ \<Rightarrow> Inl (Usage (Ambiguous w))
              | [] \<Rightarrow>
                  if negative_number w \<and> \<not> list_ex (\<lambda>(f, opt). negative_number f) (flag_table p) then Inr Argument
                  else if CHR '' '' \<in> set w then Inr Argument
                  else Inr Unknown)))"

fun mark_words :: "cmd_parser \<Rightarrow> string list \<Rightarrow> stop + (string \<times> mark) list" where
  "mark_words p [] = Inr []"
| "mark_words p (w # ws) =
     (if w = ''--'' then Inr ((w, Dashes) # map (\<lambda>v. (v, Argument)) ws)
      else bind_result (mark_word p w) (\<lambda>m. bind_result (mark_words p ws) (\<lambda>ms. Inr ((w, m) # ms))))"

section \<open>Values\<close>

text \<open>\<open>check_regex\<close> of \<open>zmk_build.py\<close>; the compiled pattern is written as its text.\<close>

definition check_regex :: "readers \<Rightarrow> string \<Rightarrow> arg_value option" where
  [simp]: "check_regex R pattern = (if pattern_ok R pattern then Some (Text pattern) else None)"

definition convert :: "readers \<Rightarrow> conversion \<Rightarrow> string \<Rightarrow> arg_value option" where
  "convert R c w =
     (case c of
        As_text \<Rightarrow> Some (Text w)
      | As_path \<Rightarrow> Some (Text (py_path w))
      | As_int \<Rightarrow> map_option Whole (py_int w)
      | As_int_any \<Rightarrow> map_option Whole (py_int_any w)
      | As_float \<Rightarrow> map_option Real_number (float_of R w)
      | As_pattern \<Rightarrow> check_regex R w)"

definition choice_ok :: "option_decl \<Rightarrow> arg_value \<Rightarrow> bool" where
  "choice_ok opt v \<longleftrightarrow> (case opt_choices opt of None \<Rightarrow> True | Some cs \<Rightarrow> v \<in> Text ` set cs)"

definition convert_word :: "readers \<Rightarrow> option_decl \<Rightarrow> string \<Rightarrow> stop + arg_value" where
  "convert_word R opt w =
     (case convert R (opt_conv opt) w of
        None \<Rightarrow> Inl (Usage (Invalid_value (opt_dest opt) w))
      | Some v \<Rightarrow> Inr v)"

definition check_choice :: "option_decl \<Rightarrow> string \<times> arg_value \<Rightarrow> stop + arg_value" where
  "check_choice opt wv = (if choice_ok opt (snd wv) then Inr (snd wv) else Inl (Usage (Invalid_choice (opt_dest opt) (fst wv))))"

text \<open>\<open>_get_values\<close> for an option: all words are converted, then all are checked.\<close>

definition convert_words :: "readers \<Rightarrow> option_decl \<Rightarrow> string list \<Rightarrow> stop + arg_value list" where
  "convert_words R opt ws =
     bind_result (map_result (convert_word R opt) ws) (\<lambda>vs. map_result (check_choice opt) (zip ws vs))"

definition option_value :: "readers \<Rightarrow> option_decl \<Rightarrow> string list \<Rightarrow> stop + arg_value" where
  "option_value R opt ws =
     (case opt_arity opt of
        Show_help \<Rightarrow> Inl Help_shown
      | Store_true \<Rightarrow> Inr (Switch True)
      | One \<Rightarrow> bind_result (convert_words R opt ws) (\<lambda>vs. Inr (hd vs))
      | _ \<Rightarrow> bind_result (convert_words R opt ws) (\<lambda>vs. Inr (Several vs)))"

definition positional_value :: "positional_decl \<Rightarrow> string list \<Rightarrow> arg_value" where
  "positional_value pd words =
     (let ws = remove1 ''--'' words in
      if ws = [] then (if pos_many pd \<and> pos_default pd = No_value then Several [] else pos_default pd)
      else if pos_many pd then Several (map Text ws) else Text (hd ws))"

section \<open>Consuming the words\<close>

record reading =
  vars :: namespace
  seen :: "string list"
  waiting :: "positional_decl list"
  extras :: "string list"

definition take_option :: "readers \<Rightarrow> option_decl \<times> string list \<Rightarrow> reading \<Rightarrow> stop + reading" where
  "take_option R ow st =
     (case ow of (opt, ws) \<Rightarrow> bind_result (option_value R opt ws) (\<lambda>v.
        Inr (st\<lparr>vars := (vars st)(opt_dest opt \<mapsto> v), seen := opt_dest opt # seen st\<rparr>)))"

fun take_options :: "readers \<Rightarrow> (option_decl \<times> string list) list \<Rightarrow> reading \<Rightarrow> stop + reading" where
  "take_options R [] st = Inr st"
| "take_options R (ow # ows) st = bind_result (take_option R ow st) (take_options R ows)"

text \<open>How many of the words that follow an option belong to it.\<close>

definition match_count :: "arity \<Rightarrow> nat \<Rightarrow> nat option" where
  "match_count a n =
     (case a of
        One \<Rightarrow> if n = 0 then None else Some 1
      | Any_number \<Rightarrow> Some n
      | At_least_one \<Rightarrow> if n = 0 then None else Some n
      | _ \<Rightarrow> Some 0)"

text \<open>
  \<open>consume_optional\<close> for one option word: the options that it stands for with their words (a cluster of
  short switches is several), the number of following words used, and what was not understood.
\<close>

function cluster ::
  "cmd_parser \<Rightarrow> string list \<Rightarrow> option_decl \<Rightarrow> string \<Rightarrow> (bool \<times> string) option \<Rightarrow>
     stop + ((option_decl \<times> string list) list \<times> nat \<times> string list)"
where
  "cluster p following opt f None =
     (case match_count (opt_arity opt) (length following) of
        None \<Rightarrow> Inl (Usage (Expected_argument f))
      | Some k \<Rightarrow> Inr ([(opt, take k following)], k, []))"
| "cluster p following opt f (Some (eq, e)) =
     (if match_count (opt_arity opt) 1 = Some 1 then Inr ([(opt, [e])], 0, [])
      else if take 2 f = ''--'' \<or> e = [] \<or> eq \<or> hd e = CHR ''-'' then Inl (Usage (Ignored_explicit f e))
      else case flag_option p [CHR ''-'', hd e] of
        None \<Rightarrow> Inr ([(opt, [])], 0, [CHR ''-'' # e])
      | Some opt' \<Rightarrow>
          bind_result
            (cluster p following opt' [CHR ''-'', hd e]
              (case tl e of [] \<Rightarrow> None | c # r \<Rightarrow> Some (if c = CHR ''='' then (True, r) else (False, c # r))))
            (\<lambda>(ows, k, ex). Inr ((opt, []) # ows, k, ex)))"
  by pat_completeness auto
termination
proof (relation "measure (\<lambda>(p, ws, opt, f, e). case e of None \<Rightarrow> 0 | Some (q, t) \<Rightarrow> Suc (length t))", goal_cases)
  case 1
  then show ?case by simp
next
  case (2 p following opt f eq e opt')
  then show ?case by (cases e) (auto split: list.splits)
qed

definition is_argument :: "string \<times> mark \<Rightarrow> bool" where
  "is_argument wm \<longleftrightarrow> snd wm = Argument"

definition is_positional :: "string \<times> mark \<Rightarrow> bool" where
  "is_positional wm \<longleftrightarrow> snd wm = Argument \<or> snd wm = Dashes"

definition is_dashes :: "string \<times> mark \<Rightarrow> bool" where
  "is_dashes wm \<longleftrightarrow> snd wm = Dashes"

text \<open>The words of one positional: \<open>(-*A?-*)\<close> or \<open>(-*[A-]*)\<close>, as long as possible.\<close>

definition positional_words :: "positional_decl \<Rightarrow> (string \<times> mark) list \<Rightarrow> (string \<times> mark) list" where
  "positional_words pd xs =
     (if pos_many pd then takeWhile is_positional xs
      else (let ds = takeWhile is_dashes xs; rest = dropWhile is_dashes xs in
        if rest \<noteq> [] \<and> is_argument (hd rest) then ds @ [hd rest] @ takeWhile is_dashes (tl rest) else ds))"

fun consume_positionals ::
  "positional_decl list \<Rightarrow> (string \<times> mark) list \<Rightarrow> namespace \<Rightarrow> nat \<times> namespace"
where
  "consume_positionals [] xs ns = (0, ns)"
| "consume_positionals (pd # pds) xs ns =
     (let ws = positional_words pd xs;
          ns' = ns(pos_dest pd \<mapsto> positional_value pd (map fst ws)) in
      case consume_positionals pds (drop (length ws) xs) ns' of (n, ns'') \<Rightarrow> (length ws + n, ns''))"

definition is_option :: "string \<times> mark \<Rightarrow> bool" where
  "is_option wm \<longleftrightarrow> (case snd wm of Known _ _ _ \<Rightarrow> True | Unknown \<Rightarrow> True | _ \<Rightarrow> False)"

text \<open>The alternation: positionals before the next option, the option with its words, and so on.\<close>

definition last_positionals :: "(string \<times> mark) list \<Rightarrow> reading \<Rightarrow> reading" where
  "last_positionals xs st =
     (case consume_positionals (waiting st) xs (vars st) of (n, ns) \<Rightarrow>
        st\<lparr>vars := ns, waiting := [], extras := extras st @ map fst (drop n xs)\<rparr>)"

function consume :: "readers \<Rightarrow> cmd_parser \<Rightarrow> (string \<times> mark) list \<Rightarrow> reading \<Rightarrow> stop + reading" where
  "consume R p [] st = Inr (last_positionals [] st)"
| "consume R p ((w, m) # xs) st =
     (case m of
        Known opt f e \<Rightarrow>
          bind_result (cluster p (map fst (takeWhile is_argument xs)) opt f e) (\<lambda>(ows, k, ex).
          bind_result (take_options R ows st) (\<lambda>st'.
          consume R p (drop k xs) (st'\<lparr>extras := extras st' @ ex\<rparr>)))
      | Unknown \<Rightarrow> consume R p xs (st\<lparr>extras := extras st @ [w]\<rparr>)
      | _ \<Rightarrow>
          if \<not> list_ex is_option xs then Inr (last_positionals ((w, m) # xs) st)
          else
            (case consume_positionals (waiting st) ((w, m) # xs) (vars st) of (n, ns) \<Rightarrow>
             let st' = st\<lparr>vars := ns, waiting := []\<rparr> in
             if n > 0 then consume R p (drop (n - 1) xs) st'
             else consume R p (dropWhile (\<lambda>x. \<not> is_option x) xs)
               (st'\<lparr>extras := extras st @ w # map fst (takeWhile (\<lambda>x. \<not> is_option x) xs)\<rparr>)))"
  by pat_completeness auto
termination
  by (relation "measure (\<lambda>(R, p, xs, st). length xs)") (auto simp: less_Suc_eq_le length_dropWhile_le)

section \<open>Reading a command line\<close>

definition defaults :: "cmd_parser \<Rightarrow> namespace" where
  "defaults p = map_of
     (map (\<lambda>opt. (opt_dest opt, opt_default opt)) (filter (\<lambda>opt. opt_arity opt \<noteq> Show_help) (options p)) @
      map (\<lambda>pd. (pos_dest pd, pos_default pd)) (positionals p))"

definition missing_options :: "cmd_parser \<Rightarrow> string list \<Rightarrow> string list" where
  "missing_options p given = map opt_dest (filter (\<lambda>opt. opt_required opt \<and> opt_dest opt \<notin> set given) (options p))"

definition parse_known_args :: "readers \<Rightarrow> cmd_parser \<Rightarrow> string list \<Rightarrow> stop + (namespace \<times> string list)" where
  "parse_known_args R p argv =
     bind_result (mark_words p argv) (\<lambda>ms.
     bind_result (consume R p ms \<lparr>vars = defaults p, seen = [], waiting = positionals p, extras = []\<rparr>) (\<lambda>st.
     if missing_options p (seen st) \<noteq> [] then Inl (Usage (Missing_options (missing_options p (seen st))))
     else Inr (vars st, extras st)))"

definition parse_args :: "readers \<Rightarrow> cmd_parser \<Rightarrow> string list \<Rightarrow> stop + namespace" where
  "parse_args R p argv =
     bind_result (parse_known_args R p argv) (\<lambda>(ns, ex).
     if ex \<noteq> [] then Inl (Usage (Unrecognized ex)) else Inr ns)"

text \<open>The exit code of a reading that stops.\<close>

fun stop_code :: "stop \<Rightarrow> int" where
  "stop_code Help_shown = 0"
| "stop_code (Usage e) = 2"

section \<open>Every attribute has its type\<close>

text \<open>What an option leaves in the namespace when it is given, and what a positional leaves.\<close>

definition value_ok :: "readers \<Rightarrow> option_decl \<Rightarrow> arg_value \<Rightarrow> bool" where
  "value_ok R opt v \<longleftrightarrow>
     (let good = (\<lambda>u. (\<exists>w. convert R (opt_conv opt) w = Some u) \<and> choice_ok opt u) in
      case opt_arity opt of
        Show_help \<Rightarrow> False
      | Store_true \<Rightarrow> v = Switch True
      | One \<Rightarrow> good v
      | _ \<Rightarrow> \<exists>vs. v = Several vs \<and> list_all good vs)"

definition positional_ok :: "positional_decl \<Rightarrow> arg_value \<Rightarrow> bool" where
  "positional_ok pd v \<longleftrightarrow> v = pos_default pd \<or>
     (if pos_many pd then \<exists>ws. v = Several (map Text ws) else \<exists>w. v = Text w)"

definition wf_parser :: "cmd_parser \<Rightarrow> bool" where
  "wf_parser p \<longleftrightarrow> distinct (map opt_dest (options p) @ map pos_dest (positionals p))"

definition reading_ok :: "readers \<Rightarrow> cmd_parser \<Rightarrow> reading \<Rightarrow> bool" where
  "reading_ok R p st \<longleftrightarrow>
     (\<forall>opt \<in> set (options p). opt_arity opt \<noteq> Show_help \<longrightarrow>
       (\<exists>v. vars st (opt_dest opt) = Some v \<and>
         (if opt_dest opt \<in> set (seen st) then value_ok R opt v else v = opt_default opt))) \<and>
     (\<forall>pd \<in> set (positionals p). \<exists>v. vars st (pos_dest pd) = Some v \<and> positional_ok pd v) \<and>
     waiting st \<in> {[], positionals p}"

lemma wf_parser_dests:
  assumes "wf_parser p"
  shows "opt \<in> set (options p) \<Longrightarrow> opt' \<in> set (options p) \<Longrightarrow> opt_dest opt = opt_dest opt' \<Longrightarrow> opt = opt'"
    and "opt \<in> set (options p) \<Longrightarrow> pd \<in> set (positionals p) \<Longrightarrow> opt_dest opt \<noteq> pos_dest pd"
    and "pd \<in> set (positionals p) \<Longrightarrow> pd' \<in> set (positionals p) \<Longrightarrow> pos_dest pd = pos_dest pd' \<Longrightarrow> pd = pd'"
  using assms by (auto simp: wf_parser_def distinct_map dest: inj_onD)

lemma map_of_unique: "distinct (map fst xs) \<Longrightarrow> (k, v) \<in> set xs \<Longrightarrow> map_of xs k = Some v"
  by simp

lemma defaults_ok:
  assumes "wf_parser p"
  shows "reading_ok R p \<lparr>vars = defaults p, seen = [], waiting = positionals p, extras = []\<rparr>"
proof -
  let ?xs = "map (\<lambda>opt. (opt_dest opt, opt_default opt)) (filter (\<lambda>opt. opt_arity opt \<noteq> Show_help) (options p)) @
      map (\<lambda>pd. (pos_dest pd, pos_default pd)) (positionals p)"
  have "distinct (map fst ?xs)"
    using assms by (auto simp: wf_parser_def comp_def distinct_map intro: inj_on_subset)
  note look = map_of_unique[OF this, folded defaults_def]
  have "defaults p (pos_dest pd) = Some (pos_default pd)" if "pd \<in> set (positionals p)" for pd
    by (rule look) (use that in auto)
  then show ?thesis
    unfolding reading_ok_def by (auto simp: positional_ok_def intro!: look)
qed

lemma convert_words_ok:
  assumes "convert_words R opt ws = Inr vs"
  shows "length vs = length ws \<and> list_all (\<lambda>u. (\<exists>w. convert R (opt_conv opt) w = Some u) \<and> choice_ok opt u) vs"
proof -
  obtain us where us: "map_result (convert_word R opt) ws = Inr us" "map_result (check_choice opt) (zip ws us) = Inr vs"
    using assms by (auto simp: convert_words_def bind_result_Inr_iff)
  have l: "length us = length ws" "length vs = length us"
    using map_result_length[OF us(1)] map_result_length[OF us(2)] by auto
  have "vs ! i = us ! i \<and> (\<exists>w. convert R (opt_conv opt) w = Some (us ! i)) \<and> choice_ok opt (us ! i)" if "i < length vs" for i
    using that l map_result_nth[OF us(1), of i] map_result_nth[OF us(2), of i]
    by (auto simp: convert_word_def check_choice_def split: option.splits if_splits)
  with l show ?thesis by (auto simp: list_all_length)
qed

lemma option_value_ok:
  assumes "option_value R opt ws = Inr v" and "opt_arity opt = One \<Longrightarrow> ws \<noteq> []"
  shows "value_ok R opt v"
  using assms convert_words_ok[of R opt ws]
  by (cases "opt_arity opt") (auto simp: option_value_def value_ok_def Let_def bind_result_Inr_iff neq_Nil_conv length_Suc_conv)

definition consumable :: "cmd_parser \<Rightarrow> option_decl \<times> string list \<Rightarrow> bool" where
  "consumable p ow \<longleftrightarrow> fst ow \<in> set (options p) \<and> (opt_arity (fst ow) = One \<longrightarrow> snd ow \<noteq> [])"

lemma take_option_ok:
  assumes "wf_parser p" and "take_option R ow st = Inr st'" and "consumable p ow" and "reading_ok R p st"
  shows "reading_ok R p st'"
proof -
  obtain opt ws where ow: "ow = (opt, ws)" by fastforce
  obtain v where v: "option_value R opt ws = Inr v"
    and st': "st' = st\<lparr>vars := (vars st)(opt_dest opt \<mapsto> v), seen := opt_dest opt # seen st\<rparr>"
    using assms(2) by (auto simp: take_option_def ow bind_result_Inr_iff)
  have opt: "opt \<in> set (options p)" and ok: "value_ok R opt v"
    using assms(3) option_value_ok[OF v] by (auto simp: consumable_def ow)
  have same: "opt' = opt" if "opt' \<in> set (options p)" "opt_dest opt' = opt_dest opt" for opt'
    using wf_parser_dests(1)[OF assms(1) that(1) opt that(2)] .
  have other: "pos_dest pd \<noteq> opt_dest opt" if "pd \<in> set (positionals p)" for pd
    using wf_parser_dests(2)[OF assms(1) opt that] by simp
  show ?thesis
    using assms(4) ok unfolding reading_ok_def st' by (auto simp: other dest: same)
qed

lemma take_options_ok:
  "wf_parser p \<Longrightarrow> take_options R ows st = Inr st' \<Longrightarrow> list_all (consumable p) ows \<Longrightarrow> reading_ok R p st \<Longrightarrow>
     reading_ok R p st'"
  by (induction ows arbitrary: st) (auto simp: bind_result_Inr_iff dest: take_option_ok)

lemma flag_option_declared: "flag_option p f = Some opt \<Longrightarrow> opt \<in> set (options p)"
  by (auto simp: flag_option_def flag_table_def dest!: map_of_SomeD)

lemma match_count_one: "match_count a 1 = Some 1 \<or> match_count a (Suc 0) = Some (Suc 0) \<or> a \<noteq> One"
  by (cases a) (auto simp: match_count_def)

lemma cluster_consumable:
  "cluster p following opt f e = Inr (ows, k, ex) \<Longrightarrow> opt \<in> set (options p) \<Longrightarrow> list_all (consumable p) ows"
proof (induction p following opt f e arbitrary: ows k ex rule: cluster.induct)
  case (1 p following opt f)
  then show ?case by (cases "opt_arity opt") (auto simp: consumable_def match_count_def split: if_splits)
next
  case (2 p following opt f eq e)
  show ?case
  proof (cases "match_count (opt_arity opt) 1 = Some 1")
    case True
    with 2 show ?thesis by (auto simp: consumable_def)
  next
    case False
    then have a: "opt_arity opt \<noteq> One" by (auto simp: match_count_def)
    show ?thesis
    proof (cases "flag_option p [CHR ''-'', hd e]")
      case None
      with False a "2.prems" show ?thesis by (auto simp: consumable_def split: if_splits)
    next
      case (Some opt')
      with False "2.prems" obtain ows' where
        ows': "cluster p following opt' [CHR ''-'', hd e]
          (case tl e of [] \<Rightarrow> None | c # r \<Rightarrow> Some (if c = CHR ''='' then (True, r) else (False, c # r))) = Inr (ows', k, ex)"
        and ows: "ows = (opt, []) # ows'" and c: "\<not> (take 2 f = ''--'' \<or> e = [] \<or> eq \<or> hd e = CHR ''-'')"
        by (auto simp: bind_result_Inr_iff split: if_splits)
      from "2.IH"[OF False c Some ows' flag_option_declared[OF Some]] a "2.prems"(2)
      show ?thesis by (simp add: ows consumable_def)
    qed
  qed
qed

text \<open>Marks name declared options only.\<close>

definition declared :: "cmd_parser \<Rightarrow> string \<times> mark \<Rightarrow> bool" where
  "declared p wm \<longleftrightarrow> (\<forall>opt f e. snd wm = Known opt f e \<longrightarrow> opt \<in> set (options p))"

lemma declared_simps [simp]: "declared p (w, Argument)" "declared p (w, Dashes)" "declared p (w, Unknown)"
  "declared p (w, Known opt f e) = (opt \<in> set (options p))"
  by (auto simp: declared_def)

lemma abbreviations_declared: "m \<in> set (abbreviations p w) \<Longrightarrow> declared p (w, m)"
  by (auto simp: abbreviations_def flag_table_def split: if_splits prod.splits)

lemma mark_word_declared: "mark_word p w = Inr m \<Longrightarrow> declared p (w, m)"
  using abbreviations_declared[of _ p w] flag_option_declared[of p]
  by (auto simp: mark_word_def split: if_splits option.splits prod.splits list.splits)

lemma mark_words_declared: "mark_words p ws = Inr ms \<Longrightarrow> list_all (declared p) ms"
  by (induction ws arbitrary: ms) (auto simp: bind_result_Inr_iff list_all_iff dest: mark_word_declared split: if_splits)

lemma positional_value_ok: "positional_ok pd (positional_value pd ws)"
  by (auto simp: positional_ok_def positional_value_def Let_def intro: exI[of _ "[]"])

lemma consume_positionals_other:
  "consume_positionals pds xs ns = (n, ns') \<Longrightarrow> d \<notin> pos_dest ` set pds \<Longrightarrow> ns' d = ns d"
  by (induction pds arbitrary: xs ns n) (auto simp: Let_def split: prod.splits)

lemma consume_positionals_ok:
  "consume_positionals pds xs ns = (n, ns') \<Longrightarrow> pd \<in> set pds \<Longrightarrow> distinct (map pos_dest pds) \<Longrightarrow>
     \<exists>v. ns' (pos_dest pd) = Some v \<and> positional_ok pd v"
proof (induction pds arbitrary: xs ns n)
  case (Cons q pds)
  then obtain m where m: "consume_positionals pds (drop (length (positional_words q xs)) xs)
      (ns(pos_dest q \<mapsto> positional_value q (map fst (positional_words q xs)))) = (m, ns')"
    by (auto simp: Let_def split: prod.splits)
  show ?case
  proof (cases "pd \<in> set pds")
    case True
    with Cons.IH[OF m] Cons.prems(3) show ?thesis by simp
  next
    case False
    then have "pd = q" "pos_dest q \<notin> pos_dest ` set pds" using Cons.prems by auto
    with consume_positionals_other[OF m] show ?thesis by (simp add: positional_value_ok)
  qed
qed simp

lemma last_positionals_ok:
  assumes "wf_parser p" and "reading_ok R p st" and "consume_positionals (waiting st) xs (vars st) = (n, ns)"
  shows "reading_ok R p (st\<lparr>vars := ns, waiting := [], extras := ex\<rparr>)"
proof -
  have d: "distinct (map pos_dest (positionals p))" using assms(1) by (simp add: wf_parser_def)
  have other: "ns (opt_dest opt) = vars st (opt_dest opt)" if "opt \<in> set (options p)" for opt
    using assms(2) wf_parser_dests(2)[OF assms(1) that]
    by (intro consume_positionals_other[OF assms(3)]) (force simp: reading_ok_def)
  have "\<exists>v. ns (pos_dest pd) = Some v \<and> positional_ok pd v" if "pd \<in> set (positionals p)" for pd
  proof (cases "waiting st = []")
    case True
    with assms(2,3) that show ?thesis by (simp add: reading_ok_def)
  next
    case False
    with assms(2) have "waiting st = positionals p" by (auto simp: reading_ok_def)
    with consume_positionals_ok[OF assms(3)] that d show ?thesis by simp
  qed
  with assms(2) other show ?thesis by (simp add: reading_ok_def)
qed

lemma reading_ok_extras [simp]: "reading_ok R p (st\<lparr>extras := ex\<rparr>) = reading_ok R p st"
  by (simp add: reading_ok_def)

lemma declared_rest: "list_all (declared p) xs \<Longrightarrow> list_all (declared p) (drop n xs) \<and> list_all (declared p) (dropWhile P xs)"
  by (auto simp: list_all_iff dest: in_set_dropD set_dropWhileD)

lemma consume_ok:
  "wf_parser p \<Longrightarrow> consume R p xs st = Inr st' \<Longrightarrow> list_all (declared p) xs \<Longrightarrow> reading_ok R p st \<Longrightarrow> reading_ok R p st'"
proof (induction R p xs st arbitrary: st' rule: consume.induct)
  case (1 R p st)
  then show ?case using last_positionals_ok[of p R st "[]"] by (auto simp: last_positionals_def split: prod.splits)
next
  case (2 R p w m xs st)
  have rest: "list_all (declared p) (drop n xs)" "list_all (declared p) (dropWhile Q xs)" for n Q
    using "2.prems"(3) declared_rest[of p xs] by auto
  obtain n ns where n: "consume_positionals (waiting st) ((w, m) # xs) (vars st) = (n, ns)" by fastforce
  note here = last_positionals_ok[OF "2.prems"(1,4) n]
  have ok: "reading_ok R p (st\<lparr>vars := ns, waiting := []\<rparr>)" using here[of "extras st"] by simp
  show ?case
  proof (cases m)
    case (Known opt f e)
    then obtain ows k ex st1 where c: "cluster p (map fst (takeWhile is_argument xs)) opt f e = Inr (ows, k, ex)"
      and st1: "take_options R ows st = Inr st1"
      and rec: "consume R p (drop k xs) (st1\<lparr>extras := extras st1 @ ex\<rparr>) = Inr st'"
      using "2.prems"(2) by (auto simp: bind_result_Inr_iff)
    have "list_all (consumable p) ows"
      using cluster_consumable[OF c] "2.prems"(3) Known by simp
    from take_options_ok[OF "2.prems"(1) st1 this "2.prems"(4)]
    show ?thesis
      using "2.IH"(5)[OF Known "2.prems"(1) rec rest(1)] by simp
  next
    case Unknown
    then show ?thesis using "2.IH"(6)[OF Unknown "2.prems"(1)] "2.prems" by simp
  next
    case Argument
    note IH = "2.IH"(1)[OF Argument _ n[symmetric] refl _ "2.prems"(1) _ rest(1)]
      "2.IH"(2)[OF Argument _ n[symmetric] refl _ "2.prems"(1) _ rest(2)]
    with Argument "2.prems"(2) n here ok show ?thesis
      by (auto simp: last_positionals_def Let_def split: if_splits)
  next
    case Dashes
    note IH = "2.IH"(3)[OF Dashes _ n[symmetric] refl _ "2.prems"(1) _ rest(1)]
      "2.IH"(4)[OF Dashes _ n[symmetric] refl _ "2.prems"(1) _ rest(2)]
    with Dashes "2.prems"(2) n here ok show ?thesis
      by (auto simp: last_positionals_def Let_def split: if_splits)
  qed
qed

text \<open>
  A namespace has every attribute of its table; a value that is not the default comes from the conversion
  and is one of the choices, and a required option has such a value.
\<close>

definition namespace_ok :: "readers \<Rightarrow> cmd_parser \<Rightarrow> namespace \<Rightarrow> bool" where
  "namespace_ok R p ns \<longleftrightarrow>
     (\<forall>opt \<in> set (options p). opt_arity opt \<noteq> Show_help \<longrightarrow>
       (\<exists>v. ns (opt_dest opt) = Some v \<and> (value_ok R opt v \<or> (v = opt_default opt \<and> \<not> opt_required opt)))) \<and>
     (\<forall>pd \<in> set (positionals p). \<exists>v. ns (pos_dest pd) = Some v \<and> positional_ok pd v)"

lemma parse_known_args_typed:
  assumes "wf_parser p" and "parse_known_args R p argv = Inr (ns, ex)"
  shows "namespace_ok R p ns"
proof -
  obtain ms st where ms: "mark_words p argv = Inr ms"
    and st: "consume R p ms \<lparr>vars = defaults p, seen = [], waiting = positionals p, extras = []\<rparr> = Inr st"
    and given: "missing_options p (seen st) = []" and ns: "ns = vars st"
    using assms(2) by (auto simp: parse_known_args_def bind_result_Inr_iff split: if_splits)
  have "reading_ok R p st"
    by (rule consume_ok[OF assms(1) st mark_words_declared[OF ms] defaults_ok[OF assms(1)]])
  moreover have "opt_dest opt \<in> set (seen st)" if "opt \<in> set (options p)" "opt_required opt" for opt
    using given that by (auto simp: missing_options_def filter_empty_conv)
  ultimately show ?thesis
    unfolding reading_ok_def namespace_ok_def ns by (metis (full_types))
qed

lemma parse_args_typed: "wf_parser p \<Longrightarrow> parse_args R p argv = Inr ns \<Longrightarrow> namespace_ok R p ns"
  by (auto simp: parse_args_def bind_result_Inr_iff dest: parse_known_args_typed split: if_splits)

section \<open>Settings as command lines\<close>

text \<open>
  A setting is a long option with the word it is given, written \<open>--flag=word\<close>, or a switch.  A command line
  of settings is read as their values, in order; the word of a setting may be any text.
\<close>

type_synonym setting = "string \<times> string option"

fun setting_word :: "setting \<Rightarrow> string" where
  "setting_word (f, None) = f"
| "setting_word (f, Some w) = f @ CHR ''='' # w"

definition chosen :: "cmd_parser \<Rightarrow> setting \<Rightarrow> option_decl \<times> string list" where
  "chosen p s = (the (flag_option p (fst s)), case snd s of None \<Rightarrow> [] | Some w \<Rightarrow> [w])"

definition plain_flags :: "cmd_parser \<Rightarrow> bool" where
  "plain_flags p \<longleftrightarrow> list_all (\<lambda>(f, opt). CHR ''='' \<notin> set f) (flag_table p)"

definition setting_ok :: "cmd_parser \<Rightarrow> setting \<Rightarrow> bool" where
  "setting_ok p s \<longleftrightarrow>
     (\<exists>opt. flag_option p (fst s) = Some opt \<and> prefix ''--'' (fst s) \<and> fst s \<noteq> ''--'' \<and>
       opt_arity opt = (if snd s = None then Store_true else One))"

lemma partition_eq_append: "CHR ''='' \<notin> set f \<Longrightarrow> partition_eq (f @ CHR ''='' # w) = (f, Some w)"
  by (induction f) auto

lemma flag_option_plain: "plain_flags p \<Longrightarrow> flag_option p f = Some opt \<Longrightarrow> CHR ''='' \<notin> set f"
  by (auto simp: plain_flags_def flag_option_def list_all_iff dest!: map_of_SomeD)

definition setting_mark :: "cmd_parser \<Rightarrow> setting \<Rightarrow> string \<times> mark" where
  "setting_mark p s = (setting_word s, Known (the (flag_option p (fst s))) (fst s) (attached (snd s)))"

lemma mark_setting:
  assumes "plain_flags p" and "setting_ok p s"
  shows "mark_word p (setting_word s) = Inr (snd (setting_mark p s)) \<and> setting_word s \<noteq> ''--''"
proof -
  obtain f w where s: "s = (f, w)" by fastforce
  obtain opt where f: "flag_option p f = Some opt" "prefix ''--'' f" "f \<noteq> ''--''"
    using assms(2) by (auto simp: setting_ok_def s)
  then obtain g where g: "f = CHR ''-'' # CHR ''-'' # g" by (auto simp: prefix_def)
  have eq: "CHR ''='' \<notin> set f" by (rule flag_option_plain[OF assms(1) f(1)])
  show ?thesis
  proof (cases w)
    case None
    with f g show ?thesis by (simp add: s setting_mark_def mark_word_def attached_def)
  next
    case (Some v)
    have "flag_option p (f @ CHR ''='' # v) = None"
      using flag_option_plain[OF assms(1), of "f @ CHR ''='' # v"] by fastforce
    with Some f g partition_eq_append[OF eq, of v] show ?thesis
      by (simp add: s setting_mark_def mark_word_def attached_def)
  qed
qed

lemma mark_settings:
  "plain_flags p \<Longrightarrow> list_all (setting_ok p) ss \<Longrightarrow>
     mark_words p (map setting_word ss) = Inr (map (setting_mark p) ss)"
  by (induction ss) (auto simp: setting_mark_def dest: mark_setting)

lemma cluster_setting:
  "setting_ok p s \<Longrightarrow>
     cluster p ws (the (flag_option p (fst s))) (fst s) (attached (snd s)) = Inr ([chosen p s], 0, [])"
  by (cases s; cases "snd s") (auto simp: setting_ok_def attached_def chosen_def match_count_def)

lemma take_option_keeps:
  "take_option R ow st = Inr st' \<Longrightarrow> waiting st' = waiting st \<and> extras st' = extras st"
  by (auto simp: take_option_def bind_result_Inr_iff split: prod.splits)

lemma consume_settings:
  "list_all (setting_ok p) ss \<Longrightarrow>
     consume R p (map (setting_mark p) ss) st =
       bind_result (take_options R (map (chosen p) ss) st) (\<lambda>st'. Inr (last_positionals [] st'))"
proof (induction ss arbitrary: st)
  case (Cons s ss)
  have "map fst (takeWhile is_argument (map (setting_mark p) ss)) = []"
    by (cases ss) (auto simp: setting_mark_def is_argument_def)
  moreover have "setting_mark p s = (setting_word s, Known (the (flag_option p (fst s))) (fst s) (attached (snd s)))"
    by (simp add: setting_mark_def)
  ultimately show ?case
    using Cons cluster_setting[of p s "[]"]
    by (cases "take_option R (chosen p s) st") simp_all
qed simp

text \<open>What the settings leave, when every word converts.\<close>

definition setting_value :: "readers \<Rightarrow> cmd_parser \<Rightarrow> setting \<Rightarrow> string \<times> arg_value" where
  "setting_value R p s =
     (case chosen p s of (opt, ws) \<Rightarrow> (opt_dest opt, projr (option_value R opt ws)))"

definition converts :: "readers \<Rightarrow> cmd_parser \<Rightarrow> setting \<Rightarrow> bool" where
  "converts R p s \<longleftrightarrow> is_ok (option_value R (fst (chosen p s)) (snd (chosen p s)))"

lemma take_chosen:
  "list_all (converts R p) ss \<Longrightarrow>
     take_options R (map (chosen p) ss) st =
       Inr (st\<lparr>vars := vars st ++ map_of (rev (map (setting_value R p) ss)),
               seen := rev (map (fst \<circ> setting_value R p) ss) @ seen st\<rparr>)"
proof (induction ss arbitrary: st)
  case (Cons s ss)
  obtain opt ws where c: "chosen p s = (opt, ws)" by fastforce
  with Cons.prems obtain v where v: "option_value R opt ws = Inr v"
    by (cases "option_value R opt ws") (auto simp: converts_def)
  have sv: "setting_value R p s = (opt_dest opt, v)" by (simp add: setting_value_def c v)
  have "take_option R (chosen p s) st = Inr (st\<lparr>vars := (vars st)(opt_dest opt \<mapsto> v), seen := opt_dest opt # seen st\<rparr>)"
    by (simp add: take_option_def c v)
  moreover have "m(d \<mapsto> u) ++ map_of xs = m ++ map_of (xs @ [(d, u)])" for m :: namespace and d u xs
    by (simp add: map_add_def fun_eq_iff split: option.splits)
  ultimately show ?case
    using Cons by (simp add: sv)
qed simp

lemma positionals_absent:
  "consume_positionals pds [] ns = (0, ns ++ map_of (rev (map (\<lambda>pd. (pos_dest pd, positional_value pd [])) pds)))"
proof (induction pds arbitrary: ns)
  case (Cons pd pds)
  have w: "positional_words pd [] = []" by (simp add: positional_words_def)
  have "m(d \<mapsto> u) ++ map_of xs = m ++ map_of (xs @ [(d, u)])" for m :: namespace and d u xs
    by (simp add: map_add_def fun_eq_iff split: option.splits)
  with Cons.IH show ?case by (simp add: w)
qed simp

lemma parse_settings:
  assumes "plain_flags p" and "list_all (setting_ok p) ss" and "list_all (converts R p) ss"
    and "missing_options p (map (fst \<circ> setting_value R p) ss) = []"
  shows "parse_args R p (map setting_word ss) =
    Inr (defaults p ++ map_of (rev (map (setting_value R p) ss)) ++
      map_of (rev (map (\<lambda>pd. (pos_dest pd, positional_value pd [])) (positionals p))))"
proof -
  have "missing_options p (rev (map (fst \<circ> setting_value R p) ss)) = []"
    using assms(4) by (simp add: missing_options_def)
  then show ?thesis
    using mark_settings[OF assms(1,2)] consume_settings[OF assms(2)] take_chosen[OF assms(3)]
    by (simp add: parse_args_def parse_known_args_def last_positionals_def positionals_absent)
qed

section \<open>Reading attributes\<close>

fun as_text :: "arg_value \<Rightarrow> string option" where
  "as_text (Text s) = Some s"
| "as_text _ = None"

fun as_opt_text :: "arg_value \<Rightarrow> string option option" where
  "as_opt_text No_value = Some None"
| "as_opt_text (Text s) = Some (Some s)"
| "as_opt_text _ = None"

fun as_switch :: "arg_value \<Rightarrow> bool option" where
  "as_switch (Switch b) = Some b"
| "as_switch _ = None"

fun as_whole :: "arg_value \<Rightarrow> int option" where
  "as_whole (Whole i) = Some i"
| "as_whole _ = None"

fun as_opt_whole :: "arg_value \<Rightarrow> int option option" where
  "as_opt_whole No_value = Some None"
| "as_opt_whole (Whole i) = Some (Some i)"
| "as_opt_whole _ = None"

fun as_number :: "arg_value \<Rightarrow> rat option" where
  "as_number (Real_number x) = Some x"
| "as_number _ = None"

fun as_texts :: "arg_value \<Rightarrow> string list option" where
  "as_texts (Several vs) = those (map as_text vs)"
| "as_texts _ = None"

fun as_opt_texts :: "arg_value \<Rightarrow> string list option option" where
  "as_opt_texts No_value = Some None"
| "as_opt_texts v = map_option Some (as_texts v)"

definition attr :: "namespace \<Rightarrow> string \<Rightarrow> (arg_value \<Rightarrow> 'a option) \<Rightarrow> 'a option" where
  "attr ns d f = Option.bind (ns d) f"

text \<open>
  The kinds of attributes that the handlers read.  \<open>declares p d K\<close>: the table gives attribute \<open>d\<close> a value
  of kind \<open>K\<close>, whether the command line sets it or not; it can be computed from the table.
\<close>

datatype attr_kind = K_text | K_opt_text | K_switch | K_whole | K_opt_whole | K_number | K_texts | K_opt_texts

definition kind_reads :: "attr_kind \<Rightarrow> arg_value \<Rightarrow> bool" where
  "kind_reads K v \<longleftrightarrow>
     (case K of K_text \<Rightarrow> as_text v \<noteq> None | K_opt_text \<Rightarrow> as_opt_text v \<noteq> None | K_switch \<Rightarrow> as_switch v \<noteq> None
      | K_whole \<Rightarrow> as_whole v \<noteq> None | K_opt_whole \<Rightarrow> as_opt_whole v \<noteq> None | K_number \<Rightarrow> as_number v \<noteq> None
      | K_texts \<Rightarrow> as_texts v \<noteq> None | K_opt_texts \<Rightarrow> as_opt_texts v \<noteq> None)"

definition kind_gives :: "attr_kind \<Rightarrow> arity \<Rightarrow> conversion \<Rightarrow> bool" where
  "kind_gives K a c \<longleftrightarrow>
     (if K \<in> {K_text, K_opt_text} then a = One \<and> c \<in> {As_text, As_path, As_pattern}
      else if K = K_switch then a = Store_true
      else if K \<in> {K_whole, K_opt_whole} then a = One \<and> c \<in> {As_int, As_int_any}
      else if K = K_number then a = One \<and> c = As_float
      else a \<in> {Any_number, At_least_one} \<and> c = As_text)"

definition declares :: "cmd_parser \<Rightarrow> string \<Rightarrow> attr_kind \<Rightarrow> bool" where
  "declares p d K \<longleftrightarrow>
     list_ex (\<lambda>opt. opt_dest opt = d \<and> (opt_required opt \<or> kind_reads K (opt_default opt)) \<and>
       kind_gives K (opt_arity opt) (opt_conv opt)) (options p) \<or>
     list_ex (\<lambda>pd. pos_dest pd = d \<and> kind_reads K (pos_default pd) \<and>
       K \<in> (if pos_many pd then {K_texts, K_opt_texts} else {K_text, K_opt_text})) (positionals p)"

lemma those_texts [simp]: "those (map (as_text \<circ> Text) ws) = Some ws"
  by (induction ws) auto

lemma convert_text: "convert R As_text w = Some v \<longleftrightarrow> v = Text w"
  by (auto simp: convert_def)

lemma texts_of: "list_all (\<lambda>u. (\<exists>w. convert R As_text w = Some u) \<and> Q u) vs \<Longrightarrow> \<exists>ws. vs = map Text ws"
  by (induction vs) (auto simp: convert_text, metis list.simps(9))

lemma option_kind:
  assumes "value_ok R opt v" and "kind_gives K (opt_arity opt) (opt_conv opt)"
  shows "kind_reads K v"
proof (cases "K \<in> {K_texts, K_opt_texts}")
  case True
  then have "opt_conv opt = As_text" "opt_arity opt \<in> {Any_number, At_least_one}"
    using assms(2) by (auto simp: kind_gives_def)
  then obtain vs where vs: "v = Several vs" "list_all (\<lambda>u. (\<exists>w. convert R As_text w = Some u) \<and> choice_ok opt u) vs"
    using assms(1) by (auto simp: value_ok_def Let_def)
  then obtain ws where "vs = map Text ws" using texts_of by blast
  with True vs(1) show ?thesis by (auto simp: kind_reads_def)
next
  case False
  then show ?thesis
    using assms by (cases K) (auto simp: value_ok_def kind_gives_def kind_reads_def Let_def convert_def split: if_splits)
qed

lemma positional_kind:
  "positional_ok pd v \<Longrightarrow> kind_reads K (pos_default pd) \<Longrightarrow>
     K \<in> (if pos_many pd then {K_texts, K_opt_texts} else {K_text, K_opt_text}) \<Longrightarrow> kind_reads K v"
  by (auto simp: positional_ok_def kind_reads_def split: if_splits)

lemma declares_reads:
  assumes "namespace_ok R p ns" and "declares p d K"
  shows "\<exists>v. ns d = Some v \<and> kind_reads K v"
proof (cases "\<exists>pd \<in> set (positionals p). pos_dest pd = d \<and> kind_reads K (pos_default pd) \<and>
    K \<in> (if pos_many pd then {K_texts, K_opt_texts} else {K_text, K_opt_text})")
  case False
  then obtain opt where opt: "opt \<in> set (options p)" "opt_dest opt = d" "kind_gives K (opt_arity opt) (opt_conv opt)"
    and r: "opt_required opt \<or> kind_reads K (opt_default opt)"
    using assms(2) unfolding declares_def list_ex_iff by blast
  have "opt_arity opt \<noteq> Show_help" using opt(3) by (auto simp: kind_gives_def split: if_splits)
  then obtain v where "ns d = Some v" "value_ok R opt v \<or> v = opt_default opt \<and> \<not> opt_required opt"
    using assms(1) opt(1,2) unfolding namespace_ok_def by blast
  with r option_kind[OF _ opt(3)] show ?thesis by blast
next
  case True
  then obtain pd where pd: "pd \<in> set (positionals p)" "pos_dest pd = d" "kind_reads K (pos_default pd)"
    "K \<in> (if pos_many pd then {K_texts, K_opt_texts} else {K_text, K_opt_text})" by blast
  then obtain v where "ns d = Some v" "positional_ok pd v"
    using assms(1) unfolding namespace_ok_def by blast
  with positional_kind[OF _ pd(3,4)] show ?thesis by blast
qed

lemma declared_attr:
  assumes "namespace_ok R p ns"
  shows "declares p d K_text \<Longrightarrow> \<exists>x. attr ns d as_text = Some x"
    and "declares p d K_opt_text \<Longrightarrow> \<exists>x. attr ns d as_opt_text = Some x"
    and "declares p d K_switch \<Longrightarrow> \<exists>x. attr ns d as_switch = Some x"
    and "declares p d K_whole \<Longrightarrow> \<exists>x. attr ns d as_whole = Some x"
    and "declares p d K_opt_whole \<Longrightarrow> \<exists>x. attr ns d as_opt_whole = Some x"
    and "declares p d K_number \<Longrightarrow> \<exists>x. attr ns d as_number = Some x"
    and "declares p d K_texts \<Longrightarrow> \<exists>x. attr ns d as_texts = Some x"
    and "declares p d K_opt_texts \<Longrightarrow> \<exists>x. attr ns d as_opt_texts = Some x"
  using declares_reads[OF assms, of d] by (fastforce simp: kind_reads_def attr_def)+

text \<open>A value that is not the default is one of the choices.\<close>

lemma declared_choice:
  assumes "namespace_ok R p ns" and "opt \<in> set (options p)" and "opt_choices opt = Some cs" and "ns (opt_dest opt) = Some v"
  shows "opt_arity opt = One \<Longrightarrow> v = opt_default opt \<or> v \<in> Text ` set cs"
    and "opt_arity opt = Any_number \<Longrightarrow> v = opt_default opt \<or> (\<exists>ws. v = Several (map Text ws) \<and> set ws \<subseteq> set cs)"
proof -
  assume "opt_arity opt = One"
  with assms show "v = opt_default opt \<or> v \<in> Text ` set cs"
    by (fastforce simp: namespace_ok_def value_ok_def choice_ok_def Let_def)
next
  assume a: "opt_arity opt = Any_number"
  have "\<exists>ws. vs = map Text ws \<and> set ws \<subseteq> set cs" if "list_all (\<lambda>u. u \<in> Text ` set cs) vs" for vs
    using that by (induction vs) (auto, metis insert_subset list.set(2) list.simps(9))
  moreover have "v = opt_default opt \<or> (\<exists>vs. v = Several vs \<and> list_all (\<lambda>u. u \<in> Text ` set cs) vs)"
    using assms a by (fastforce simp: namespace_ok_def value_ok_def choice_ok_def Let_def list_all_iff)
  ultimately show "v = opt_default opt \<or> (\<exists>ws. v = Several (map Text ws) \<and> set ws \<subseteq> set cs)" by blast
qed

end
