(* ===== verification/Command_Options.thy ===== *)
theory Command_Options
  imports Command_Line Link_Axes Build_Matrix Tee_Process Ble_Runner Hex_Payload "HOL-Library.Monad_Syntax"
begin

text \<open>
  The option tables of the commands and what their handlers read from the namespace: \<open>main\<close> of
  \<open>scripts/lib/renode/renode_smoke.py\<close> and the \<open>do_add_parser\<close> methods of \<open>scripts/zmk_renode_test.py\<close>,
  \<open>scripts/zmk_build.py\<close>, \<open>scripts/zmk_test.py\<close> and \<open>scripts/zmk_ble_test.py\<close>.  Help texts are left out.
  \<open>ble-studio-host/hex2inc.py\<close>, which has no table, looks at its words itself.
  A record of arguments is read from a namespace by the attributes that the handler looks at; \<open>None\<close>
  stands for an attribute that is absent or has another type.
\<close>

section \<open>\<open>renode_smoke.py\<close>\<close>

definition RENODE_VERSION_DEFAULT :: string where "RENODE_VERSION_DEFAULT = ''1.16.1''"

definition path_option :: "string \<Rightarrow> string \<Rightarrow> option_decl" where
  "path_option flag dest = (plain_option [flag] dest)\<lparr>opt_conv := As_path\<rparr>"

definition number_option :: "string \<Rightarrow> string \<Rightarrow> rat \<Rightarrow> option_decl" where
  "number_option flag dest x = (plain_option [flag] dest)\<lparr>opt_conv := As_float, opt_default := Real_number x\<rparr>"

definition choice_option :: "string \<Rightarrow> string \<Rightarrow> string list \<Rightarrow> option_decl" where
  "choice_option flag dest cs = (plain_option [flag] dest)\<lparr>opt_choices := Some cs\<rparr>"

definition smoke_options :: "option_decl list" where
  "smoke_options =
     [help_option,
      (path_option ''--elf'' ''elf'')\<lparr>opt_required := True\<rparr>,
      choice_option ''--mode'' ''mode'' (map fst MODE_PRESETS),
      choice_option ''--host-link'' ''host_link'' HOST_LINKS,
      choice_option ''--split-link'' ''split_link'' SPLIT_LINKS,
      path_option ''--host-elf'' ''host_elf'',
      path_option ''--peripheral-elf'' ''peripheral_elf'',
      path_option ''--studio-proto-dir'' ''studio_proto_dir'',
      path_option ''--west-topdir'' ''west_topdir'',
      (plain_option [''--renode-version''] ''renode_version'')\<lparr>opt_default := Text RENODE_VERSION_DEFAULT\<rparr>,
      number_option ''--boot-timeout'' ''boot_timeout'' 15,
      number_option ''--rpc-timeout'' ''rpc_timeout'' 10,
      number_option ''--min-virtual'' ''min_virtual'' 20,
      switch_option [''--rtt''] ''rtt'',
      number_option ''--virtual-budget'' ''virtual_budget'' 20,
      plain_option [''--steady-quantum''] ''steady_quantum'',
      (plain_option [''--storage-addr''] ''storage_addr'')\<lparr>opt_conv := As_int_any,
        opt_default := Whole STORAGE_ADDR_DEFAULT\<rparr>,
      (plain_option [''--storage-size''] ''storage_size'')\<lparr>opt_conv := As_int_any,
        opt_default := Whole STORAGE_SIZE_DEFAULT\<rparr>]"

definition smoke_parser :: cmd_parser where
  "smoke_parser = \<lparr>options = smoke_options, positionals = []\<rparr>"

section \<open>\<open>west zmk-renode-test\<close>\<close>

definition test_options :: "option_decl list" where
  "test_options =
     [help_option,
      (plain_option [''--elf''] ''elf'')\<lparr>opt_required := True\<rparr>,
      choice_option ''--mode'' ''mode'' [''usb'', ''ble'', ''wired-split'', ''ble-split''],
      choice_option ''--host-link'' ''host_link'' [''usb'', ''ble'', ''none''],
      choice_option ''--split-link'' ''split_link'' [''none'', ''wired'', ''ble''],
      plain_option [''--peripheral-elf''] ''peripheral_elf'',
      plain_option [''--host-elf''] ''host_elf'',
      number_option ''--boot-timeout'' ''boot_timeout'' 20,
      switch_option [''--skip-smoke''] ''skip_smoke'',
      switch_option [''--rtt''] ''rtt'',
      number_option ''--min-virtual'' ''min_virtual'' 20,
      number_option ''--virtual-budget'' ''virtual_budget'' 20,
      plain_option [''--steady-quantum''] ''steady_quantum'',
      (plain_option [''--storage-addr''] ''storage_addr'')\<lparr>opt_conv := As_int_any\<rparr>,
      (plain_option [''--storage-size''] ''storage_size'')\<lparr>opt_conv := As_int_any\<rparr>,
      (plain_option [''--renode-version''] ''renode_version'')\<lparr>opt_default := Text ''1.16.1''\<rparr>]"

definition maybe_positional :: "string \<Rightarrow> positional_decl" where
  "maybe_positional dest = \<lparr>pos_dest = dest, pos_many = False, pos_default = No_value\<rparr>"

definition test_parser :: cmd_parser where
  "test_parser = \<lparr>options = test_options, positionals = [maybe_positional ''tests_dir'']\<rparr>"

section \<open>\<open>west zmk-build\<close>\<close>

definition many_option :: "string list \<Rightarrow> string \<Rightarrow> arity \<Rightarrow> arg_value \<Rightarrow> option_decl" where
  "many_option flags dest a d = (plain_option flags dest)\<lparr>opt_arity := a, opt_default := d\<rparr>"

definition build_selection :: "option_decl list" where
  "build_selection =
     [help_option,
      plain_option [''-d'', ''--build-dir''] ''build_dir'',
      many_option [''-m'', ''--extra-modules''] ''extra_modules'' Any_number (Several []),
      (many_option [''--extra-module-auto-discovery''] ''extra_module_auto_discovery'' Any_number
         (Several [Text ''zmk-config'', Text ''current'', Text ''walk-up'']))
        \<lparr>opt_choices := Some [''zmk-config'', ''current'', ''walk-up'', ''none'']\<rparr>,
      plain_option [''--build-yaml''] ''build_yaml'',
      many_option [''-b'', ''--board''] ''board'' At_least_one No_value,
      many_option [''-s'', ''--shield''] ''shield'' At_least_one No_value,
      many_option [''-S'', ''--snippet''] ''snippet'' At_least_one (Several []),
      plain_option [''-a'', ''--artifact''] ''artifact'',
      (plain_option [''-af'', ''--artifact-filter''] ''artifact_filter'')\<lparr>opt_conv := As_pattern\<rparr>,
      plain_option [''-as'', ''--artifact-suffix''] ''artifact_suffix'',
      plain_option [''--cmake-args''] ''cmake_args'']"

definition build_behaviour :: "arg_value \<Rightarrow> option_decl list" where
  "build_behaviour cpu_count =
     [switch_option [''-q'', ''--quiet''] ''quiet'',
      switch_option [''-n'', ''--no-run''] ''no_run'',
      switch_option [''-i'', ''--interactive''] ''interactive'',
      (plain_option [''-P'', ''--parallelism''] ''parallelism'')\<lparr>opt_conv := As_int, opt_default := cpu_count\<rparr>,
      (plain_option [''-p'', ''--pristine''] ''pristine'')
        \<lparr>opt_choices := Some [''auto'', ''always'', ''never''], opt_default := Text ''always''\<rparr>,
      switch_option [''--debug-jlink''] ''debug_jlink'',
      switch_option [''--reset''] ''reset'',
      switch_option [''--debug-print''] ''debug_print'',
      switch_option [''-sb'', ''--skip-build''] ''skip_build'',
      many_option [''--flash''] ''flash'' Any_number No_value,
      switch_option [''--vscode''] ''vscode'']"

definition build_positionals :: "string \<Rightarrow> positional_decl list" where
  "build_positionals here =
     [\<lparr>pos_dest = ''config_path'', pos_many = False, pos_default = Text (path_join here ''config'')\<rparr>,
      \<lparr>pos_dest = ''west_args'', pos_many = True, pos_default = Several []\<rparr>]"

definition build_parser :: "string \<Rightarrow> arg_value \<Rightarrow> cmd_parser" where
  "build_parser here cpu_count =
     \<lparr>options = build_selection @ build_behaviour cpu_count, positionals = build_positionals here\<rparr>"

section \<open>\<open>west zmk-test\<close> and \<open>west zmk-ble-test\<close>\<close>

definition unit_test_parser :: cmd_parser where
  "unit_test_parser =
     \<lparr>options =
        [help_option,
         plain_option [''-d'', ''--build-dir''] ''build_dir'',
         many_option [''-m'', ''--extra-modules''] ''extra_modules'' Any_number (Several []),
         switch_option [''-v'', ''--verbose''] ''verbose''],
      positionals = [maybe_positional ''test_path'']\<rparr>"

definition ble_test_parser :: cmd_parser where
  "ble_test_parser =
     \<lparr>options =
        [help_option,
         plain_option [''-m'', ''--module''] ''module'',
         switch_option [''--auto-accept''] ''auto_accept'',
         plain_option [''--sim-prefix''] ''sim_prefix'',
         plain_option [''--bsim''] ''bsim'',
         (plain_option [''-j'', ''--parallel''] ''parallel'')\<lparr>opt_conv := As_int, opt_default := Whole 1\<rparr>,
         switch_option [''-v'', ''--verbose''] ''verbose''],
      positionals = [maybe_positional ''tests_path'']\<rparr>"

lemmas table_defs = help_option_def plain_option_def switch_option_def path_option_def number_option_def
  choice_option_def many_option_def maybe_positional_def

section \<open>The arguments of the handlers\<close>

definition common_of :: "namespace \<Rightarrow> common_args option" where
  "common_of ns = do {
     e \<leftarrow> attr ns ''elf'' as_text; m \<leftarrow> attr ns ''mode'' as_opt_text;
     hl \<leftarrow> attr ns ''host_link'' as_opt_text; sl \<leftarrow> attr ns ''split_link'' as_opt_text;
     he \<leftarrow> attr ns ''host_elf'' as_opt_text; pe \<leftarrow> attr ns ''peripheral_elf'' as_opt_text;
     bt \<leftarrow> attr ns ''boot_timeout'' as_number; mv \<leftarrow> attr ns ''min_virtual'' as_number;
     vb \<leftarrow> attr ns ''virtual_budget'' as_number; sq \<leftarrow> attr ns ''steady_quantum'' as_opt_text;
     r \<leftarrow> attr ns ''rtt'' as_switch; v \<leftarrow> attr ns ''renode_version'' as_text;
     Some \<lparr>elf = e, mode = m, host_link = hl, split_link = sl, host_elf = he, peripheral_elf = pe,
       boot_timeout = bt, min_virtual = mv, virtual_budget = vb, steady_quantum = sq, rtt = r,
       renode_version = v\<rparr> }"

definition smoke_args_of :: "namespace \<Rightarrow> smoke_args option" where
  "smoke_args_of ns = do {
     c \<leftarrow> common_of ns;
     pd \<leftarrow> attr ns ''studio_proto_dir'' as_opt_text; wt \<leftarrow> attr ns ''west_topdir'' as_opt_text;
     rt \<leftarrow> attr ns ''rpc_timeout'' as_number;
     sa \<leftarrow> attr ns ''storage_addr'' as_whole; sz \<leftarrow> attr ns ''storage_size'' as_whole;
     Some (common_args.extend c (smoke_args.fields pd wt rt sa sz)) }"

definition test_args_of :: "namespace \<Rightarrow> test_args option" where
  "test_args_of ns = do {
     c \<leftarrow> common_of ns;
     td \<leftarrow> attr ns ''tests_dir'' as_opt_text; sk \<leftarrow> attr ns ''skip_smoke'' as_switch;
     sa \<leftarrow> attr ns ''storage_addr'' as_opt_whole; sz \<leftarrow> attr ns ''storage_size'' as_opt_whole;
     Some (common_args.extend c (test_args.fields td sk sa sz)) }"

text \<open>\<open>search\<close> is what searching a compiled pattern in a text answers.\<close>

definition build_args_of :: "(string \<Rightarrow> string \<Rightarrow> bool) \<Rightarrow> namespace \<Rightarrow> build_args option" where
  "build_args_of search ns = do {
     cp \<leftarrow> attr ns ''config_path'' as_text; b \<leftarrow> attr ns ''board'' as_opt_texts; s \<leftarrow> attr ns ''shield'' as_opt_texts;
     art \<leftarrow> attr ns ''artifact'' as_opt_text; af \<leftarrow> attr ns ''artifact_filter'' as_opt_text;
     asf \<leftarrow> attr ns ''artifact_suffix'' as_opt_text; fl \<leftarrow> attr ns ''flash'' as_opt_texts;
     nr \<leftarrow> attr ns ''no_run'' as_switch; ia \<leftarrow> attr ns ''interactive'' as_switch; rs \<leftarrow> attr ns ''reset'' as_switch;
     dj \<leftarrow> attr ns ''debug_jlink'' as_switch; dp \<leftarrow> attr ns ''debug_print'' as_switch;
     sb \<leftarrow> attr ns ''skip_build'' as_switch; pr \<leftarrow> attr ns ''pristine'' as_text; wa \<leftarrow> attr ns ''west_args'' as_texts;
     sn \<leftarrow> attr ns ''snippet'' as_texts; ca \<leftarrow> attr ns ''cmake_args'' as_opt_text;
     em \<leftarrow> attr ns ''extra_modules'' as_texts; ad \<leftarrow> attr ns ''extra_module_auto_discovery'' as_texts;
     bd \<leftarrow> attr ns ''build_dir'' as_opt_text; vs \<leftarrow> attr ns ''vscode'' as_switch;
     Some \<lparr>config_path = cp, boards = (case b of None \<Rightarrow> [] | Some xs \<Rightarrow> xs), shields = (case s of None \<Rightarrow> [] | Some xs \<Rightarrow> xs),
       artifact = art, artifact_search = map_option search af, artifact_suffix = asf, flash = fl, no_run = nr,
       interactive = ia, reset = rs, debug_jlink = dj, debug_print = dp, skip_build = sb, pristine = pr, west_args = wa,
       snippet = sn, cmake_args = ca, extra_modules = em, auto_discovery = ad, build_dir = bd, vscode = vs\<rparr> }"

definition unit_test_args_of :: "namespace \<Rightarrow> zt_args option" where
  "unit_test_args_of ns = do {
     t \<leftarrow> attr ns ''test_path'' as_opt_text; d \<leftarrow> attr ns ''build_dir'' as_opt_text;
     m \<leftarrow> attr ns ''extra_modules'' as_texts; v \<leftarrow> attr ns ''verbose'' as_switch;
     Some \<lparr>zt_test_path = t, zt_build_dir = d, zt_modules = m, zt_verbose = v\<rparr> }"

definition ble_args_of :: "namespace \<Rightarrow> ble_args option" where
  "ble_args_of ns = do {
     t \<leftarrow> attr ns ''tests_path'' as_opt_text; m \<leftarrow> attr ns ''module'' as_opt_text; b \<leftarrow> attr ns ''bsim'' as_opt_text;
     p \<leftarrow> attr ns ''sim_prefix'' as_opt_text; a \<leftarrow> attr ns ''auto_accept'' as_switch;
     Some \<lparr>tests_arg = t, module_arg = m, bsim_arg = b, prefix_arg = p, accept_arg = a\<rparr> }"

text \<open>\<open>hex2inc.py\<close>: the exit code and the file written, if any.\<close>

definition hex2inc_process :: "(string \<Rightarrow> string result) \<Rightarrow> string list \<Rightarrow> (int \<times> (string \<times> string) option) result" where
  "hex2inc_process read argv =
     (if length argv \<noteq> 3 then Inr (2, None)
      else
        let src = py_path (argv ! 1); dst = py_path (argv ! 2) in
        bind_result (read src) (\<lambda>content.
        bind_result (hex2inc_main src (path_name src) content) (\<lambda>c_file. Inr (0, Some (dst, c_file)))))"

lemma hex2inc_process_writes:
  "hex2inc_process read argv = Inr (0, Some (dst, c_file)) \<longleftrightarrow>
     (\<exists>prog src d content. argv = [prog, src, d] \<and> dst = py_path d \<and> read (py_path src) = Inr content \<and>
       hex2inc_main (py_path src) (path_name (py_path src)) content = Inr c_file)"
proof (cases "length argv = 3")
  case True
  then obtain prog src d where "argv = [prog, src, d]" by (auto simp: length_Suc_conv numeral_3_eq_3)
  then show ?thesis by (auto simp: hex2inc_process_def Let_def bind_result_Inr_iff)
qed (auto simp: hex2inc_process_def)

section \<open>The tables are well formed\<close>

lemmas parser_defs = smoke_parser_def smoke_options_def test_parser_def test_options_def build_parser_def
  build_selection_def build_behaviour_def build_positionals_def unit_test_parser_def ble_test_parser_def

lemma wf_tables:
  "wf_parser smoke_parser" "wf_parser test_parser" "wf_parser (build_parser here cpu_count)"
  "wf_parser unit_test_parser" "wf_parser ble_test_parser"
  by (simp_all add: wf_parser_def parser_defs table_defs)

lemma plain_tables: "plain_flags smoke_parser" "plain_flags test_parser"
  by (simp_all add: plain_flags_def flag_table_def parser_defs table_defs)

definition common_kinds :: "(string \<times> attr_kind) list" where
  "common_kinds =
     [(''elf'', K_text), (''mode'', K_opt_text), (''host_link'', K_opt_text), (''split_link'', K_opt_text),
      (''host_elf'', K_opt_text), (''peripheral_elf'', K_opt_text), (''boot_timeout'', K_number),
      (''min_virtual'', K_number), (''virtual_budget'', K_number), (''steady_quantum'', K_opt_text),
      (''rtt'', K_switch), (''renode_version'', K_text)]"

lemma smoke_kinds:
  "list_all (\<lambda>(d, K). declares smoke_parser d K) (common_kinds @
     [(''studio_proto_dir'', K_opt_text), (''west_topdir'', K_opt_text), (''rpc_timeout'', K_number),
      (''storage_addr'', K_whole), (''storage_size'', K_whole)])"
  by (simp add: declares_def common_kinds_def parser_defs table_defs kind_reads_def kind_gives_def)

lemma test_kinds:
  "list_all (\<lambda>(d, K). declares test_parser d K) (common_kinds @
     [(''tests_dir'', K_opt_text), (''skip_smoke'', K_switch), (''storage_addr'', K_opt_whole),
      (''storage_size'', K_opt_whole)])"
  by (simp add: declares_def common_kinds_def parser_defs table_defs kind_reads_def kind_gives_def)

lemma build_kinds:
  "list_all (\<lambda>(d, K). declares (build_parser here cpu_count) d K)
     [(''config_path'', K_text), (''board'', K_opt_texts), (''shield'', K_opt_texts), (''artifact'', K_opt_text),
      (''artifact_filter'', K_opt_text), (''artifact_suffix'', K_opt_text), (''flash'', K_opt_texts), (''no_run'', K_switch),
      (''interactive'', K_switch), (''reset'', K_switch), (''debug_jlink'', K_switch), (''debug_print'', K_switch),
      (''skip_build'', K_switch), (''pristine'', K_text), (''west_args'', K_texts), (''snippet'', K_texts),
      (''cmake_args'', K_opt_text), (''extra_modules'', K_texts), (''extra_module_auto_discovery'', K_texts),
      (''build_dir'', K_opt_text), (''vscode'', K_switch)]"
  by (simp add: declares_def parser_defs table_defs kind_reads_def kind_gives_def)

lemma unit_test_kinds:
  "list_all (\<lambda>(d, K). declares unit_test_parser d K)
     [(''test_path'', K_opt_text), (''build_dir'', K_opt_text), (''extra_modules'', K_texts), (''verbose'', K_switch)]"
  by (simp add: declares_def parser_defs table_defs kind_reads_def kind_gives_def)

lemma ble_test_kinds:
  "list_all (\<lambda>(d, K). declares ble_test_parser d K)
     [(''tests_path'', K_opt_text), (''module'', K_opt_text), (''bsim'', K_opt_text), (''sim_prefix'', K_opt_text),
      (''auto_accept'', K_switch)]"
  by (simp add: declares_def parser_defs table_defs kind_reads_def kind_gives_def)

lemma common_read:
  assumes "namespace_ok R p ns" and "list_all (\<lambda>(d, K). declares p d K) common_kinds"
  obtains c where "common_of ns = Some c"
proof -
  note a = declared_attr[OF assms(1)]
  have "\<exists>c. common_of ns = Some c"
    using assms(2) a(1)[of "''elf''"] a(1)[of "''renode_version''"] a(2)[of "''mode''"] a(2)[of "''host_link''"]
      a(2)[of "''split_link''"] a(2)[of "''host_elf''"] a(2)[of "''peripheral_elf''"] a(2)[of "''steady_quantum''"]
      a(3)[of "''rtt''"] a(6)[of "''boot_timeout''"] a(6)[of "''min_virtual''"] a(6)[of "''virtual_budget''"]
    by (auto simp: common_of_def common_kinds_def)
  with that show ?thesis by blast
qed

text \<open>The words that the tables let through for the axes are those that \<open>resolve_links\<close> knows.\<close>

definition axes_known :: "'a common_args_scheme \<Rightarrow> bool" where
  "axes_known a \<longleftrightarrow>
     (\<forall>e. resolve_links (mode a) (host_link a) (split_link a) = Inl e \<longrightarrow>
       e = Both_vocabularies \<or> (\<exists>h s. e = Unsupported_combination h s))"

lemma resolve_known:
  assumes "\<forall>w. m = Some w \<longrightarrow> w \<in> set (map fst MODE_PRESETS)" and "\<forall>w. h = Some w \<longrightarrow> w \<in> set HOST_LINKS"
    and "\<forall>w. s = Some w \<longrightarrow> w \<in> set SPLIT_LINKS" and "resolve_links m h s = Inl e"
  shows "e = Both_vocabularies \<or> (\<exists>h s. e = Unsupported_combination h s)"
proof -
  have "map_of MODE_PRESETS w \<noteq> None" if "m = Some w" for w
    using assms(1) that by (auto simp: map_of_eq_None_iff)
  moreover have "or_none h \<in> set HOST_LINKS" "or_none s \<in> set SPLIT_LINKS"
    using assms(2,3) by (auto simp: or_none_def HOST_LINKS_def SPLIT_LINKS_def split: option.splits)
  ultimately show ?thesis
    using assms(4) by (auto simp: resolve_links_def Let_def split: option.splits if_splits)
qed

lemma choice_read:
  assumes "namespace_ok R p ns" and "choice_option flag d cs \<in> set (options p)" and "attr ns d as_opt_text = Some x"
  shows "\<forall>w. x = Some w \<longrightarrow> w \<in> set cs"
proof -
  obtain v where v: "ns d = Some v" "as_opt_text v = Some x" using assms(3) by (auto simp: attr_def bind_eq_Some_conv)
  have "v = No_value \<or> v \<in> Text ` set cs"
    using declared_choice(1)[OF assms(1,2), of cs v] v(1) by (simp add: choice_option_def plain_option_def)
  with v(2) show ?thesis by auto
qed

lemma axes_known_of:
  assumes "namespace_ok R p ns" and "common_of ns = Some c"
    and "choice_option ''--mode'' ''mode'' ms \<in> set (options p)" and "set ms = set (map fst MODE_PRESETS)"
    and "choice_option ''--host-link'' ''host_link'' HOST_LINKS \<in> set (options p)"
    and "choice_option ''--split-link'' ''split_link'' SPLIT_LINKS \<in> set (options p)"
  shows "axes_known c"
proof -
  have "attr ns ''mode'' as_opt_text = Some (mode c)" "attr ns ''host_link'' as_opt_text = Some (host_link c)"
    "attr ns ''split_link'' as_opt_text = Some (split_link c)"
    using assms(2) by (auto simp: common_of_def bind_eq_Some_conv)
  from this[THEN choice_read[OF assms(1), rotated]] assms(3-) show ?thesis
    unfolding axes_known_def by (metis resolve_known)
qed

lemma smoke_attributes:
  assumes "parse_args R smoke_parser argv = Inr ns"
  shows "\<exists>a. smoke_args_of ns = Some a \<and> axes_known a"
proof -
  note ok = parse_args_typed[OF wf_tables(1) assms]
  obtain c where c: "common_of ns = Some c"
    by (rule common_read[OF ok]) (use smoke_kinds in simp)
  note a = declared_attr[OF ok]
  have "\<exists>a. smoke_args_of ns = Some a \<and> common_args.truncate a = c"
    using smoke_kinds c a(2)[of "''studio_proto_dir''"] a(2)[of "''west_topdir''"] a(6)[of "''rpc_timeout''"]
      a(4)[of "''storage_addr''"] a(4)[of "''storage_size''"]
    by (auto simp: smoke_args_of_def common_args.defs smoke_args.defs)
  moreover have "axes_known c"
    by (rule axes_known_of[OF ok c, of "map fst MODE_PRESETS"]) (simp_all add: parser_defs)
  ultimately show ?thesis by (auto simp: axes_known_def common_args.defs)
qed

lemma test_attributes:
  assumes "parse_args R test_parser argv = Inr ns"
  shows "\<exists>a. test_args_of ns = Some a \<and> axes_known a"
proof -
  note ok = parse_args_typed[OF wf_tables(2) assms]
  obtain c where c: "common_of ns = Some c"
    by (rule common_read[OF ok]) (use test_kinds in simp)
  note a = declared_attr[OF ok]
  have "\<exists>a. test_args_of ns = Some a \<and> common_args.truncate a = c"
    using test_kinds c a(2)[of "''tests_dir''"] a(3)[of "''skip_smoke''"]
      a(5)[of "''storage_addr''"] a(5)[of "''storage_size''"]
    by (auto simp: test_args_of_def common_args.defs test_args.defs)
  moreover have "axes_known c"
    by (rule axes_known_of[OF ok c, of "[''usb'', ''ble'', ''wired-split'', ''ble-split'']"])
      (auto simp: parser_defs MODE_PRESETS_def HOST_LINKS_def SPLIT_LINKS_def)
  ultimately show ?thesis by (auto simp: axes_known_def common_args.defs)
qed

lemma build_attributes:
  assumes "parse_args R (build_parser here cpu_count) argv = Inr ns"
  shows "\<exists>a. build_args_of search ns = Some a \<and> pristine a \<in> {''auto'', ''always'', ''never''} \<and>
    set (auto_discovery a) \<subseteq> {''zmk-config'', ''current'', ''walk-up'', ''none''}"
proof -
  note ok = parse_args_typed[OF wf_tables(3) assms]
  note a = declared_attr[OF ok] and k = build_kinds[of here cpu_count]
  have "\<exists>a. build_args_of search ns = Some a \<and> attr ns ''pristine'' as_text = Some (pristine a) \<and>
      attr ns ''extra_module_auto_discovery'' as_texts = Some (auto_discovery a)"
    using k a(1)[of "''config_path''"] a(1)[of "''pristine''"] a(2)[of "''artifact''"] a(2)[of "''artifact_filter''"]
      a(2)[of "''artifact_suffix''"] a(2)[of "''cmake_args''"] a(2)[of "''build_dir''"] a(3)[of "''no_run''"]
      a(3)[of "''interactive''"] a(3)[of "''reset''"] a(3)[of "''debug_jlink''"] a(3)[of "''debug_print''"]
      a(3)[of "''skip_build''"] a(3)[of "''vscode''"] a(7)[of "''west_args''"] a(7)[of "''snippet''"]
      a(7)[of "''extra_modules''"] a(7)[of "''extra_module_auto_discovery''"] a(8)[of "''board''"]
      a(8)[of "''shield''"] a(8)[of "''flash''"]
    by (auto simp: build_args_of_def)
  then obtain b where b: "build_args_of search ns = Some b" "attr ns ''pristine'' as_text = Some (pristine b)"
    "attr ns ''extra_module_auto_discovery'' as_texts = Some (auto_discovery b)" by blast
  let ?p = "(plain_option [''-p'', ''--pristine''] ''pristine'')
        \<lparr>opt_choices := Some [''auto'', ''always'', ''never''], opt_default := Text ''always''\<rparr>"
  let ?d = "(many_option [''--extra-module-auto-discovery''] ''extra_module_auto_discovery'' Any_number
         (Several [Text ''zmk-config'', Text ''current'', Text ''walk-up'']))
        \<lparr>opt_choices := Some [''zmk-config'', ''current'', ''walk-up'', ''none'']\<rparr>"
  have "?p \<in> set (options (build_parser here cpu_count))" "?d \<in> set (options (build_parser here cpu_count))"
    by (simp_all add: build_parser_def build_selection_def build_behaviour_def)
  note m = this
  obtain v where v: "ns ''pristine'' = Some v" "as_text v = Some (pristine b)"
    using b(2) by (auto simp: attr_def bind_eq_Some_conv)
  obtain u where u: "ns ''extra_module_auto_discovery'' = Some u" "as_texts u = Some (auto_discovery b)"
    using b(3) by (auto simp: attr_def bind_eq_Some_conv)
  have "v = Text ''always'' \<or> v \<in> Text ` {''auto'', ''always'', ''never''}"
    using declared_choice(1)[OF ok m(1), of _ v] v(1) by (simp add: plain_option_def)
  then have p: "pristine b \<in> {''auto'', ''always'', ''never''}" using v(2) by auto
  let ?strategies = "{''zmk-config'', ''current'', ''walk-up'', ''none''}"
  have "u = Several (map Text [''zmk-config'', ''current'', ''walk-up'']) \<or>
    (\<exists>ws. u = Several (map Text ws) \<and> set ws \<subseteq> ?strategies)"
    using declared_choice(2)[OF ok m(2), of _ u] u(1) by (simp add: many_option_def plain_option_def)
  moreover have "set [''zmk-config'', ''current'', ''walk-up''] \<subseteq> ?strategies" by simp
  ultimately obtain ws where "u = Several (map Text ws)" "set ws \<subseteq> ?strategies" by blast
  then have "set (auto_discovery b) \<subseteq> ?strategies" using u(2) by simp
  with b(1) p show ?thesis by blast
qed

lemma unit_test_attributes:
  assumes "parse_args R unit_test_parser argv = Inr ns"
  shows "\<exists>a. unit_test_args_of ns = Some a"
proof -
  note a = declared_attr[OF parse_args_typed[OF wf_tables(4) assms]]
  show ?thesis
    using unit_test_kinds a(2)[of "''test_path''"] a(2)[of "''build_dir''"] a(7)[of "''extra_modules''"] a(3)[of "''verbose''"]
    by (auto simp: unit_test_args_of_def)
qed

lemma ble_test_attributes:
  assumes "parse_args R ble_test_parser argv = Inr ns"
  shows "\<exists>a. ble_args_of ns = Some a"
proof -
  note a = declared_attr[OF parse_args_typed[OF wf_tables(5) assms]]
  show ?thesis
    using ble_test_kinds a(2)[of "''tests_path''"] a(2)[of "''module''"] a(2)[of "''bsim''"] a(2)[of "''sim_prefix''"]
      a(3)[of "''auto_accept''"]
    by (auto simp: ble_args_of_def)
qed

section \<open>Requests as command lines\<close>

text \<open>
  The settings that both front ends of the Renode tests know, for given common arguments, and those that
  only one of them has.  \<open>show_num\<close> writes a number as a text.
\<close>

definition text_setting :: "string \<Rightarrow> string option \<Rightarrow> setting list" where
  "text_setting f v = (case v of None \<Rightarrow> [] | Some w \<Rightarrow> [(f, Some w)])"

definition switch_setting :: "string \<Rightarrow> bool \<Rightarrow> setting list" where
  "switch_setting f b = (if b then [(f, None)] else [])"

definition common_settings :: "(rat \<Rightarrow> string) \<Rightarrow> 'a common_args_scheme \<Rightarrow> setting list" where
  "common_settings show_num c =
     text_setting ''--elf'' (Some (elf c)) @ text_setting ''--mode'' (mode c) @
     text_setting ''--host-link'' (host_link c) @ text_setting ''--split-link'' (split_link c) @
     text_setting ''--host-elf'' (host_elf c) @ text_setting ''--peripheral-elf'' (peripheral_elf c) @
     text_setting ''--boot-timeout'' (Some (show_num (boot_timeout c))) @
     text_setting ''--min-virtual'' (Some (show_num (min_virtual c))) @
     text_setting ''--virtual-budget'' (Some (show_num (virtual_budget c))) @
     text_setting ''--steady-quantum'' (steady_quantum c) @ switch_setting ''--rtt'' (rtt c) @
     text_setting ''--renode-version'' (Some (renode_version c))"

definition smoke_settings :: "(rat \<Rightarrow> string) \<Rightarrow> smoke_args \<Rightarrow> setting list" where
  "smoke_settings show_num a =
     common_settings show_num a @ text_setting ''--studio-proto-dir'' (studio_proto_dir a) @
     text_setting ''--west-topdir'' (west_topdir a) @ text_setting ''--rpc-timeout'' (Some (show_num (rpc_timeout a))) @
     text_setting ''--storage-addr'' (Some (py_hex (storage_addr a))) @
     text_setting ''--storage-size'' (Some (py_hex (storage_size a)))"

definition test_settings :: "(rat \<Rightarrow> string) \<Rightarrow> test_args \<Rightarrow> setting list" where
  "test_settings show_num t =
     common_settings show_num t @ switch_setting ''--skip-smoke'' (skip_smoke t) @
     text_setting ''--storage-addr'' (map_option py_hex (storage_addr_given t)) @
     text_setting ''--storage-size'' (map_option py_hex (storage_size_given t))"

text \<open>What a command line can express: known axes, normalised paths, numbers that read back.\<close>

definition expressible :: "readers \<Rightarrow> (rat \<Rightarrow> string) \<Rightarrow> 'a common_args_scheme \<Rightarrow> bool" where
  "expressible R show_num c \<longleftrightarrow>
     (\<forall>w. mode c = Some w \<longrightarrow> w \<in> set (map fst MODE_PRESETS)) \<and> (\<forall>w. host_link c = Some w \<longrightarrow> w \<in> set HOST_LINKS) \<and>
     (\<forall>w. split_link c = Some w \<longrightarrow> w \<in> set SPLIT_LINKS) \<and>
     py_path (elf c) = elf c \<and> (\<forall>w. host_elf c = Some w \<longrightarrow> py_path w = w) \<and>
     (\<forall>w. peripheral_elf c = Some w \<longrightarrow> py_path w = w) \<and>
     (\<forall>x \<in> {boot_timeout c, min_virtual c, virtual_budget c}. float_of R (show_num x) = Some x)"

text \<open>\<open>int(s, 0)\<close> reads what \<open>hex\<close> writes.\<close>

lemma digits_from_append:
  "CHR ''_'' \<notin> set xs \<Longrightarrow> digits_from b (xs @ ys) n = (case digits_from b xs n of None \<Rightarrow> None | Some m \<Rightarrow> digits_from b ys m)"
  by (induction xs arbitrary: n) (auto split: option.splits)

lemma hex_lower_chars: "n < 16 \<Longrightarrow> hex_lower ! n \<noteq> CHR ''_'' \<and> \<not> py_space (hex_lower ! n)"
  by (drule less_16_cases) (auto simp: hex_lower_def py_space_def)

lemma hex_text_chars: "c \<in> set (hex_of_nat n) \<Longrightarrow> c \<noteq> CHR ''_'' \<and> \<not> py_space c"
proof (induction n rule: hex_of_nat.induct)
  case (1 n)
  then show ?case
    using hex_lower_chars[of n] hex_lower_chars[of "n mod 16"]
    by (cases "n < 16") (auto simp: hex_of_nat.simps[of n])
qed

lemma digits_from_hex: "digits_from 16 (hex_of_nat n) 0 = Some n"
proof (induction n rule: hex_of_nat.induct)
  case (1 n)
  show ?case
  proof (cases "n < 16")
    case True
    then show ?thesis using hex_lower_chars[of n] by (simp add: hex_of_nat.simps[of n])
  next
    case False
    have "CHR ''_'' \<notin> set (hex_of_nat (n div 16))" using hex_text_chars by blast
    with False 1 hex_lower_chars[of "n mod 16"] show ?thesis
      by (simp add: hex_of_nat.simps[of n] digits_from_append)
  qed
qed

lemma hex_of_nat_nonempty [simp]: "hex_of_nat n \<noteq> []"
  by (subst hex_of_nat.simps) simp

lemma literal_hex: "literal_digits (CHR ''0'' # CHR ''x'' # hex_of_nat n) = Some n"
proof -
  have "hd (hex_of_nat n) \<noteq> CHR ''_''" using hex_text_chars[of "hd (hex_of_nat n)" n] by simp
  then show ?thesis by (simp add: literal_digits_def base_of_prefix_def py_digits_def digits_from_hex)
qed

lemma py_int_any_hex [simp]: "py_int_any (py_hex i) = Some i"
proof -
  have "\<not> py_space (last (hex_of_nat n))" for n
    using hex_text_chars[of "last (hex_of_nat n)" n] by simp
  then have "py_strip (py_hex i) = py_hex i"
    by (intro py_strip_id) (simp_all add: py_hex_def py_space_def)
  then show ?thesis by (simp add: py_int_any_def signed_def py_hex_def literal_hex)
qed

lemma one_word:
  "opt_arity opt = One \<Longrightarrow> convert R (opt_conv opt) w = Some v \<Longrightarrow> choice_ok opt v \<Longrightarrow> option_value R opt [w] = Inr v"
  by (simp add: option_value_def convert_words_def convert_word_def check_choice_def)

text \<open>A setting that reads as the value \<open>v\<close> of attribute \<open>d\<close>.\<close>

definition reads_as :: "readers \<Rightarrow> cmd_parser \<Rightarrow> setting \<Rightarrow> string \<Rightarrow> arg_value \<Rightarrow> bool" where
  "reads_as R p s d v \<longleftrightarrow> setting_ok p s \<and> converts R p s \<and> setting_value R p s = (d, v)"

lemma reads_as_word:
  "(case flag_option p f of None \<Rightarrow> False
    | Some opt \<Rightarrow> prefix ''--'' f \<and> f \<noteq> ''--'' \<and> opt_dest opt = d \<and> opt_arity opt = One \<and>
        convert R (opt_conv opt) w = Some v \<and> choice_ok opt v) \<Longrightarrow> reads_as R p (f, Some w) d v"
  by (auto simp: reads_as_def setting_ok_def converts_def setting_value_def chosen_def one_word split: option.splits)

lemma reads_as_switch:
  "(case flag_option p f of None \<Rightarrow> False
    | Some opt \<Rightarrow> prefix ''--'' f \<and> f \<noteq> ''--'' \<and> opt_dest opt = d \<and> opt_arity opt = Store_true) \<Longrightarrow>
     reads_as R p (f, None) d (Switch True)"
  by (auto simp: reads_as_def setting_ok_def converts_def setting_value_def chosen_def option_value_def split: option.splits)

text \<open>Settings as the list of attributes they set.\<close>

definition sets :: "readers \<Rightarrow> cmd_parser \<Rightarrow> setting list \<Rightarrow> (string \<times> arg_value) list \<Rightarrow> bool" where
  "sets R p ss al \<longleftrightarrow> list_all2 (\<lambda>s (d, v). reads_as R p s d v) ss al"

lemma sets_append: "sets R p ss al \<Longrightarrow> sets R p ss' al' \<Longrightarrow> sets R p (ss @ ss') (al @ al')"
  by (simp add: sets_def list_all2_appendI)

definition given_text :: "string \<Rightarrow> ('a \<Rightarrow> arg_value) \<Rightarrow> 'a option \<Rightarrow> (string \<times> arg_value) list" where
  "given_text d f x = (case x of None \<Rightarrow> [] | Some y \<Rightarrow> [(d, f y)])"

lemma sets_text:
  "(\<And>y. x = Some y \<Longrightarrow> reads_as R p (fl, Some (g y)) d (f y)) \<Longrightarrow>
     sets R p (text_setting fl (map_option g x)) (given_text d f x)"
  by (cases x) (auto simp: sets_def text_setting_def given_text_def)

lemma sets_word:
  "(\<And>w. x = Some w \<Longrightarrow> reads_as R p (fl, Some w) d (f w)) \<Longrightarrow> sets R p (text_setting fl x) (given_text d f x)"
  by (cases x) (auto simp: sets_def text_setting_def given_text_def)

lemma sets_shown:
  "reads_as R p (fl, Some (g y)) d (f y) \<Longrightarrow> sets R p (text_setting fl (Some (g y))) (given_text d f (Some y))"
  by (auto simp: sets_def text_setting_def given_text_def)

lemma sets_switch:
  "reads_as R p (fl, None) d (Switch True) \<Longrightarrow>
     sets R p (switch_setting fl b) (given_text d Switch (if b then Some True else None))"
  by (auto simp: sets_def switch_setting_def given_text_def)

lemma sets_values:
  "sets R p ss al \<Longrightarrow> list_all (setting_ok p) ss \<and> list_all (converts R p) ss \<and> map (setting_value R p) ss = al"
  unfolding sets_def by (induction rule: list_all2_induct) (auto simp: reads_as_def)

lemma parse_sets:
  assumes "plain_flags p" and "sets R p ss al" and "missing_options p (map fst al) = []"
  shows "parse_args R p (map setting_word ss) =
    Inr (defaults p ++ map_of (rev al) ++ map_of (rev (map (\<lambda>pd. (pos_dest pd, positional_value pd [])) (positionals p))))"
proof -
  have v: "map (setting_value R p) ss = al" "list_all (setting_ok p) ss" "list_all (converts R p) ss"
    using sets_values[OF assms(2)] by auto
  have "map (fst \<circ> setting_value R p) ss = map fst al" using v(1) by auto
  with parse_settings[OF assms(1) v(2,3)] v(1) assms(3) show ?thesis by simp
qed

lemma given_lookup [simp]:
  "map_of (rev (given_text d f x)) d' = (if d' = d then map_option f x else None)"
  "map_of (given_text d f x) d' = (if d' = d then map_option f x else None)"
  by (auto simp: given_text_def split: option.splits)

text \<open>The attributes of a request.\<close>

definition common_attrs :: "'a common_args_scheme \<Rightarrow> (string \<times> arg_value) list" where
  "common_attrs c =
     given_text ''elf'' Text (Some (elf c)) @ given_text ''mode'' Text (mode c) @
     given_text ''host_link'' Text (host_link c) @ given_text ''split_link'' Text (split_link c) @
     given_text ''host_elf'' Text (host_elf c) @ given_text ''peripheral_elf'' Text (peripheral_elf c) @
     given_text ''boot_timeout'' Real_number (Some (boot_timeout c)) @
     given_text ''min_virtual'' Real_number (Some (min_virtual c)) @
     given_text ''virtual_budget'' Real_number (Some (virtual_budget c)) @
     given_text ''steady_quantum'' Text (steady_quantum c) @
     given_text ''rtt'' Switch (if rtt c then Some True else None) @
     given_text ''renode_version'' Text (Some (renode_version c))"

lemma smoke_flags:
  "flag_option smoke_parser ''--elf'' = Some ((path_option ''--elf'' ''elf'')\<lparr>opt_required := True\<rparr>)"
  "flag_option smoke_parser ''--mode'' = Some (choice_option ''--mode'' ''mode'' (map fst MODE_PRESETS))"
  "flag_option smoke_parser ''--host-link'' = Some (choice_option ''--host-link'' ''host_link'' HOST_LINKS)"
  "flag_option smoke_parser ''--split-link'' = Some (choice_option ''--split-link'' ''split_link'' SPLIT_LINKS)"
  "flag_option smoke_parser ''--host-elf'' = Some (path_option ''--host-elf'' ''host_elf'')"
  "flag_option smoke_parser ''--peripheral-elf'' = Some (path_option ''--peripheral-elf'' ''peripheral_elf'')"
  "flag_option smoke_parser ''--studio-proto-dir'' = Some (path_option ''--studio-proto-dir'' ''studio_proto_dir'')"
  "flag_option smoke_parser ''--west-topdir'' = Some (path_option ''--west-topdir'' ''west_topdir'')"
  "flag_option smoke_parser ''--renode-version'' =
     Some ((plain_option [''--renode-version''] ''renode_version'')\<lparr>opt_default := Text RENODE_VERSION_DEFAULT\<rparr>)"
  "flag_option smoke_parser ''--boot-timeout'' = Some (number_option ''--boot-timeout'' ''boot_timeout'' 15)"
  "flag_option smoke_parser ''--rpc-timeout'' = Some (number_option ''--rpc-timeout'' ''rpc_timeout'' 10)"
  "flag_option smoke_parser ''--min-virtual'' = Some (number_option ''--min-virtual'' ''min_virtual'' 20)"
  "flag_option smoke_parser ''--rtt'' = Some (switch_option [''--rtt''] ''rtt'')"
  "flag_option smoke_parser ''--virtual-budget'' = Some (number_option ''--virtual-budget'' ''virtual_budget'' 20)"
  "flag_option smoke_parser ''--steady-quantum'' = Some (plain_option [''--steady-quantum''] ''steady_quantum'')"
  "flag_option smoke_parser ''--storage-addr'' = Some ((plain_option [''--storage-addr''] ''storage_addr'')
     \<lparr>opt_conv := As_int_any, opt_default := Whole STORAGE_ADDR_DEFAULT\<rparr>)"
  "flag_option smoke_parser ''--storage-size'' = Some ((plain_option [''--storage-size''] ''storage_size'')
     \<lparr>opt_conv := As_int_any, opt_default := Whole STORAGE_SIZE_DEFAULT\<rparr>)"
  by (simp_all add: flag_option_def flag_table_def parser_defs table_defs)

lemma test_flags:
  "flag_option test_parser ''--elf'' = Some ((plain_option [''--elf''] ''elf'')\<lparr>opt_required := True\<rparr>)"
  "flag_option test_parser ''--mode'' = Some (choice_option ''--mode'' ''mode'' [''usb'', ''ble'', ''wired-split'', ''ble-split''])"
  "flag_option test_parser ''--host-link'' = Some (choice_option ''--host-link'' ''host_link'' [''usb'', ''ble'', ''none''])"
  "flag_option test_parser ''--split-link'' = Some (choice_option ''--split-link'' ''split_link'' [''none'', ''wired'', ''ble''])"
  "flag_option test_parser ''--host-elf'' = Some (plain_option [''--host-elf''] ''host_elf'')"
  "flag_option test_parser ''--peripheral-elf'' = Some (plain_option [''--peripheral-elf''] ''peripheral_elf'')"
  "flag_option test_parser ''--renode-version'' =
     Some ((plain_option [''--renode-version''] ''renode_version'')\<lparr>opt_default := Text ''1.16.1''\<rparr>)"
  "flag_option test_parser ''--boot-timeout'' = Some (number_option ''--boot-timeout'' ''boot_timeout'' 20)"
  "flag_option test_parser ''--min-virtual'' = Some (number_option ''--min-virtual'' ''min_virtual'' 20)"
  "flag_option test_parser ''--rtt'' = Some (switch_option [''--rtt''] ''rtt'')"
  "flag_option test_parser ''--skip-smoke'' = Some (switch_option [''--skip-smoke''] ''skip_smoke'')"
  "flag_option test_parser ''--virtual-budget'' = Some (number_option ''--virtual-budget'' ''virtual_budget'' 20)"
  "flag_option test_parser ''--steady-quantum'' = Some (plain_option [''--steady-quantum''] ''steady_quantum'')"
  "flag_option test_parser ''--storage-addr'' = Some ((plain_option [''--storage-addr''] ''storage_addr'')\<lparr>opt_conv := As_int_any\<rparr>)"
  "flag_option test_parser ''--storage-size'' = Some ((plain_option [''--storage-size''] ''storage_size'')\<lparr>opt_conv := As_int_any\<rparr>)"
  by (simp_all add: flag_option_def flag_table_def parser_defs table_defs)

lemmas setting_intros = sets_append sets_word sets_shown sets_text sets_switch reads_as_word reads_as_switch

lemma sets_common_smoke:
  "expressible R show_num c \<Longrightarrow> sets R smoke_parser (common_settings show_num c) (common_attrs c)"
  unfolding common_settings_def common_attrs_def
  by (intro setting_intros)
    (auto simp: expressible_def smoke_flags table_defs convert_def choice_ok_def)

lemma sets_common_test:
  "expressible R show_num c \<Longrightarrow> sets R test_parser (common_settings show_num c) (common_attrs c)"
  unfolding common_settings_def common_attrs_def
  by (intro setting_intros)
    (auto simp: expressible_def test_flags table_defs convert_def choice_ok_def axes_defs)

definition own_expressible :: "readers \<Rightarrow> (rat \<Rightarrow> string) \<Rightarrow> smoke_args \<Rightarrow> bool" where
  "own_expressible R show_num a \<longleftrightarrow>
     (\<forall>w. studio_proto_dir a = Some w \<or> west_topdir a = Some w \<longrightarrow> py_path w = w) \<and>
     float_of R (show_num (rpc_timeout a)) = Some (rpc_timeout a)"

definition smoke_attrs :: "smoke_args \<Rightarrow> (string \<times> arg_value) list" where
  "smoke_attrs a =
     common_attrs a @ given_text ''studio_proto_dir'' Text (studio_proto_dir a) @
     given_text ''west_topdir'' Text (west_topdir a) @ given_text ''rpc_timeout'' Real_number (Some (rpc_timeout a)) @
     given_text ''storage_addr'' Whole (Some (storage_addr a)) @ given_text ''storage_size'' Whole (Some (storage_size a))"

definition test_attrs :: "test_args \<Rightarrow> (string \<times> arg_value) list" where
  "test_attrs t =
     common_attrs t @ given_text ''skip_smoke'' Switch (if skip_smoke t then Some True else None) @
     given_text ''storage_addr'' Whole (storage_addr_given t) @ given_text ''storage_size'' Whole (storage_size_given t)"

lemma sets_smoke:
  "expressible R show_num a \<Longrightarrow> own_expressible R show_num a \<Longrightarrow> sets R smoke_parser (smoke_settings show_num a) (smoke_attrs a)"
  unfolding smoke_settings_def smoke_attrs_def
  by (intro setting_intros sets_common_smoke)
    (auto simp: expressible_def own_expressible_def smoke_flags table_defs convert_def choice_ok_def)

lemma sets_test:
  "expressible R show_num t \<Longrightarrow> sets R test_parser (test_settings show_num t) (test_attrs t)"
  unfolding test_settings_def test_attrs_def
  by (intro setting_intros sets_common_test)
    (auto simp: expressible_def test_flags table_defs convert_def choice_ok_def)

lemma smoke_defaults:
  "defaults smoke_parser = map_of
     [(''elf'', No_value), (''mode'', No_value), (''host_link'', No_value), (''split_link'', No_value),
      (''host_elf'', No_value), (''peripheral_elf'', No_value), (''studio_proto_dir'', No_value),
      (''west_topdir'', No_value), (''renode_version'', Text RENODE_VERSION_DEFAULT),
      (''boot_timeout'', Real_number 15), (''rpc_timeout'', Real_number 10), (''min_virtual'', Real_number 20),
      (''rtt'', Switch False), (''virtual_budget'', Real_number 20), (''steady_quantum'', No_value),
      (''storage_addr'', Whole STORAGE_ADDR_DEFAULT), (''storage_size'', Whole STORAGE_SIZE_DEFAULT)]"
  by (simp add: defaults_def parser_defs table_defs)

lemma test_defaults:
  "defaults test_parser = map_of
     [(''elf'', No_value), (''mode'', No_value), (''host_link'', No_value), (''split_link'', No_value),
      (''peripheral_elf'', No_value), (''host_elf'', No_value), (''boot_timeout'', Real_number 20),
      (''skip_smoke'', Switch False), (''rtt'', Switch False), (''min_virtual'', Real_number 20),
      (''virtual_budget'', Real_number 20), (''steady_quantum'', No_value), (''storage_addr'', No_value),
      (''storage_size'', No_value), (''renode_version'', Text ''1.16.1''), (''tests_dir'', No_value)]"
  by (simp add: defaults_def parser_defs table_defs)

lemma attr_added: "attr (m ++ n) d f = (case n d of None \<Rightarrow> attr m d f | Some v \<Rightarrow> f v)"
  by (simp add: attr_def map_add_def split: option.splits)

lemma attr_updated: "attr (m(k \<mapsto> v)) d f = (if d = k then f v else attr m d f)"
  by (simp add: attr_def)

lemma attr_optional:
  "attr m d as_opt_text = Some None \<Longrightarrow>
     (case map_option Text x of None \<Rightarrow> attr m d as_opt_text | Some v \<Rightarrow> as_opt_text v) = Some x"
  "attr m d as_opt_text = Some None \<Longrightarrow>
     (case x of None \<Rightarrow> attr m d as_opt_text | Some w \<Rightarrow> (as_opt_text \<circ> Text) w) = Some x"
  "attr m d as_opt_whole = Some None \<Longrightarrow>
     (case map_option Whole i of None \<Rightarrow> attr m d as_opt_whole | Some v \<Rightarrow> as_opt_whole v) = Some i"
  "attr m d as_opt_whole = Some None \<Longrightarrow>
     (case i of None \<Rightarrow> attr m d as_opt_whole | Some w \<Rightarrow> (as_opt_whole \<circ> Whole) w) = Some i"
  by (cases x; cases i; simp)+

lemma attr_whole:
  "attr m d as_whole = Some k \<Longrightarrow>
     (case map_option Whole i of None \<Rightarrow> attr m d as_whole | Some v \<Rightarrow> as_whole v) = Some (case i of None \<Rightarrow> k | Some x \<Rightarrow> x)"
  "attr m d as_whole = Some k \<Longrightarrow>
     (case i of None \<Rightarrow> attr m d as_whole | Some w \<Rightarrow> (as_whole \<circ> Whole) w) = Some (case i of None \<Rightarrow> k | Some x \<Rightarrow> x)"
  by (cases i; simp)+

lemma attr_switch:
  "attr m d as_switch = Some False \<Longrightarrow>
     (case map_option Switch (if b then Some True else None) of None \<Rightarrow> attr m d as_switch | Some v \<Rightarrow> as_switch v) = Some b"
  "attr m d as_switch = Some False \<Longrightarrow>
     (case if b then Some True else None of None \<Rightarrow> attr m d as_switch | Some v \<Rightarrow> (as_switch \<circ> Switch) v) = Some b"
  by simp_all

lemma attr_table: "attr (map_of ((k, v) # al)) d f = (if d = k then f v else attr (map_of al) d f)"
  by (simp add: attr_def)

lemma parse_smoke_settings:
  assumes "expressible R show_num a" and "own_expressible R show_num a"
  shows "\<exists>ns. parse_args R smoke_parser (map setting_word (smoke_settings show_num a)) = Inr ns \<and> smoke_args_of ns = Some a"
proof -
  have "missing_options smoke_parser (map fst (smoke_attrs a)) = []"
    by (simp add: missing_options_def smoke_attrs_def common_attrs_def given_text_def parser_defs table_defs)
  from parse_sets[OF plain_tables(1) sets_smoke[OF assms] this]
  have "parse_args R smoke_parser (map setting_word (smoke_settings show_num a)) =
      Inr (defaults smoke_parser ++ map_of (rev (smoke_attrs a)))"
    by (simp add: smoke_parser_def)
  moreover have "smoke_args_of (defaults smoke_parser ++ map_of (rev (smoke_attrs a))) = Some a"
    by (simp add: smoke_args_of_def common_of_def smoke_attrs_def common_attrs_def attr_added attr_optional attr_switch
        attr_updated attr_table smoke_defaults common_args.defs smoke_args.defs split del: if_split)
  ultimately show ?thesis by blast
qed

lemma parse_test_settings:
  assumes "expressible R show_num t" and "tests_dir t = None"
  shows "\<exists>ns. parse_args R test_parser (map setting_word (test_settings show_num t)) = Inr ns \<and> test_args_of ns = Some t"
proof -
  have "missing_options test_parser (map fst (test_attrs t)) = []"
    by (simp add: missing_options_def test_attrs_def common_attrs_def given_text_def parser_defs table_defs)
  from parse_sets[OF plain_tables(2) sets_test[OF assms(1)] this]
  have "parse_args R test_parser (map setting_word (test_settings show_num t)) =
      Inr (defaults test_parser ++ map_of (rev (test_attrs t)) ++ [''tests_dir'' \<mapsto> No_value])"
    by (simp add: test_parser_def maybe_positional_def positional_value_def)
  moreover have "test_args_of (defaults test_parser ++ map_of (rev (test_attrs t)) ++ [''tests_dir'' \<mapsto> No_value]) = Some t"
    using assms(2)
    by (simp add: test_args_of_def common_of_def test_attrs_def common_attrs_def attr_added attr_optional attr_switch
        attr_updated test_defaults common_args.defs test_args.defs split del: if_split)
  ultimately show ?thesis by blast
qed

section \<open>The commands\<close>

text \<open>A reading that stops ends the process; otherwise the handler gets the arguments.\<close>

definition renode_smoke_process :: "readers \<Rightarrow> host_env \<Rightarrow> string list \<Rightarrow> smoke_call list \<times> int result" where
  "renode_smoke_process R env argv =
     (case parse_args R smoke_parser argv of
        Inl s \<Rightarrow> ([], Inr (stop_code s))
      | Inr ns \<Rightarrow> smoke_main env (the (smoke_args_of ns)))"

definition zmk_renode_test_process ::
  "readers \<Rightarrow> host_env \<Rightarrow> string list \<Rightarrow> stop + (smoke_call list \<times> string list \<times> outcome)"
where
  "zmk_renode_test_process R env argv =
     bind_result (parse_args R test_parser argv) (\<lambda>ns. Inr (do_run env (the (test_args_of ns))))"

text \<open>The request of \<open>west zmk-renode-test\<close> given to \<open>renode_smoke.py\<close>.\<close>

definition smoke_args_for :: "test_args \<Rightarrow> string \<Rightarrow> smoke_args" where
  "smoke_args_for t d = common_args.extend (common_args.truncate t)
     (smoke_args.fields (Some d) None 10 (given_addr t) (given_size t))"

lemma parse_shared_settings:
  assumes "expressible R show_num t" and "\<not> skip_smoke t" and "py_path d = d"
  shows "\<exists>ns. parse_args R smoke_parser (map setting_word (test_settings show_num t) @ [''--studio-proto-dir='' @ d]) = Inr ns \<and>
    smoke_args_of ns = Some (smoke_args_for t d)"
proof -
  let ?ss = "test_settings show_num t @ text_setting ''--studio-proto-dir'' (Some d)"
  let ?al = "test_attrs t @ given_text ''studio_proto_dir'' Text (Some d)"
  have sk: "switch_setting f (skip_smoke t) = []" "given_text e Switch (if skip_smoke t then Some True else None) = []" for f e
    using assms(2) by (auto simp: switch_setting_def given_text_def)
  have "sets R smoke_parser ?ss ?al"
    unfolding test_settings_def test_attrs_def sk append_Nil using assms
    by (intro setting_intros sets_common_smoke)
      (auto simp: expressible_def smoke_flags table_defs convert_def choice_ok_def)
  moreover have "missing_options smoke_parser (map fst ?al) = []"
    by (simp add: missing_options_def test_attrs_def common_attrs_def given_text_def parser_defs table_defs)
  ultimately have "parse_args R smoke_parser (map setting_word ?ss) = Inr (defaults smoke_parser ++ map_of (rev ?al))"
    using parse_sets[OF plain_tables(1), of R ?ss ?al] by (simp add: smoke_parser_def)
  moreover have "smoke_args_of (defaults smoke_parser ++ map_of (rev ?al)) = Some (smoke_args_for t d)"
    by (simp add: smoke_args_of_def common_of_def test_attrs_def common_attrs_def attr_added attr_optional attr_switch
        attr_whole attr_updated attr_table smoke_defaults common_args.defs smoke_args.defs smoke_args_for_def sk
        given_addr_def given_size_def split del: if_split)
  ultimately show ?thesis by (simp add: text_setting_def)
qed

lemma py_path_nonempty [simp]: "py_path s \<noteq> []"
proof -
  have "py_join sep ws \<noteq> []" if "w \<in> set ws" "w \<noteq> []" for w ws and sep :: string
    using that by (induction sep ws rule: py_join.induct) auto
  then show ?thesis
    by (auto simp: py_path_def Let_def filter_empty_conv split: if_splits)
qed

lemma shared_request:
  assumes "expressible R show_num t" and "\<not> skip_smoke t" and "steady_quantum t \<noteq> Some []"
    and "absolute env = id" and "has_protobuf env" and "test_proto_dir env = Inr d"
  shows "same_request env (smoke_args_for t d) t"
proof -
  have "host_elf t \<noteq> Some []" "peripheral_elf t \<noteq> Some []"
    using assms(1) py_path_nonempty[of "[]"] by (auto simp: expressible_def)
  with assms show ?thesis
    by (simp add: same_request_def smoke_args_for_def common_args.defs smoke_args.defs smoke_proto_dir_def)
qed

section \<open>Properties\<close>


definition sample_readers :: readers where
  "sample_readers = \<lparr>float_of = (\<lambda>s. map_option of_int (py_int s)), pattern_ok = (\<lambda>_. True)\<rparr>"

definition sample_show :: "rat \<Rightarrow> string" where
  "sample_show x = (if x = 20 then ''20'' else ''10'')"

lemma sample_numbers: "float_of sample_readers ''20'' = Some 20" "float_of sample_readers ''10'' = Some 10"
  by (simp_all add: sample_readers_def py_int_def signed_def py_digits_def hex_val_def py_strip_def py_rstrip_def
      py_lstrip_def py_space_def)

lemma sample_path: "py_path ''/c.elf'' = ''/c.elf''" "py_path ''/h.elf'' = ''/h.elf''" "py_path ''/p.elf'' = ''/p.elf''"
  "py_path ''/m/proto/zmk'' = ''/m/proto/zmk''"
  by (simp_all add: py_path_def prefix_def)

lemma sample_expressible:
  "expressible sample_readers sample_show sample_smoke_args" "own_expressible sample_readers sample_show sample_smoke_args"
  "expressible sample_readers sample_show (sample_test_args\<lparr>tests_dir := None\<rparr>)"
  by (simp_all add: expressible_def own_expressible_def sample_smoke_args_def sample_test_args_def sample_path
      sample_numbers sample_show_def MODE_PRESETS_def)

lemma empty_line:
  "parse_args R (build_parser ''/w'' (Whole 8)) [] = Inr (defaults (build_parser ''/w'' (Whole 8)) ++
     map_of (rev (map (\<lambda>pd. (pos_dest pd, positional_value pd [])) (build_positionals ''/w''))))"
  "parse_args R unit_test_parser [] = Inr ((defaults unit_test_parser)(''test_path'' \<mapsto> No_value))"
  "parse_args R ble_test_parser [] = Inr ((defaults ble_test_parser)(''tests_path'' \<mapsto> No_value))"
  by (simp_all add: parse_args_def parse_known_args_def last_positionals_def positionals_absent missing_options_def
      parser_defs table_defs positional_value_def del: map_add_assoc)


text \<open>
  C15. Every request can be given on the command line.  Whatever arguments \<open>main\<close> of \<open>renode_smoke.py\<close> is
  to run with (known axes, normalised paths, numbers whose text reads back, words of any form), the settings
  of these arguments are accepted and read back as exactly the same arguments.
\<close>

theorem smoke_command_line_roundtrip:
  assumes "expressible R show_num a" and "own_expressible R show_num a"
  shows "renode_smoke_process R env (map setting_word (smoke_settings show_num a)) = smoke_main env a \<and>
    (\<exists>ns. parse_args R smoke_parser (map setting_word (smoke_settings show_num a)) = Inr ns \<and> smoke_args_of ns = Some a)"
proof -
  obtain ns where "parse_args R smoke_parser (map setting_word (smoke_settings show_num a)) = Inr ns" "smoke_args_of ns = Some a"
    using parse_smoke_settings[OF assms] by blast
  then show ?thesis by (simp add: renode_smoke_process_def)
qed

theorem smoke_command_line_roundtrip_witness:
  "renode_smoke_process sample_readers sample_env (map setting_word (smoke_settings sample_show sample_smoke_args)) =
    ([Ble_split_smoke ''/c.elf'' ''/p.elf'' ''/h.elf'' 20 0xEC000 0x8000 None], Inr 0)"
  using smoke_command_line_roundtrip[OF sample_expressible(1,2), of sample_env] sample_smoke_main by simp





text \<open>
  The words for \<open>west build\<close>.  They reach \<open>west_args\<close> as they are when the configuration path is given before
  \<open>--\<close>; without it the first of them is taken for the configuration path.
\<close>

lemma mark_rest: "mark_words p (''--'' # ws) = Inr ((''--'', Dashes) # map (\<lambda>w. (w, Argument)) ws)"
  by simp

lemma west_args_need_config:
  assumes "''--'' \<notin> set (w # ws)"
  shows "\<exists>ns. parse_args R (build_parser here cpu_count) (''--'' # w # ws) = Inr ns \<and>
    ns ''config_path'' = Some (Text w) \<and> ns ''west_args'' = Some (Several (map Text ws))"
proof -
  have t: "takeWhile is_positional (map (\<lambda>w. (w, Argument)) us) = map (\<lambda>w. (w, Argument)) us" for us :: "string list"
    by (induction us) (auto simp: is_positional_def)
  have d: "takeWhile is_dashes (map (\<lambda>w. (w, Argument)) us) = []" for us :: "string list"
    by (cases us) (auto simp: is_dashes_def)
  have o: "\<not> list_ex is_option (map (\<lambda>w. (w, Argument)) us)" for us :: "string list"
    by (induction us) (auto simp: is_option_def)
  have m: "map fst (map (\<lambda>w. (w, Argument)) us) = us" for us :: "string list" by (induction us) auto
  show ?thesis
    using assms
    by (simp add: parse_args_def parse_known_args_def last_positionals_def build_parser_def build_positionals_def
        positional_words_def is_dashes_def is_argument_def positional_value_def remove1_idem t d o m Let_def comp_def
        missing_options_def build_selection_def build_behaviour_def table_defs is_option_def)
qed

end
