(* ===== verification/Thread_Pool.thy ===== *)
theory Thread_Pool
  imports Py_Prelude
begin

text \<open>
  \<open>ThreadPoolExecutor\<close> as \<open>runner.py\<close> and \<open>zmk_build.py\<close> use it: the items 0 to n - 1 are submitted in
  order, at most \<open>workers\<close> of them are being worked on at a time, and their effects interleave in any way.
  \<open>runs k es r\<close> are the runs that item \<open>k\<close> can have: the effects \<open>es\<close> in their order, with the result \<open>r\<close>.

  \<open>map_step\<close> adds the thread that collects the results with \<open>list(pool.map(f, items))\<close>: in the order of
  the items, up to the first exception; then what has not been started is cancelled, the last item first,
  and leaving the \<open>with\<close> block waits for what has.  The locale \<open>thread_pool\<close> is what the users rely on.
\<close>

section \<open>The workers\<close>

record ('e, 'r) pool =
  queue :: "nat list"
  busy :: "(nat \<times> 'e list \<times> 'r) list"
  trace :: "(nat \<times> 'e) list"
  completed :: "(nat \<times> 'r) list"

inductive pool_step ::
  "(nat \<Rightarrow> 'e list \<Rightarrow> 'r \<Rightarrow> bool) \<Rightarrow> nat \<Rightarrow> ('e, 'r, 'z) pool_scheme \<Rightarrow> ('e, 'r, 'z) pool_scheme \<Rightarrow> bool"
  for runs workers
where
  Take: "queue s = k # ks \<Longrightarrow> length (busy s) < workers \<Longrightarrow> runs k es r \<Longrightarrow>
    pool_step runs workers s (s\<lparr>queue := ks, busy := busy s @ [(k, es, r)]\<rparr>)"
| Work: "busy s = xs @ (k, e # es, r) # ys \<Longrightarrow>
    pool_step runs workers s (s\<lparr>busy := xs @ (k, es, r) # ys, trace := trace s @ [(k, e)]\<rparr>)"
| End: "busy s = xs @ (k, [], r) # ys \<Longrightarrow>
    pool_step runs workers s (s\<lparr>busy := xs @ ys, completed := completed s @ [(k, r)]\<rparr>)"

inductive_cases pool_stepE [elim]: "pool_step runs workers s s'"

text \<open>The effects of one item.\<close>

definition events :: "nat \<Rightarrow> ('e, 'r, 'z) pool_scheme \<Rightarrow> 'e list" where
  "events k s = map snd (filter (\<lambda>(j, e). j = k) (trace s))"

definition begun :: "('e, 'r, 'z) pool_scheme \<Rightarrow> nat list" where
  "begun s = map fst (busy s) @ map fst (completed s)"

definition pool_start :: "nat \<Rightarrow> ('e, 'r) pool" where
  "pool_start n = \<lparr>queue = [0..<n], busy = [], trace = [], completed = []\<rparr>"

text \<open>
  What every reachable state keeps, \<open>K\<close> being the items that are not cancelled: each of them waits, is
  worked on or is completed, exactly once; what was done for it and what is left is one of its runs.
\<close>

definition pool_inv ::
  "(nat \<Rightarrow> 'e list \<Rightarrow> 'r \<Rightarrow> bool) \<Rightarrow> nat \<Rightarrow> nat set \<Rightarrow> ('e, 'r, 'z) pool_scheme \<Rightarrow> bool"
where
  "pool_inv runs workers K s \<longleftrightarrow>
     length (busy s) \<le> workers \<and> distinct (queue s @ begun s) \<and> set (queue s @ begun s) = K \<and>
     (\<forall>(k, es, r) \<in> set (busy s). runs k (events k s @ es) r) \<and>
     (\<forall>(k, r) \<in> set (completed s). runs k (events k s) r) \<and>
     (\<forall>k. k \<notin> set (begun s) \<longrightarrow> events k s = [])"

lemma pool_inv_start: "pool_inv runs workers {..<n} (pool_start n)"
  by (auto simp: pool_inv_def pool_start_def begun_def events_def)

lemma events_Work: "events j (s\<lparr>busy := b, trace := trace s @ [(k, e)]\<rparr>) = events j s @ (if j = k then [e] else [])"
  by (simp add: events_def)

lemma events_other [simp]:
  "events j (s\<lparr>queue := q\<rparr>) = events j s" "events j (s\<lparr>busy := b\<rparr>) = events j s"
  "events j (s\<lparr>completed := c\<rparr>) = events j s"
  by (simp_all add: events_def)

lemma pool_inv_step:
  assumes "pool_step runs workers s s'" and "pool_inv runs workers K s"
  shows "pool_inv runs workers K s'"
  using assms(1)
proof cases
  case (Take k ks es r)
  have b: "begun s' = map fst (busy s) @ k # map fst (completed s)" using Take(1) by (simp add: begun_def)
  have "events k s = []" using assms(2) Take(2) by (auto simp: pool_inv_def)
  with Take assms(2) show ?thesis unfolding pool_inv_def b by (auto simp: begun_def)
next
  case (Work xs k e es r ys)
  have b: "begun s' = begun s" "queue s' = queue s" "length (busy s') = length (busy s)" "completed s' = completed s"
    using Work by (simp_all add: begun_def)
  have ev: "events j s' = events j s @ (if j = k then [e] else [])" for j using Work(1) by (simp add: events_Work)
  have "k \<in> set (begun s)" "k \<notin> fst ` set xs" "k \<notin> fst ` set ys" "k \<notin> fst ` set (completed s)"
    and "runs k (events k s @ e # es) r"
    using assms(2) Work(2) by (auto simp: pool_inv_def begun_def)
  note k = this
  have "\<forall>(j, fs, q) \<in> set (busy s'). runs j (events j s' @ fs) q"
  proof (intro ballI, clarify)
    fix j fs q assume "(j, fs, q) \<in> set (busy s')"
    then consider "(j, fs, q) = (k, es, r)" | "j \<noteq> k" "(j, fs, q) \<in> set (busy s)"
      using Work k(2,3) by (force simp: image_iff)
    then show "runs j (events j s' @ fs) q"
      using k(5) assms(2) by cases (auto simp: ev pool_inv_def)
  qed
  moreover have "\<forall>(j, q) \<in> set (completed s'). runs j (events j s') q"
  proof (intro ballI, clarify)
    fix j q assume "(j, q) \<in> set (completed s')"
    then have "j \<noteq> k" "(j, q) \<in> set (completed s)" using k(4) b(4) by (force simp: image_iff)+
    then show "runs j (events j s') q" using assms(2) by (auto simp: ev pool_inv_def)
  qed
  moreover have "\<forall>j. j \<notin> set (begun s) \<longrightarrow> events j s' = []"
    using assms(2) k(1) by (auto simp: ev pool_inv_def)
  ultimately show ?thesis using assms(2) unfolding pool_inv_def b by blast
next
  case (End xs k r ys)
  have b: "set (begun s') = set (begun s)" "distinct (queue s' @ begun s') = distinct (queue s @ begun s)"
    "queue s' = queue s" using End by (auto simp: begun_def)
  have "\<forall>(j, fs, q) \<in> set (busy s'). runs j (events j s' @ fs) q" "\<forall>(j, q) \<in> set (completed s'). runs j (events j s') q"
    "length (busy s') \<le> workers" "\<forall>j. events j s' = events j s"
    using assms(2) End by (auto simp: pool_inv_def)
  with assms(2) b show ?thesis unfolding pool_inv_def by simp
qed

lemma pool_inv_run: "(pool_step runs workers)\<^sup>*\<^sup>* s s' \<Longrightarrow> pool_inv runs workers K s \<Longrightarrow> pool_inv runs workers K s'"
  by (induction rule: rtranclp_induct) (auto intro: pool_inv_step)

text \<open>A step of the workers takes an item from the queue or shortens what is left to do.\<close>

definition left_over :: "('e, 'r, 'z) pool_scheme \<Rightarrow> nat" where
  "left_over s = sum_list (map (\<lambda>(k, es, r). Suc (length es)) (busy s))"

lemma pool_step_less:
  "pool_step runs workers s s' \<Longrightarrow>
     length (queue s') < length (queue s) \<or> (queue s' = queue s \<and> left_over s' < left_over s)"
  by (induction rule: pool_step.induct) (auto simp: left_over_def)

section \<open>\<open>list(pool.map(f, items))\<close>\<close>

record ('e, 'x) map_pool = "('e, exn + 'x) pool" +
  results :: "'x list"
  raised :: "exn option"

inductive map_step ::
  "(nat \<Rightarrow> 'e list \<Rightarrow> exn + 'x \<Rightarrow> bool) \<Rightarrow> nat \<Rightarrow> ('e, 'x) map_pool \<Rightarrow> ('e, 'x) map_pool \<Rightarrow> bool"
  for runs workers
where
  Worker: "pool_step runs workers s s' \<Longrightarrow> map_step runs workers s s'"
| Collect: "raised s = None \<Longrightarrow> (length (results s), Inr x) \<in> set (completed s) \<Longrightarrow>
    map_step runs workers s (s\<lparr>results := results s @ [x]\<rparr>)"
| Raise: "raised s = None \<Longrightarrow> (length (results s), Inl e) \<in> set (completed s) \<Longrightarrow>
    map_step runs workers s (s\<lparr>raised := Some e\<rparr>)"
| Cancel: "raised s = Some e \<Longrightarrow> queue s = ks @ [k] \<Longrightarrow> map_step runs workers s (s\<lparr>queue := ks\<rparr>)"

definition map_start :: "nat \<Rightarrow> ('e, 'x) map_pool" where
  "map_start n = pool.extend (pool_start n) (map_pool.fields [] None)"

definition map_finished :: "nat \<Rightarrow> ('e, 'x) map_pool \<Rightarrow> bool" where
  "map_finished n s \<longleftrightarrow> busy s = [] \<and>
     (case raised s of None \<Rightarrow> length (results s) = n | Some e \<Rightarrow> queue s = [])"

definition map_outcome :: "('e, 'x) map_pool \<Rightarrow> exn + 'x list" where
  "map_outcome s = (case raised s of None \<Rightarrow> Inr (results s) | Some e \<Rightarrow> Inl e)"

definition map_reach ::
  "(nat \<Rightarrow> 'e list \<Rightarrow> exn + 'x \<Rightarrow> bool) \<Rightarrow> nat \<Rightarrow> nat \<Rightarrow> ('e, 'x) map_pool \<Rightarrow> bool"
where
  "map_reach runs workers n s \<longleftrightarrow> (map_step runs workers)\<^sup>*\<^sup>* (map_start n) s"

definition map_inv :: "(nat \<Rightarrow> 'e list \<Rightarrow> exn + 'x \<Rightarrow> bool) \<Rightarrow> nat \<Rightarrow> nat \<Rightarrow> ('e, 'x) map_pool \<Rightarrow> bool" where
  "map_inv runs workers n s \<longleftrightarrow>
     (\<exists>K \<subseteq> {..<n}. pool_inv runs workers K s \<and> (raised s = None \<longrightarrow> K = {..<n})) \<and>
     (\<forall>j < length (results s). (j, Inr (results s ! j)) \<in> set (completed s)) \<and>
     (\<forall>e. raised s = Some e \<longrightarrow> (length (results s), Inl e) \<in> set (completed s))"

lemma map_inv_start: "map_inv runs workers n (map_start n)"
proof -
  have "pool_inv runs workers {..<n} (map_start n :: ('a, 'b) map_pool)"
    by (auto simp: pool_inv_def map_start_def pool_start_def begun_def events_def pool.defs map_pool.defs)
  then show ?thesis by (auto simp: map_inv_def map_start_def pool_start_def pool.defs map_pool.defs)
qed

lemma pool_step_collector: "pool_step runs workers s s' \<Longrightarrow> results s' = results s \<and> raised s' = raised s"
  by (induction rule: pool_step.induct) auto

lemma pool_step_completed: "pool_step runs workers s s' \<Longrightarrow> set (completed s) \<subseteq> set (completed s')"
  by (induction rule: pool_step.induct) auto

lemma pool_inv_fields [simp]:
  fixes s :: "('e, 'x) map_pool"
  shows "pool_inv runs workers K (s\<lparr>results := rs\<rparr>) = pool_inv runs workers K s"
    and "pool_inv runs workers K (s\<lparr>raised := e\<rparr>) = pool_inv runs workers K s"
  by (simp_all add: pool_inv_def begun_def events_def)

lemma pool_inv_cancel:
  assumes "pool_inv runs workers K s" and "queue s = ks @ [k]"
  shows "pool_inv runs workers (K - {k}) (s\<lparr>queue := ks\<rparr>)"
proof -
  have b: "begun (s\<lparr>queue := ks\<rparr>) = begun s" by (simp add: begun_def)
  have "distinct ((ks @ [k]) @ begun s)" "set ((ks @ [k]) @ begun s) = K"
    using assms(1) unfolding pool_inv_def assms(2) by blast+
  then have "distinct (ks @ begun s)" "set (ks @ begun s) = K - {k}" by auto
  with assms(1) show ?thesis unfolding pool_inv_def b by simp
qed

lemma map_inv_pool:
  assumes "map_inv runs workers n s"
  obtains K where "K \<subseteq> {..<n}" "pool_inv runs workers K s" "raised s = None \<longrightarrow> K = {..<n}"
  using assms unfolding map_inv_def by (elim conjE exE) (rule that)

lemma map_inv_all:
  assumes "map_inv runs workers n s" and "raised s = None"
  shows "pool_inv runs workers {..<n} s"
  by (rule map_inv_pool[OF assms(1)]) (use assms(2) in simp)

lemma map_inv_step:
  assumes "map_step runs workers s s'" and "map_inv runs workers n s"
  shows "map_inv runs workers n s'"
  using assms(1)
proof cases
  case Worker
  obtain K where K: "K \<subseteq> {..<n}" "pool_inv runs workers K s" "raised s = None \<longrightarrow> K = {..<n}"
    by (rule map_inv_pool[OF assms(2)])
  have c: "results s' = results s" "raised s' = raised s" using pool_step_collector[OF Worker] by auto
  have "\<exists>K \<subseteq> {..<n}. pool_inv runs workers K s' \<and> (raised s' = None \<longrightarrow> K = {..<n})"
    unfolding c by (intro exI[of _ K] conjI K(1,3) pool_inv_step[OF Worker K(2)])
  moreover have "\<forall>j < length (results s). (j, Inr (results s ! j)) \<in> set (completed s')"
    "\<forall>e. raised s = Some e \<longrightarrow> (length (results s), Inl e) \<in> set (completed s')"
    using assms(2) pool_step_completed[OF Worker] unfolding map_inv_def by (meson subsetD)+
  ultimately show ?thesis unfolding map_inv_def c by (intro conjI)
next
  case (Collect x)
  with assms(2) show ?thesis by (auto simp: map_inv_def nth_append less_Suc_eq)
next
  case (Raise e)
  with assms(2) show ?thesis by (auto simp: map_inv_def)
next
  case (Cancel e ks k)
  obtain K where K: "K \<subseteq> {..<n}" "pool_inv runs workers K s" by (rule map_inv_pool[OF assms(2)])
  then have "K - {k} \<subseteq> {..<n}" "pool_inv runs workers (K - {k}) s'" using pool_inv_cancel[OF K(2) Cancel(3)] Cancel(1) by auto
  moreover have c: "raised s' \<noteq> None" "results s' = results s" "completed s' = completed s" "raised s' = raised s"
    using Cancel by simp_all
  ultimately have "\<exists>K \<subseteq> {..<n}. pool_inv runs workers K s' \<and> (raised s' = None \<longrightarrow> K = {..<n})"
    using Cancel(2) by (intro exI[of _ "K - {k}"]) auto
  moreover have "\<forall>j < length (results s). (j, Inr (results s ! j)) \<in> set (completed s)"
    "\<forall>e. raised s = Some e \<longrightarrow> (length (results s), Inl e) \<in> set (completed s)"
    using assms(2) unfolding map_inv_def by simp_all
  ultimately show ?thesis unfolding map_inv_def c(2-4) by (intro conjI)
qed

lemma pool_inv_completed:
  "pool_inv runs workers K s \<Longrightarrow> (k, r) \<in> set (completed s) \<Longrightarrow> runs k (events k s) r \<and> k \<in> K"
  unfolding pool_inv_def begun_def by (metis (no_types, lifting) UnCI case_prodD image_eqI list.set_map set_append fst_conv)

lemma pool_inv_trace:
  assumes "pool_inv runs workers K s"
  shows "fst ` set (trace s) \<subseteq> K"
proof (clarify, simp, rule ccontr)
  fix j e assume t: "(j, e) \<in> set (trace s)" and "j \<notin> K"
  then have "j \<notin> set (begun s)" using assms unfolding pool_inv_def by (metis UnCI set_append)
  then have "events j s = []" using assms unfolding pool_inv_def by blast
  with t show False unfolding events_def by (metis (mono_tags, lifting) case_prodI filter_empty_conv map_is_Nil_conv)
qed

lemma map_inv_results: "map_inv runs workers n s \<Longrightarrow> j < length (results s) \<Longrightarrow> (j, Inr (results s ! j)) \<in> set (completed s)"
  unfolding map_inv_def by blast

lemma map_inv_raised: "map_inv runs workers n s \<Longrightarrow> raised s = Some e \<Longrightarrow> (length (results s), Inl e) \<in> set (completed s)"
  unfolding map_inv_def by blast

lemma map_inv_reach: "map_reach runs workers n s \<Longrightarrow> map_inv runs workers n s"
  unfolding map_reach_def by (induction rule: rtranclp_induct) (auto intro: map_inv_start map_inv_step)

section \<open>What the users rely on\<close>

locale thread_pool =
  fixes runs :: "nat \<Rightarrow> 'e list \<Rightarrow> exn + 'x \<Rightarrow> bool" and workers n :: nat
  assumes some_worker: "workers > 0" and can_run: "\<exists>es r. runs k es r"
begin

text \<open>The results are those of the items, in order, each with the effects that the trace has of it.\<close>

lemma results_of_items:
  assumes "map_reach runs workers n s" and "map_finished n s" and "map_outcome s = Inr xs"
  shows "length xs = n \<and> (\<forall>k < n. runs k (events k s) (Inr (xs ! k))) \<and> fst ` set (trace s) \<subseteq> {..<n}"
proof -
  have f: "raised s = None" "xs = results s" "length (results s) = n"
    using assms(2,3) by (auto simp: map_finished_def map_outcome_def split: option.splits)
  have inv: "map_inv runs workers n s" by (rule map_inv_reach[OF assms(1)])
  then have p: "pool_inv runs workers {..<n} s" using map_inv_all f(1) by blast
  have "runs k (events k s) (Inr (results s ! k))" if "k < n" for k
    using pool_inv_completed[OF p map_inv_results[OF inv]] that f(3) by simp
  then show ?thesis using f pool_inv_trace[OF p] by simp
qed

text \<open>The exception is that of the first item, in the order of the items, that raised one.\<close>

lemma first_exception:
  assumes "map_reach runs workers n s" and "map_outcome s = Inl e"
  shows "\<exists>k < n. runs k (events k s) (Inl e) \<and> (\<forall>j < k. \<exists>x. runs j (events j s) (Inr x))"
proof -
  have r: "raised s = Some e" using assms(2) by (auto simp: map_outcome_def split: option.splits)
  have inv: "map_inv runs workers n s" by (rule map_inv_reach[OF assms(1)])
  obtain K where K: "K \<subseteq> {..<n}" "pool_inv runs workers K s" by (rule map_inv_pool[OF inv])
  have "length (results s) < n" "runs (length (results s)) (events (length (results s)) s) (Inl e)"
    using pool_inv_completed[OF K(2) map_inv_raised[OF inv r]] K(1) by auto
  moreover have "runs j (events j s) (Inr (results s ! j))" if "j < length (results s)" for j
    using pool_inv_completed[OF K(2) map_inv_results[OF inv that]] by simp
  ultimately show ?thesis by blast
qed

text \<open>At most \<open>workers\<close> items are worked on at a time.\<close>

lemma bounded_parallelism:
  assumes "map_reach runs workers n s"
  shows "length (busy s) \<le> workers"
  by (rule map_inv_pool[OF map_inv_reach[OF assms]]) (simp add: pool_inv_def)

text \<open>No schedule is stuck before the end, and none goes on for ever.\<close>

lemma some_step:
  assumes "map_reach runs workers n s" and "\<not> map_finished n s"
  shows "\<exists>s'. map_step runs workers s s'"
proof (cases "busy s")
  case (Cons b bs)
  obtain k es r where b: "busy s = [] @ (k, es, r) # bs" using Cons by (cases b) auto
  show ?thesis
  proof (cases es)
    case Nil
    from Worker[OF End[OF b[unfolded Nil]]] show ?thesis by blast
  next
    case (Cons e fs)
    from Worker[OF Work[OF b[unfolded Cons]]] show ?thesis by blast
  qed
next
  case Nil
  show ?thesis
  proof (cases "queue s")
    case (Cons k ks)
    obtain es r where "runs k es r" using can_run by blast
    with Nil Cons some_worker show ?thesis by (intro exI) (rule Worker, rule Take[OF Cons], auto)
  next
    case q: Nil
    have inv: "map_inv runs workers n s" by (rule map_inv_reach[OF assms(1)])
    have r: "raised s = None" using assms(2) Nil q by (auto simp: map_finished_def split: option.splits)
    then have p: "pool_inv runs workers {..<n} s" using map_inv_all[OF inv r] by blast
    have "queue s @ begun s = map fst (completed s)" using Nil q by (simp add: begun_def)
    then have c: "fst ` set (completed s) = {..<n}" using p unfolding pool_inv_def by (metis list.set_map)
    have "length (results s) \<noteq> n" using assms(2) Nil r by (simp add: map_finished_def)
    moreover have "length (results s) \<le> n"
    proof (rule ccontr)
      assume "\<not> length (results s) \<le> n"
      then have "(n, Inr (results s ! n)) \<in> set (completed s)" using map_inv_results[OF inv] by simp
      then have "n \<in> {..<n}" unfolding c[symmetric] by (metis fst_conv image_eqI)
      then show False by simp
    qed
    ultimately have "length (results s) \<in> fst ` set (completed s)" using c by simp
    then obtain r where "(length (results s), r) \<in> set (completed s)" by auto
    with Collect[OF \<open>raised s = None\<close>] Raise[OF \<open>raised s = None\<close>] show ?thesis by (cases r) blast+
  qed
qed

definition progress :: "(('e, 'x) map_pool \<times> ('e, 'x) map_pool) set" where
  "progress = inv_image (less_than <*lex*> less_than <*lex*> less_than <*lex*> less_than)
     (\<lambda>s. (length (queue s), left_over s, n - length (results s), if raised s = None then 1 else 0))"

lemma step_progress:
  assumes "map_reach runs workers n s" and "map_step runs workers s s'"
  shows "(s', s) \<in> progress"
  using assms(2)
proof cases
  case Worker
  then show ?thesis
    using pool_step_less[OF Worker] pool_step_collector[OF Worker] by (auto simp: progress_def)
next
  case (Collect x)
  have "pool_inv runs workers {..<n} s" by (rule map_inv_all[OF map_inv_reach[OF assms(1)] Collect(2)])
  then have "length (results s) < n" using pool_inv_completed[OF _ Collect(3)] by blast
  with Collect show ?thesis by (auto simp: progress_def left_over_def)
next
  case (Raise e)
  then show ?thesis by (auto simp: progress_def left_over_def)
next
  case (Cancel e ks k)
  then show ?thesis by (auto simp: progress_def)
qed

lemma every_schedule_ends:
  "wf {(s', s). map_reach runs workers n s \<and> map_step runs workers s s'}"
  by (rule wf_subset[of progress]) (auto simp: progress_def[symmetric] dest: step_progress, simp add: progress_def wf_lex_prod)

lemma some_end: "\<exists>s. map_reach runs workers n s \<and> map_finished n s"
proof -
  have "map_reach runs workers n s \<longrightarrow> (\<exists>t. map_reach runs workers n t \<and> map_finished n t)" for s
  proof (induction s rule: wf_induct_rule[OF every_schedule_ends])
    case (1 s)
    show ?case
    proof
      assume r: "map_reach runs workers n s"
      show "\<exists>t. map_reach runs workers n t \<and> map_finished n t"
      proof (cases "map_finished n s")
        case False
        then obtain s' where st: "map_step runs workers s s'" using some_step[OF r] by blast
        then have "map_reach runs workers n s'"
          using r unfolding map_reach_def by (rule rtranclp.rtrancl_into_rtrancl[rotated])
        then show ?thesis using 1 r st by blast
      qed (use r in blast)
    qed
  qed
  moreover have "map_reach runs workers n (map_start n)" by (simp add: map_reach_def)
  ultimately show ?thesis by blast
qed

end

text \<open>
  When every item has one run, the outcome does not depend on the schedule or on the number of workers: it
  is that of the loop over the items, the first exception included.
\<close>

lemma map_result_first:
  "k < length xs \<Longrightarrow> f (xs ! k) = Inl e \<Longrightarrow> (\<And>j. j < k \<Longrightarrow> \<exists>y. f (xs ! j) = Inr y) \<Longrightarrow> map_result f xs = Inl e"
proof (induction xs arbitrary: k)
  case (Cons x xs)
  show ?case
  proof (cases k)
    case 0
    with Cons.prems show ?thesis by simp
  next
    case (Suc j)
    obtain y where "f x = Inr y" using Cons.prems(3)[of 0] Suc by auto
    moreover have "map_result f xs = Inl e"
      using Cons.IH[of j] Cons.prems Suc by (metis Suc_less_eq length_Cons nth_Cons_Suc)
    ultimately show ?thesis by simp
  qed
qed simp

lemma map_pool_sequential:
  assumes "workers > 0" and "map_reach (\<lambda>k es r. f k = (r, es)) workers n s" and "map_finished n s"
  shows "map_outcome s = map_result (\<lambda>k. fst (f k)) [0..<n]"
    and "is_ok (map_outcome s) \<Longrightarrow> k < n \<Longrightarrow> events k s = snd (f k)"
proof -
  have p: "thread_pool (\<lambda>k es r. f k = (r, es)) workers"
    by unfold_locales (use assms(1) in \<open>auto intro: exI[of _ "snd (f _)"] simp: prod_eq_iff\<close>)
  show "map_outcome s = map_result (\<lambda>k. fst (f k)) [0..<n]"
  proof (cases "map_outcome s")
    case (Inl e)
    obtain k where "k < n" "f k = (Inl e, events k s)" "\<And>j. j < k \<Longrightarrow> \<exists>x. f j = (Inr x, events j s)"
      using thread_pool.first_exception[OF p assms(2) Inl] by blast
    then show ?thesis
      using map_result_first[of k "[0..<n]" "\<lambda>k. fst (f k)" e] Inl by (auto simp: nth_append) (metis fst_conv)
  next
    case (Inr xs)
    have "list_all2 (\<lambda>k x. fst (f k) = Inr x) [0..<n] xs"
      using thread_pool.results_of_items[OF p assms(2,3) Inr] by (auto simp: list_all2_conv_all_nth)
    then show ?thesis using Inr by (simp add: map_result_Inr_iff[symmetric])
  qed
  show "events k s = snd (f k)" if "is_ok (map_outcome s)" "k < n"
    using that thread_pool.results_of_items[OF p assms(2,3)] by (cases "map_outcome s") auto
qed

text \<open>Without a collector, as \<open>zmk_build.py\<close> uses the pool: every item completes once, in some order.\<close>

lemma completion_order:
  assumes "(pool_step runs workers)\<^sup>*\<^sup>* (pool_start n) s" and "queue s = []" and "busy s = []"
  shows "distinct (map fst (completed s)) \<and> set (map fst (completed s)) = {..<n}"
  using pool_inv_run[OF assms(1) pool_inv_start] assms(2,3) by (simp add: pool_inv_def begun_def)

end
