(* ===== verification/Case_Pool.thy ===== *)
theory Case_Pool
  imports Thread_Pool Ble_Runner Build_Matrix
begin

text \<open>
  The parallel runs: \<open>BleRunner.run\<close> with more than one worker (\<open>scripts/lib/ble/runner.py\<close>) and the builds
  of \<open>_run_for_all\<close> (\<open>scripts/zmk_build.py\<close>), with the size of its executor, as instances of the thread pool.  What the world answers to the
  effects of case \<open>k\<close>, as they interleave with those of the other cases, is a parameter \<open>ws k\<close>.
\<close>

section \<open>Cases in parallel\<close>

definition case_runs ::
  "ble_env \<Rightarrow> string list \<Rightarrow> (nat \<Rightarrow> (bfx, int) world) \<Rightarrow> nat \<Rightarrow> (bfx, int) record_of \<Rightarrow> (string \<times> status) result \<Rightarrow> bool"
where
  "case_runs env cases ws k es r \<longleftrightarrow> run_case env (cases ! k) (ws k) [] = (r, es)"

text \<open>What \<open>do_run\<close> makes of the results.\<close>

definition cases_verdict :: "(string \<times> status) list result \<Rightarrow> unit result" where
  "cases_verdict r =
     (case r of
        Inl e \<Rightarrow> Inl (SystemExit (exn_text e))
      | Inr rs \<Rightarrow>
          (let failed = filter (\<lambda>r. snd r = Failed) rs in
           if failed \<noteq> []
           then Inl (SystemExit (dec_of_nat (length failed) @ '' BLE case(s) FAILED: '' @ py_join '', '' (map fst failed)))
           else Inr ()))"

interpretation case_pool: thread_pool "case_runs env cases ws" "Suc more" "length cases" for env cases ws more
proof
  show "\<exists>es r. case_runs env cases ws k es r" for k
    by (cases "run_case env (cases ! k) (ws k) []") (auto simp: case_runs_def)
qed simp

lemma case_runs_fun: "case_runs env cases ws = (\<lambda>k es r. run_case env (cases ! k) (ws k) [] = (r, es))"
  by (intro ext) (simp add: case_runs_def)

text \<open>The run of a case from an empty record is one of those that the sequential runner can make.\<close>

lemma run_case_accepted:
  assumes "run_case env dir w [] = (Inr (rel, st), es)"
  shows "accepted_case env dir st (set es)"
  using run_case_leaves[of "\<lambda>_. True" env dir] assms unfolding leaves_def records_def
  by (metis (no_types, lifting) append_Nil fst_conv snd_conv)

section \<open>Builds in parallel\<close>

definition build_runs ::
  "(string list \<Rightarrow> string list) \<Rightarrow> build_env \<Rightarrow> build_args \<Rightarrow> entry list \<Rightarrow> nat \<Rightarrow> unit list \<Rightarrow> build_result result \<Rightarrow> bool"
where
  "build_runs iterate env a m k es r \<longleftrightarrow> es = [] \<and> r = run_single_build iterate env a k (m ! k)"

text \<open>
  The size of the executor: \<open>--parallelism\<close>, by default the number of processors; without one (the system does
  not tell the number) the executor takes its own default.  A size below 1 is refused.
\<close>

definition executor_size :: "nat \<Rightarrow> int option \<Rightarrow> nat result" where
  "executor_size default_size parallelism =
     (case parallelism of
        None \<Rightarrow> Inr default_size
      | Some p \<Rightarrow> if p \<le> 0 then Inl (ValueError ''max_workers must be greater than 0'') else Inr (nat p))"

lemma executor_refuses: "(\<exists>e. executor_size default_size (Some p) = Inl e) \<longleftrightarrow> p \<le> 0"
  by (simp add: executor_size_def)

text \<open>
  \<open>_run_for_all\<close> after the names are suffixed: the settings files, the executor, the builds in it, and what
  \<open>as_completed\<close> gives, each future once in some order.  \<open>s\<close> is the pool at its end.
\<close>

definition builds_in_pool ::
  "(string list \<Rightarrow> string list) \<Rightarrow> build_env \<Rightarrow> build_args \<Rightarrow> nat \<Rightarrow> int option \<Rightarrow> entry list \<Rightarrow> nat list \<Rightarrow>
     (unit, build_result result) pool \<Rightarrow> (int \<times> build_result list) result \<Rightarrow> bool"
where
  "builds_in_pool iterate env a default_size parallelism m order s r \<longleftrightarrow>
     (case if vscode a then generate_vscode_settings env a m else Inr (None, None) of
        Inl e \<Rightarrow> r = Inl e
      | Inr _ \<Rightarrow>
          (case executor_size default_size parallelism of
             Inl e \<Rightarrow> r = Inl e
           | Inr workers \<Rightarrow>
               (pool_step (build_runs iterate env a m) workers)\<^sup>*\<^sup>* (pool_start (length m)) s \<and>
               queue s = [] \<and> busy s = [] \<and> distinct order \<and> set order = fst ` set (completed s) \<and>
               (let rs = collect m (\<lambda>k. the (map_of (completed s) k)) order in r = Inr (exit_code rs, rs))))"

text \<open>Whatever the schedule of the pool, it completes every build once, with the result of that build.\<close>

lemma builds_complete_once:
  assumes "(pool_step (build_runs iterate env a m) workers)\<^sup>*\<^sup>* (pool_start (length m)) s"
    and "queue s = []" and "busy s = []"
  shows "fst ` set (completed s) = {..<length m} \<and>
    (\<forall>k < length m. map_of (completed s) k = Some (run_single_build iterate env a k (m ! k)))"
proof -
  have d: "distinct (map fst (completed s))" "set (map fst (completed s)) = {..<length m}"
    using completion_order[OF assms] by auto
  have inv: "pool_inv (build_runs iterate env a m) workers {..<length m} s"
    by (rule pool_inv_run[OF assms(1) pool_inv_start])
  have "map_of (completed s) k = Some (run_single_build iterate env a k (m ! k))" if "k < length m" for k
  proof -
    have "k \<in> fst ` set (completed s)" using d(2) that by simp
    then obtain r where r: "(k, r) \<in> set (completed s)" by auto
    have "r = run_single_build iterate env a k (m ! k)"
      using pool_inv_completed[OF inv r] by (simp add: build_runs_def)
    with d(1) r show ?thesis by simp
  qed
  with d(2) show ?thesis by simp
qed

lemma collect_cong: "(\<And>k. k \<in> set order \<Longrightarrow> f k = g k) \<Longrightarrow> collect m f order = collect m g order"
  unfolding collect_def by (intro map_cong refl) (auto simp: enumerate_eq_zip dest: set_zip_rightD)

lemma builds_in_pool_result:
  assumes "builds_in_pool iterate env a default_size parallelism m order s (Inr (code, rs))"
  shows "distinct order \<and> set order = {..<length m} \<and> code = exit_code rs \<and>
    rs = collect m (\<lambda>k. run_single_build iterate env a k (m ! k)) order"
proof -
  obtain workers where w: "(pool_step (build_runs iterate env a m) workers)\<^sup>*\<^sup>* (pool_start (length m)) s"
    "queue s = []" "busy s = []"
    and o: "distinct order" "set order = fst ` set (completed s)"
    and r: "rs = collect m (\<lambda>k. the (map_of (completed s) k)) order" "code = exit_code rs"
    using assms unfolding builds_in_pool_def by (auto simp: Let_def split: sum.splits)
  note once = builds_complete_once[OF w]
  have "rs = collect m (\<lambda>k. run_single_build iterate env a k (m ! k)) order"
    unfolding r(1) by (rule collect_cong) (use o(2) once in auto)
  with o once r(2) show ?thesis by simp
qed

text \<open>With at least one worker the builds come to their end.\<close>

lemma pool_ends:
  assumes "workers > 0" and "\<And>k. runs k [] (res k)"
  shows "busy s = [] \<Longrightarrow> \<exists>s'. (pool_step runs workers)\<^sup>*\<^sup>* s s' \<and> queue s' = [] \<and> busy s' = []"
proof (induction "queue s" arbitrary: s)
  case (Cons k ks)
  let ?t = "s\<lparr>queue := ks, busy := [(k, [], res k)]\<rparr>" and ?e = "s\<lparr>queue := ks, busy := [], completed := completed s @ [(k, res k)]\<rparr>"
  have "pool_step runs workers s ?t"
    using Take[OF Cons.hyps(2)[symmetric], of workers runs "[]" "res k"] Cons.prems assms by simp
  moreover have "pool_step runs workers ?t ?e" using End[of ?t "[]" k "res k" "[]"] by simp
  moreover obtain s' where "(pool_step runs workers)\<^sup>*\<^sup>* ?e s'" "queue s' = []" "busy s' = []"
    using Cons.hyps(1)[of ?e] by auto
  ultimately show ?case by (blast intro: converse_rtranclp_into_rtranclp)
qed (auto intro: rtranclp.rtrancl_refl)

lemma builds_end:
  assumes "executor_size default_size parallelism = Inr workers" and "workers > 0"
  shows "\<exists>s r. builds_in_pool iterate env a default_size parallelism m [0..<length m] s r"
proof (cases "if vscode a then generate_vscode_settings env a m else Inr (None, None)")
  case (Inr x)
  obtain s where s: "(pool_step (build_runs iterate env a m) workers)\<^sup>*\<^sup>* (pool_start (length m)) s" "queue s = []" "busy s = []"
    using pool_ends[OF assms(2), of "build_runs iterate env a m" "\<lambda>k. run_single_build iterate env a k (m ! k)" "pool_start (length m)"]
    by (auto simp: build_runs_def pool_start_def)
  have "set [0..<length m] = fst ` set (completed s)" using builds_complete_once[OF s] by auto
  with s assms(1) Inr show ?thesis by (auto simp: builds_in_pool_def Let_def)
qed (auto simp: builds_in_pool_def)

section \<open>Properties\<close>


lemma bare_case: "\<exists>rel es. run_case bare_env dir (\<lambda>_ _. Inr 0) [] = (Inr (rel, Pass), es)"
  by (rule bare_run_case) (simp add: bare_def)





lemma sample_targets_in_pool:
  "\<exists>s code rs. builds_in_pool remdups sample_build_env sample_args 4 (Some 2)
     (map (suffix_entry sample_args) ts) [0..<length ts] s (Inr (code, rs))"
proof -
  let ?m = "map (suffix_entry sample_args) ts"
  have "executor_size 4 (Some 2) = Inr 2" by (simp add: executor_size_def)
  then obtain s r where b: "builds_in_pool remdups sample_build_env sample_args 4 (Some 2) ?m [0..<length ?m] s r"
    using builds_end[of 4 "Some 2" 2 remdups sample_build_env sample_args ?m] by auto
  have "\<exists>x. generate_vscode_settings sample_build_env sample_args ?m = Inr x"
    by (simp add: generate_vscode_settings_def settings_update_def sample_build_env_def Let_def)
  with b have "\<exists>code rs. r = Inr (code, rs)"
    by (auto simp: builds_in_pool_def executor_size_def Let_def split: sum.splits if_splits)
  with b show ?thesis by (auto simp del: upt_Suc)
qed


end
