(* ===== verification/Build_Output.thy ===== *)
theory Build_Output
  imports Build_Matrix Tee_Process
begin

text \<open>
  What becomes of the output of \<open>west build\<close> and \<open>west flash\<close>: \<open>_build\<close> and \<open>_flash\<close> of
  \<open>scripts/zmk_build.py\<close> run them in a \<open>TeePopen\<close> (\<open>scripts/lib/tee_popen.py\<close>) with a log file, a prefix that
  names the build, and streams that depend on \<open>--quiet\<close>.  A stream is written as its name.
\<close>

section \<open>What the streams show\<close>

definition targets_in :: "tee_op list \<Rightarrow> string list" where
  "targets_in ops = concat (map (\<lambda>op. case op of To_target l \<Rightarrow> [l] | _ \<Rightarrow> []) ops)"

lemma targets_in_simps [simp]:
  "targets_in [] = []" "targets_in (op # ops) = (case op of To_target l \<Rightarrow> [l] | _ \<Rightarrow> []) @ targets_in ops"
  "targets_in (as @ bs) = targets_in as @ targets_in bs"
  by (simp_all add: targets_in_def)

lemma reader_targets:
  "targets_in (reader cfg c lines) = (if stream_of cfg c = None then [] else prefixed cfg lines)"
  by (induction lines) (simp_all add: reader_def line_ops_def Let_def prefixed_def)

text \<open>A channel that has its stream for itself.\<close>

definition sole :: "tee_config \<Rightarrow> channel \<Rightarrow> string \<Rightarrow> bool" where
  "sole cfg c t \<longleftrightarrow> stream_of cfg c = Some t \<and> (\<forall>d. d \<noteq> c \<longrightarrow> stream_of cfg d \<noteq> Some t)"

definition shown_inv :: "tee_config \<Rightarrow> (channel \<Rightarrow> string list) \<Rightarrow> tee \<Rightarrow> bool" where
  "shown_inv cfg lines s \<longleftrightarrow>
     (\<forall>c t. sole cfg c t \<longrightarrow> shown s t @ targets_in (todo s c) = prefixed cfg (lines c)) \<and>
     (\<forall>t. (\<forall>c. stream_of cfg c \<noteq> Some t) \<longrightarrow> shown s t = [])"

lemma shown_inv_start: "shown_inv cfg lines (tee_start cfg lines)"
  by (auto simp: shown_inv_def tee_start_def reader_targets sole_def)

lemma shown_inv_step:
  assumes "tee_step cfg (c, True) s s'" and "shown_inv cfg lines s"
  shows "shown_inv cfg lines s'"
  using assms(1)
proof (rule step_runs)
  fix op ops
  assume s': "s' = do_op cfg c op (s\<lparr>todo := (todo s)(c := ops)\<rparr>)" and t: "todo s c = op # ops"
  have "shown s' u @ targets_in (todo s' d) = shown s u @ targets_in (todo s d)" if "sole cfg d u" for d u
    using s' t that by (cases op; cases "d = c") (auto simp: sole_def split: option.splits)
  moreover have "shown s' u = shown s u" if "\<forall>d. stream_of cfg d \<noteq> Some u" for u
    using s' t that by (cases op) (auto split: option.splits)
  ultimately show ?thesis using assms(2) unfolding shown_inv_def by simp
qed

lemma shown_inv_run:
  "tee_run cfg ls s s' \<Longrightarrow> list_all snd ls \<Longrightarrow> shown_inv cfg lines s \<Longrightarrow> shown_inv cfg lines s'"
proof (induction rule: tee_run.induct)
  case (Step l s s' ls s'')
  then show ?case using shown_inv_step[of cfg "fst l" s s' lines] by (cases l) auto
qed

lemma tee_shows:
  assumes "tee_run cfg sched (tee_start cfg lines) s" and "list_all snd sched" and "joined s"
  shows "sole cfg c t \<Longrightarrow> shown s t = prefixed cfg (lines c)"
    and "(\<And>c. stream_of cfg c \<noteq> Some t) \<Longrightarrow> shown s t = []"
proof -
  have i: "shown_inv cfg lines s" by (rule shown_inv_run[OF assms(1,2) shown_inv_start])
  have "todo s c = []" using assms(3) by (cases c) (simp_all add: joined_def)
  then show "sole cfg c t \<Longrightarrow> shown s t = prefixed cfg (lines c)" using i unfolding shown_inv_def by fastforce
  show "(\<And>c. stream_of cfg c \<noteq> Some t) \<Longrightarrow> shown s t = []" using i unfolding shown_inv_def by blast
qed

section \<open>The two processes of a build\<close>

definition build_prefix :: "nat \<Rightarrow> string" where
  "build_prefix i = ''['' @ dec_of_nat i @ ''] ''"

definition build_tee :: "bool \<Rightarrow> nat \<Rightarrow> tee_config" where
  "build_tee quiet i =
     \<lparr>output_prefix = build_prefix i,
      stream_of = (\<lambda>c. Some (if quiet then ''/dev/null'' else case c of Out \<Rightarrow> ''stdout'' | Err \<Rightarrow> ''stderr'')),
      log_file = True\<rparr>"

text \<open>\<open>_flash\<close> gives no \<open>stderr\<close>, so that \<open>TeePopen\<close> takes its default, that of the process.\<close>

definition flash_tee :: "bool \<Rightarrow> nat \<Rightarrow> tee_config" where
  "flash_tee quiet i =
     \<lparr>output_prefix = build_prefix i,
      stream_of = (\<lambda>c. case c of Out \<Rightarrow> if quiet then None else Some ''stdout'' | Err \<Rightarrow> Some ''stderr''),
      log_file = True\<rparr>"

text \<open>The log file, which is moved to the build directory, and the messages of \<open>_build\<close> and \<open>_flash\<close>.\<close>

definition log_text :: "tee \<Rightarrow> string" where
  "log_text s = concat (logged s)"

definition failed_log :: "bool \<Rightarrow> tee \<Rightarrow> int \<Rightarrow> (severity \<times> string) list" where
  "failed_log quiet s rc = (if rc \<noteq> 0 \<and> quiet then [(Warning, log_text s)] else [])"

definition build_messages ::
  "build_env \<Rightarrow> bool \<Rightarrow> nat \<Rightarrow> string \<Rightarrow> string \<Rightarrow> string list \<Rightarrow> tee \<Rightarrow> int \<Rightarrow> (severity \<times> string) list"
where
  "build_messages env quiet i name dir command s rc =
     (let (msg, ok) = build_verdict env dir rc in
      [(Info, build_prefix i @ ''Building for '' @ name @ '' with command: '' @ py_join '' '' command)] @
      failed_log quiet s rc @
      [(if ok then Info else Error_message, build_prefix i @ msg)])"

definition flash_messages ::
  "bool \<Rightarrow> nat \<Rightarrow> string \<Rightarrow> string list \<Rightarrow> tee \<Rightarrow> int \<Rightarrow> (severity \<times> string) list"
where
  "flash_messages quiet i dir args s rc =
     [(Info, build_prefix i @ ''Flashing with command: '' @ py_join '' '' (flash_command dir args))] @
     (if rc \<noteq> 0
      then (Error_message, build_prefix i @ ''Flashing failed for build dir: '' @ dir @ '' See log in '' @ path_join dir ''flash.log'')
        # failed_log quiet s rc
      else [(Info, build_prefix i @ ''Flashing succeeded for build dir: '' @ dir)])"

lemma sole_streams:
  "sole (build_tee False i) Out ''stdout''" "sole (build_tee False i) Err ''stderr''"
  "sole (flash_tee False i) Out ''stdout''" "sole (flash_tee quiet i) Err ''stderr''"
  by (auto simp: sole_def build_tee_def flash_tee_def split: channel.splits)

lemma quiet_streams:
  "stream_of (build_tee True i) c \<noteq> Some ''stdout''" "stream_of (build_tee True i) c \<noteq> Some ''stderr''"
  "stream_of (flash_tee True i) c \<noteq> Some ''stdout''"
  by (auto simp: build_tee_def flash_tee_def split: channel.splits)

text \<open>What a failed process wrote is shown to the user: on the console, or with \<open>--quiet\<close> from the log.\<close>

lemma build_warnings:
  "(Warning, t) \<in> set (build_messages env quiet i name dir command s rc) \<longleftrightarrow> rc \<noteq> 0 \<and> quiet \<and> t = log_text s"
  by (cases "build_verdict env dir rc"; cases "snd (build_verdict env dir rc)")
    (auto simp: build_messages_def failed_log_def)

lemma flash_warnings:
  "(Warning, t) \<in> set (flash_messages quiet i dir args s rc) \<longleftrightarrow> rc \<noteq> 0 \<and> quiet \<and> t = log_text s"
  by (auto simp: flash_messages_def failed_log_def)

section \<open>Properties\<close>

text \<open>
  C35. The output of a build is kept, and shown as \<open>--quiet\<close> says.  Whatever the interleaving of the two
  reader threads, when the wait for \<open>west build\<close> returns after a run in which no write raised, it returns the exit code;
  the log file holds the lines of both pipes, each under the number of the build and in the order of its pipe.
  Without \<open>--quiet\<close> standard output and standard error show exactly the lines of their own pipe.  With it the
  build shows nothing while it runs, but the whole log when it failed.
\<close>

theorem build_output_kept:
  assumes "tee_run (build_tee quiet i) sched (tee_start (build_tee quiet i) lines) s" and "list_all snd sched"
    and "tee_wait (Some s) rc = Some r"
  shows "r = Inr rc \<and>
    logged s \<in> shuffles (map (\<lambda>l. build_prefix i @ l) (lines Out)) (map (\<lambda>l. build_prefix i @ l) (lines Err)) \<and>
    (\<not> quiet \<longrightarrow> shown s ''stdout'' = map (\<lambda>l. build_prefix i @ l) (lines Out) \<and>
       shown s ''stderr'' = map (\<lambda>l. build_prefix i @ l) (lines Err)) \<and>
    (quiet \<longrightarrow> shown s ''stdout'' = [] \<and> shown s ''stderr'' = [] \<and>
       (rc \<noteq> 0 \<longleftrightarrow> (Warning, concat (logged s)) \<in> set (build_messages env quiet i name dir command s rc)))"
proof -
  have p: "prefixed (build_tee q i) ls = map (\<lambda>l. build_prefix i @ l) ls" for q ls
    by (simp add: prefixed_def build_tee_def)
  have log: "log_file (build_tee quiet i)" by (simp add: build_tee_def)
  have j: "joined s" using assms(3) by (auto simp: tee_wait_def split: if_splits)
  note vis = tee_shows[OF assms(1,2) j]
  have "\<not> quiet \<Longrightarrow> shown s ''stdout'' = map (\<lambda>l. build_prefix i @ l) (lines Out) \<and>
      shown s ''stderr'' = map (\<lambda>l. build_prefix i @ l) (lines Err)"
    using vis(1)[of Out "''stdout''"] vis(1)[of Err "''stderr''"] sole_streams(1,2) by (simp add: p)
  moreover have "quiet \<Longrightarrow> shown s ''stdout'' = [] \<and> shown s ''stderr'' = []"
    using vis(2)[of "''stdout''"] vis(2)[of "''stderr''"] quiet_streams(1,2) by simp
  moreover have "quiet \<Longrightarrow> rc \<noteq> 0 \<longleftrightarrow> (Warning, concat (logged s)) \<in> set (build_messages env quiet i name dir command s rc)"
    by (simp add: build_warnings log_text_def)
  ultimately show ?thesis
    using tee_complete[OF assms] log by (simp add: p)
qed

definition sample_schedule :: "channel list" where
  "sample_schedule = [Err, Out, Out, Err, Err, Out, Err, Out]"

definition sample_quiet_end :: tee where
  "sample_quiet_end = run_schedule (build_tee True 2) sample_schedule (tee_start (build_tee True 2) sample_pipes)"

theorem build_output_kept_witness:
  "tee_wait (Some sample_quiet_end) 1 = Some (Inr 1) \<and> shown sample_quiet_end ''stdout'' = [] \<and>
   (Warning, concat (logged sample_quiet_end)) \<in>
     set (build_messages sample_build_env True 2 ''left'' ''/w/build/left'' [''west'', ''build''] sample_quiet_end 1)"
proof -
  obtain k where k: "tee_run (build_tee True 2) (map (\<lambda>c. (c, True)) (take k sample_schedule))
      (tee_start (build_tee True 2) sample_pipes) sample_quiet_end"
    using run_schedule_runs unfolding sample_quiet_end_def by blast
  have w: "tee_wait (Some sample_quiet_end) 1 = Some (Inr 1)"
    by (simp add: sample_quiet_end_def sample_schedule_def tee_start_def build_tee_def sample_pipes_def reader_def
        line_ops_def Let_def tee_wait_def joined_def)
  have "list_all snd (map (\<lambda>c. (c, True)) (take k sample_schedule))" by (simp add: list_all_iff)
  from build_output_kept[OF k this w, of sample_build_env "''left''" "''/w/build/left''" "[''west'', ''build'']"]
  show ?thesis using w by simp
qed

text \<open>A flash under \<open>--quiet\<close> hides only standard output: what the process writes to standard error is shown
  as it runs, and once more in the log when the flash fails.\<close>

lemma quiet_flash_shows_stderr:
  assumes "tee_run (flash_tee True i) sched (tee_start (flash_tee True i) lines) s" and "list_all snd sched"
    and "joined s"
  shows "shown s ''stdout'' = [] \<and> shown s ''stderr'' = map (\<lambda>l. build_prefix i @ l) (lines Err)"
  using tee_shows(1)[OF assms, of Err "''stderr''"] tee_shows(2)[OF assms, of "''stdout''"]
    sole_streams(4)[of True] quiet_streams(3)
  by (simp add: prefixed_def flash_tee_def)

end
