(* ===== verification/Renode_Monitor.thy ===== *)
theory Renode_Monitor
  imports Effects
begin

text \<open>
  \<open>MonitorConnection\<close> of \<open>scripts/lib/renode/renode_harness.py\<close>: commands are text lines, a reply is what
  arrives until the socket has been silent for its timeout.  What the \<open>recv\<close> calls will give is a list of
  arrivals: bytes (none when the peer has closed, from then on), a pause that is long enough to time out, or an
  \<open>OSError\<close>; after its end there is silence.  \<open>answer sent later\<close> is what \<open>sendall\<close> gives after the
  lines \<open>sent\<close>, the arrivals \<open>later\<close> being still to come: the arrivals from then on, or an error.
\<close>

section \<open>The connection\<close>

datatype arrival = Data "byte list" | Pause | Failure string

record monitor =
  inbox :: "arrival list"
  sent :: "string list"
  opened :: bool

fun mon_drain :: "arrival list \<Rightarrow> byte list result \<times> arrival list" where
  "mon_drain [] = (Inr [], [])"
| "mon_drain (Pause # as) = (Inr [], as)"
| "mon_drain (Failure m # as) = (Inl (OSError m), as)"
| "mon_drain (Data chunk # as) =
     (if chunk = [] then (Inr [], Data chunk # as)
      else (case mon_drain as of
              (Inr data, rest) \<Rightarrow> (Inr (chunk @ data), rest)
            | (Inl e, rest) \<Rightarrow> (Inl e, rest)))"

text \<open>\<open>__init__\<close>: connect, then drop the greeting; an error of the drain leaves a connection that nobody closes.\<close>

definition mon_connect :: "arrival list result \<Rightarrow> unit result \<times> monitor option" where
  "mon_connect connection =
     (case connection of
        Inl e \<Rightarrow> (Inl e, None)
      | Inr as \<Rightarrow>
          (case mon_drain as of (r, rest) \<Rightarrow>
             (map_sum id (\<lambda>_. ()) r, Some \<lparr>inbox = rest, sent = [], opened = True\<rparr>)))"

text \<open>What \<open>recv\<close> raises on a closed socket.\<close>

definition bad_socket :: exn where
  [simp]: "bad_socket = OSError ''Bad file descriptor''"

text \<open>\<open>execute\<close>; the settling time passes between the command and the reads, and \<open>decode\<close> never raises.\<close>

definition mon_execute ::
  "(string list \<Rightarrow> arrival list \<Rightarrow> arrival list result) \<Rightarrow> (byte list \<Rightarrow> string) \<Rightarrow> string \<Rightarrow> monitor \<Rightarrow> string result \<times> monitor"
where
  "mon_execute answer decode command m =
     (if \<not> opened m then (Inl bad_socket, m)
      else
        case mon_drain (inbox m) of
          (Inl e, rest) \<Rightarrow> (Inl e, m\<lparr>inbox := rest\<rparr>)
        | (Inr _, rest) \<Rightarrow>
            (let lines = sent m @ [command @ [lf]] in
             case answer lines rest of
               Inl e \<Rightarrow> (Inl e, m\<lparr>inbox := rest\<rparr>)
             | Inr as \<Rightarrow>
                 (case mon_drain as of
                    (r, rest') \<Rightarrow> (map_sum id decode r, m\<lparr>inbox := rest', sent := lines\<rparr>))))"

definition mon_close :: "unit result \<Rightarrow> monitor \<Rightarrow> unit result \<times> monitor" where
  "mon_close outcome m =
     (case outcome of
        Inl e \<Rightarrow> (if os_error e then Inr () else Inl e, m\<lparr>opened := False\<rparr>)
      | Inr u \<Rightarrow> (Inr u, m\<lparr>opened := False\<rparr>))"

text \<open>The commands of a session, one after the other, up to the first error.\<close>

fun mon_session ::
  "(string list \<Rightarrow> arrival list \<Rightarrow> arrival list result) \<Rightarrow> (byte list \<Rightarrow> string) \<Rightarrow> string list \<Rightarrow> monitor \<Rightarrow>
     string list result \<times> monitor"
where
  "mon_session answer decode [] m = (Inr [], m)"
| "mon_session answer decode (c # cs) m =
     (case mon_execute answer decode c m of
        (Inl e, m') \<Rightarrow> (Inl e, m')
      | (Inr reply, m') \<Rightarrow>
          (case mon_session answer decode cs m' of
             (Inl e, m'') \<Rightarrow> (Inl e, m'')
           | (Inr replies, m'') \<Rightarrow> (Inr (reply # replies), m'')))"

section \<open>Bursts\<close>

text \<open>Output without a long pause in it, and what a drain makes of it.\<close>

definition burst :: "byte list list \<Rightarrow> arrival list" where
  "burst chunks = map Data chunks @ [Pause]"

lemma drain_burst: "[] \<notin> set chunks \<Longrightarrow> mon_drain (burst chunks @ as) = (Inr (concat chunks), as)"
  unfolding burst_def by (induction chunks) auto

text \<open>Every drain comes back: it takes a part of the arrivals, and what it returns is what it took.\<close>

fun data_of :: "arrival \<Rightarrow> byte list" where
  "data_of (Data chunk) = chunk"
| "data_of _ = []"

lemma mon_drain_takes:
  "mon_drain as = (r, rest) \<Longrightarrow> \<exists>taken. as = taken @ rest \<and> (\<forall>data. r = Inr data \<longrightarrow> data = concat (map data_of taken))"
proof (induction as arbitrary: r rest)
  case (Cons a as)
  show ?case
  proof (cases a)
    case (Data chunk)
    show ?thesis
    proof (cases "chunk = []")
      case True
      with Cons.prems Data show ?thesis by (intro exI[of _ "[]"]) auto
    next
      case False
      obtain r' where d: "mon_drain as = (r', rest)"
        using Cons.prems Data False by (cases "mon_drain as") (auto split: sum.splits)
      obtain taken where t: "as = taken @ rest" "\<And>data. r' = Inr data \<Longrightarrow> data = concat (map data_of taken)"
        using Cons.IH[OF d] by blast
      have "data = concat (map data_of (a # taken))" if "r = Inr data" for data
        using Cons.prems Data False d t(2) that by (cases r') auto
      with t(1) Data show ?thesis by (intro exI[of _ "a # taken"]) simp
    qed
  next
    case Pause
    with Cons.prems show ?thesis by (intro exI[of _ "[a]"]) auto
  next
    case (Failure m)
    with Cons.prems show ?thesis by (intro exI[of _ "[a]"]) auto
  qed
qed simp

text \<open>Whatever the peer does, a reply is made of what arrived after its command was sent, and all of it.\<close>

lemma execute_sound:
  assumes "mon_execute answer decode command m = (Inr reply, m')"
  shows "sent m' = sent m @ [command @ [lf]] \<and>
    (\<exists>later as taken. answer (sent m') later = Inr as \<and> as = taken @ inbox m' \<and>
       reply = decode (concat (map data_of taken)))"
proof -
  have o: "opened m" using assms by (auto simp: mon_execute_def split: if_splits)
  then obtain old rest where old: "mon_drain (inbox m) = (Inr old, rest)"
    using assms by (cases "mon_drain (inbox m)") (auto simp: mon_execute_def split: sum.splits)
  let ?lines = "sent m @ [command @ [lf]]"
  obtain as where as: "answer ?lines rest = Inr as"
    using assms o old by (cases "answer ?lines rest") (auto simp: mon_execute_def)
  obtain data rest' where d: "mon_drain as = (Inr data, rest')" "reply = decode data"
    "m' = m\<lparr>inbox := rest', sent := ?lines\<rparr>"
    using assms o old as by (auto simp: mon_execute_def split: prod.splits)
      (metis map_sum.simps(1) obj_sumE sum.distinct(1) sum.inject(2) map_sum.simps(2))
  obtain taken where "as = taken @ rest'" "data = concat (map data_of taken)"
    using mon_drain_takes[OF d(1)] by blast
  with as d show ?thesis by (intro conjI exI[of _ rest] exI[of _ as] exI[of _ taken]) simp_all
qed

text \<open>
  A peer that answers every line with one burst, after which one more burst of other output may follow: the
  reply to a line after the lines before it is the text of \<open>output\<close>.
\<close>

definition answers ::
  "(string list \<Rightarrow> arrival list \<Rightarrow> arrival list result) \<Rightarrow> (string list \<Rightarrow> byte list) \<Rightarrow> bool"
where
  "answers answer output \<longleftrightarrow>
     (\<forall>lines. \<exists>chunks other. answer lines [] = Inr (burst chunks @ (if other = [] then [] else burst other)) \<and>
        [] \<notin> set chunks \<and> [] \<notin> set other \<and> concat chunks = output lines)"

definition settled :: "monitor \<Rightarrow> bool" where
  "settled m \<longleftrightarrow> (\<exists>chunks. [] \<notin> set chunks \<and> (inbox m = [] \<or> inbox m = burst chunks))"

lemma settled_drains: "settled m \<Longrightarrow> \<exists>data. mon_drain (inbox m) = (Inr data, [])"
  unfolding settled_def using drain_burst[of _ "[]"] by auto

lemma execute_answered:
  assumes "answers answer output" and "settled m" and "opened m"
  shows "\<exists>m'. mon_execute answer decode c m = (Inr (decode (output (sent m @ [c @ [lf]]))), m') \<and> settled m' \<and>
    sent m' = sent m @ [c @ [lf]] \<and> opened m' = opened m"
proof -
  obtain old where old: "mon_drain (inbox m) = (Inr old, [])" using settled_drains[OF assms(2)] by blast
  let ?lines = "sent m @ [c @ [lf]]"
  obtain chunks other where a: "answer ?lines [] = Inr (burst chunks @ (if other = [] then [] else burst other))"
    "[] \<notin> set chunks" "[] \<notin> set other" "concat chunks = output ?lines"
    using assms(1) unfolding answers_def by blast
  let ?rest = "if other = [] then [] else burst other"
  have "mon_execute answer decode c m = (Inr (decode (output ?lines)), m\<lparr>inbox := ?rest, sent := ?lines\<rparr>)"
    unfolding mon_execute_def old by (simp add: Let_def assms(3) a(1) drain_burst[OF a(2)] a(4))
  then show ?thesis using a(3) by (auto simp: settled_def)
qed

text \<open>The lines that a session has sent before its k-th reply, \<open>before\<close> being those of earlier sessions.\<close>

definition lines_up_to :: "string list \<Rightarrow> string list \<Rightarrow> nat \<Rightarrow> string list" where
  "lines_up_to before cs k = before @ map (\<lambda>c. c @ [lf]) (take (Suc k) cs)"

text \<open>The connection raises only what the system calls raise: what the scripts over effects assume of a command.\<close>

lemma mon_drain_os: "fst (mon_drain as) = Inl e \<Longrightarrow> os_error e"
  by (induction as rule: mon_drain.induct) (auto split: prod.splits sum.splits if_splits)

lemma mon_execute_os:
  assumes "\<And>lines later e. answer lines later = Inl e \<Longrightarrow> os_error e"
    and "fst (mon_execute answer decode c m) = Inl e"
  shows "os_error e"
proof (cases "opened m")
  case False
  with assms(2) show ?thesis by (auto simp: mon_execute_def)
next
  case o: True
  obtain r rest where d: "mon_drain (inbox m) = (r, rest)" by fastforce
  show ?thesis
  proof (cases r)
    case (Inl x)
    with assms(2) d mon_drain_os[of "inbox m" x] show ?thesis by (simp add: mon_execute_def o)
  next
    case (Inr old)
    show ?thesis
    proof (cases "answer (sent m @ [c @ [lf]]) rest")
      case (Inl x)
      with assms d Inr show ?thesis by (simp add: mon_execute_def o)
    next
      case as: (Inr as)
      obtain q rest' where q: "mon_drain as = (q, rest')" by fastforce
      with assms(2) d Inr as have "q = Inl e" by (cases q) (simp_all add: mon_execute_def o)
      with q mon_drain_os[of as e] show ?thesis by simp
    qed
  qed
qed

section \<open>Sessions\<close>

text \<open>
  Replies belong to their commands.  When the monitor answers each line with output that has no long
  pause in it, possibly followed by other output, then every command of a session, however long, gets exactly the
  output for its own line: neither the greeting nor anything that arrives after a reply is taken for a later reply.
\<close>

lemma monitor_replies_matched:
  assumes "answers answer output" and "settled m" and "opened m"
  shows "\<exists>m'. mon_session answer decode cs m =
      (Inr (map (\<lambda>k. decode (output (lines_up_to (sent m) cs k))) [0..<length cs]), m') \<and>
    settled m' \<and> sent m' = sent m @ map (\<lambda>c. c @ [lf]) cs"
  using assms(2,3)
proof (induction cs arbitrary: m)
  case (Cons c cs)
  obtain m1 where m1: "mon_execute answer decode c m = (Inr (decode (output (sent m @ [c @ [lf]]))), m1)"
    "settled m1" "sent m1 = sent m @ [c @ [lf]]" "opened m1"
    using execute_answered[OF assms(1) Cons.prems] Cons.prems(2) by blast
  obtain m2 where m2: "mon_session answer decode cs m1 =
      (Inr (map (\<lambda>k. decode (output (lines_up_to (sent m1) cs k))) [0..<length cs]), m2)"
    "settled m2" "sent m2 = sent m1 @ map (\<lambda>c. c @ [lf]) cs"
    using Cons.IH[OF m1(2,4)] by blast
  have "map (\<lambda>k. decode (output (lines_up_to (sent m) (c # cs) k))) [0..<length (c # cs)] =
      decode (output (sent m @ [c @ [lf]])) # map (\<lambda>k. decode (output (lines_up_to (sent m1) cs k))) [0..<length cs]"
    unfolding list.size add_0_right add_Suc_right m1(3) lines_up_to_def
    by (simp add: upt_rec[of 0] map_Suc_upt[symmetric] comp_def del: upt_Suc)
  with m1 m2 show ?case by simp
qed (simp add: lines_up_to_def)

definition sample_output :: "string list \<Rightarrow> byte list" where
  "sample_output lines = 0x3E # replicate (length lines) 0x2A"

definition sample_answer :: "string list \<Rightarrow> arrival list \<Rightarrow> arrival list result" where
  "sample_answer lines later = Inr (later @ burst [[0x3E], replicate (length lines) 0x2A] @ burst [[0x21]])"

lemma sample_answers: "answers (\<lambda>lines. sample_answer (''x'' # lines)) (\<lambda>lines. sample_output (''x'' # lines))"
  unfolding answers_def
proof
  fix lines :: "string list"
  show "\<exists>chunks other. sample_answer (''x'' # lines) [] = Inr (burst chunks @ (if other = [] then [] else burst other)) \<and>
      [] \<notin> set chunks \<and> [] \<notin> set other \<and> concat chunks = sample_output (''x'' # lines)"
    by (intro exI[of _ "[[0x3E], replicate (Suc (length lines)) 0x2A]"] exI[of _ "[[0x21]]"])
      (simp add: sample_answer_def sample_output_def)
qed

lemma sample_session:
  "\<exists>m m'. mon_connect (Inr (burst [[0x52], [0x65]])) = (Inr (), Some m) \<and>
     mon_session (\<lambda>lines. sample_answer (''x'' # lines)) (map (\<lambda>b. char_of (unat b))) [''start'', ''pause''] m =
       (Inr [''>**'', ''>***''], m')"
proof -
  let ?m = "\<lparr>inbox = [], sent = [], opened = True\<rparr>"
  have c: "mon_connect (Inr (burst [[0x52], [0x65]])) = (Inr (), Some ?m)"
    using drain_burst[of "[[0x52], [0x65]]" "[]"] by (simp add: mon_connect_def)
  have m: "settled ?m" unfolding settled_def by (intro exI[of _ "[]"]) simp
  have o: "opened ?m" and l: "length [''start'', ''pause''] = 2" by simp_all
  note replies = monitor_replies_matched[OF sample_answers m o, of "map (\<lambda>b. char_of (unat b))" "[''start'', ''pause'']", unfolded l]
  have out: "map (\<lambda>k. map (\<lambda>b. char_of (unat b)) (sample_output (''x'' # lines_up_to (sent ?m) [''start'', ''pause''] k))) [0..<2] =
      [''>**'', ''>***'']"
    by (simp add: sample_output_def lines_up_to_def upt_rec char_of_def bit_0)
  from replies c show ?thesis unfolding out by blast
qed

text \<open>The limit of the scheme: a second burst after a reply stays in the socket and is returned as the reply to the
  next command, whose own output the command after it then drops or gets.\<close>

lemma second_burst_shifts:
  assumes "answer (sent m @ [c @ [lf]]) (burst [late]) = Inr (burst [late] @ burst [own])"
    and "inbox m = burst [early] @ burst [late]" and "[] \<notin> {early, late, own}" and "opened m"
  shows "fst (mon_execute answer decode c m) = Inr (decode late)"
  using assms drain_burst[of "[early]" "burst [late]"] drain_burst[of "[late]" "burst [own]"]
  by (simp add: mon_execute_def)

end
