(* ===== verification/Monitor_World.thy ===== *)
theory Monitor_World
  imports Renode_Monitor Renode_Harness
begin

text \<open>
  The harness and the smoke checks give commands as effects (\<open>Mon_connect\<close>, \<open>Exec\<close>); this theory puts the
  connection of Renode_Monitor below them.  In \<open>monitor_world\<close> the answers to these effects are computed by
  \<open>MonitorConnection\<close> from what the sockets deliver, all other effects being answered by a world \<open>base\<close>; in
  \<open>command_world\<close> every command is simply answered with its output.
\<close>

section \<open>The world over sockets\<close>

text \<open>
  \<open>dial h port\<close> is what \<open>create_connection\<close> gives after the record \<open>h\<close>.  The connection that the commands use is
  that of the last successful \<open>Mon_connect\<close>; the record is replayed from its end.
\<close>

fun replay ::
  "(fx_record \<Rightarrow> nat \<Rightarrow> arrival list result) \<Rightarrow> (string list \<Rightarrow> arrival list \<Rightarrow> arrival list result) \<Rightarrow>
     (byte list \<Rightarrow> string) \<Rightarrow> monitor \<Rightarrow> fx_record \<Rightarrow> monitor"
where
  "replay dial answer decode m [] = m"
| "replay dial answer decode m ((eff, r) # earlier) =
     (let now = replay dial answer decode m earlier in
      case eff of
        Exec c \<Rightarrow> snd (mon_execute answer decode c now)
      | Mon_connect port \<Rightarrow>
          (case mon_connect (dial (rev earlier) port) of (Inr _, Some new) \<Rightarrow> new | _ \<Rightarrow> now)
      | Mon_close \<Rightarrow> snd (mon_close (map_sum id (\<lambda>_. ()) r) now)
      | _ \<Rightarrow> now)"

definition monitor_after ::
  "(fx_record \<Rightarrow> nat \<Rightarrow> arrival list result) \<Rightarrow> (string list \<Rightarrow> arrival list \<Rightarrow> arrival list result) \<Rightarrow>
     (byte list \<Rightarrow> string) \<Rightarrow> monitor \<Rightarrow> fx_record \<Rightarrow> monitor"
where
  "monitor_after dial answer decode m h = replay dial answer decode m (rev h)"

definition monitor_world ::
  "(fx, string) world \<Rightarrow> (fx_record \<Rightarrow> nat \<Rightarrow> arrival list result) \<Rightarrow>
     (string list \<Rightarrow> arrival list \<Rightarrow> arrival list result) \<Rightarrow> (byte list \<Rightarrow> string) \<Rightarrow> monitor \<Rightarrow> (fx, string) world"
where
  "monitor_world base dial answer decode m h eff =
     (case eff of
        Exec c \<Rightarrow> fst (mon_execute answer decode c (monitor_after dial answer decode m h))
      | Mon_connect port \<Rightarrow> map_sum id (\<lambda>_. []) (fst (mon_connect (dial h port)))
      | _ \<Rightarrow> base h eff)"

section \<open>The abstract world\<close>

text \<open>The lines given since the last successful connection, \<open>before\<close> being those given earlier without one, and
  whether the connection is still open.\<close>

fun lines_since :: "(fx_record \<Rightarrow> nat \<Rightarrow> arrival list result) \<Rightarrow> string list \<times> bool \<Rightarrow> fx_record \<Rightarrow> string list \<times> bool" where
  "lines_since dial before [] = before"
| "lines_since dial before ((eff, r) # earlier) =
     (case lines_since dial before earlier of (lines, is_open) \<Rightarrow>
        case eff of
          Exec c \<Rightarrow> (if is_open then lines @ [c @ [lf]] else lines, is_open)
        | Mon_connect port \<Rightarrow> if is_ok (dial (rev earlier) port) then ([], True) else (lines, is_open)
        | Mon_close \<Rightarrow> (lines, False)
        | _ \<Rightarrow> (lines, is_open))"

definition command_world ::
  "(fx, string) world \<Rightarrow> (fx_record \<Rightarrow> nat \<Rightarrow> arrival list result) \<Rightarrow> (string list \<Rightarrow> byte list) \<Rightarrow>
     (byte list \<Rightarrow> string) \<Rightarrow> string list \<times> bool \<Rightarrow> (fx, string) world"
where
  "command_world base dial output decode before h eff =
     (case eff of
        Exec c \<Rightarrow>
          (case lines_since dial before (rev h) of (lines, is_open) \<Rightarrow>
             if is_open then Inr (decode (output (lines @ [c @ [lf]]))) else Inl bad_socket)
      | Mon_connect port \<Rightarrow> map_sum id (\<lambda>_. []) (dial h port)
      | _ \<Rightarrow> base h eff)"

text \<open>A monitor that greets a client with one burst, if anything.\<close>

definition greets :: "(fx_record \<Rightarrow> nat \<Rightarrow> arrival list result) \<Rightarrow> bool" where
  "greets dial \<longleftrightarrow> (\<forall>h port as. dial h port = Inr as \<longrightarrow> (\<exists>chunks. [] \<notin> set chunks \<and> (as = [] \<or> as = burst chunks)))"

lemma connect_greeted:
  assumes "greets dial"
  shows "mon_connect (dial h port) =
    (case dial h port of Inl e \<Rightarrow> (Inl e, None) | Inr as \<Rightarrow> (Inr (), Some \<lparr>inbox = [], sent = [], opened = True\<rparr>))"
proof (cases "dial h port")
  case (Inr as)
  then obtain chunks where "[] \<notin> set chunks" "as = [] \<or> as = burst chunks" using assms unfolding greets_def by blast
  then show ?thesis using Inr drain_burst[of chunks "[]"] by (auto simp: mon_connect_def)
qed (simp add: mon_connect_def)

lemma settled_fresh: "settled \<lparr>inbox = [], sent = [], opened = b\<rparr>"
  unfolding settled_def by (intro exI[of _ "[]"]) simp

text \<open>The simulation: the connection stays settled, and has sent the lines of the abstract record.\<close>

lemma replay_settled:
  assumes "answers answer output" and "greets dial" and "settled m"
  shows "settled (replay dial answer decode m h) \<and>
    lines_since dial (sent m, opened m) h = (sent (replay dial answer decode m h), opened (replay dial answer decode m h))"
proof (induction h)
  case (Cons er h)
  obtain eff r where er: "er = (eff, r)" by fastforce
  let ?now = "replay dial answer decode m h"
  show ?case
  proof (cases eff)
    case (Exec c)
    show ?thesis
    proof (cases "opened ?now")
      case True
      then obtain m' where "mon_execute answer decode c ?now = (Inr (decode (output (sent ?now @ [c @ [lf]]))), m')"
        "settled m'" "sent m' = sent ?now @ [c @ [lf]]" "opened m'"
        using execute_answered[OF assms(1), of ?now decode c] Cons.IH by blast
      with Exec er Cons.IH True show ?thesis by simp
    next
      case False
      then have "mon_execute answer decode c ?now = (Inl bad_socket, ?now)" by (simp add: mon_execute_def)
      with Exec er Cons.IH False show ?thesis by simp
    qed
  next
    case (Mon_connect port)
    with er Cons.IH connect_greeted[OF assms(2), of "rev h" port] show ?thesis
      by (cases "dial (rev h) port") (simp_all add: Let_def settled_fresh)
  next
    case Mon_close
    with er Cons.IH show ?thesis
      by (cases r) (simp_all add: mon_close_def settled_def)
  qed (use er Cons.IH in simp_all)
qed (use assms(3) in simp)

lemma worlds_equal:
  assumes "answers answer output" and "greets dial" and "settled m"
  shows "monitor_world base dial answer decode m = command_world base dial output decode (sent m, opened m)"
proof (intro ext)
  fix h eff
  let ?now = "monitor_after dial answer decode m h"
  have now: "settled ?now" "lines_since dial (sent m, opened m) (rev h) = (sent ?now, opened ?now)"
    using replay_settled[OF assms] by (simp_all add: monitor_after_def)
  show "monitor_world base dial answer decode m h eff = command_world base dial output decode (sent m, opened m) h eff"
  proof (cases eff)
    case (Exec c)
    show ?thesis
    proof (cases "opened ?now")
      case True
      with execute_answered[OF assms(1) now(1) True, of decode c] now(2) Exec show ?thesis
        by (auto simp: monitor_world_def command_world_def)
    next
      case False
      with now(2) Exec show ?thesis by (simp add: monitor_world_def command_world_def mon_execute_def)
    qed
  next
    case (Mon_connect port)
    with connect_greeted[OF assms(2), of h port] show ?thesis
      by (cases "dial h port") (simp_all add: monitor_world_def command_world_def)
  qed (simp_all add: monitor_world_def command_world_def)
qed

section \<open>Properties\<close>

text \<open>
  C36. The connection implements the effects.  When the monitor greets with one burst and answers each line
  with one burst, possibly followed by another, every script over the effects (every boot, every smoke run)
  behaves over the sockets exactly as it does when each command is answered with its own output, and refused once
  the connection is closed: the same result and
  the same record.  And when the system calls raise only errors of the system, so does this world, as the theorems on
  the scripts assume.
\<close>

theorem monitor_implements_effects:
  assumes "answers answer output" and "greets dial" and "settled m"
    and "os_world base" and "\<forall>h port e. dial h port = Inl e \<longrightarrow> os_error e"
  shows "(script :: 'a fx_act) (monitor_world base dial answer decode m) h =
      script (command_world base dial output decode (sent m, opened m)) h \<and>
    os_world (monitor_world base dial answer decode m)"
proof -
  have "os_world (command_world base dial output decode (sent m, opened m))"
    unfolding os_world_def
  proof (intro allI impI)
    fix h eff e
    assume "command_world base dial output decode (sent m, opened m) h eff = Inl e"
    with assms(4,5) show "os_error e"
      by (cases eff; cases "dial h (case eff of Mon_connect p \<Rightarrow> p | _ \<Rightarrow> 0)")
        (auto simp: command_world_def os_world_def split: prod.splits if_splits)
  qed
  then show ?thesis unfolding worlds_equal[OF assms(1-3)] by blast
qed

theorem monitor_implements_effects_witness:
  "\<exists>h. andthen (perform (Mon_connect 1234)) (\<lambda>_. andthen (perform (Exec ''start'')) (\<lambda>_. perform (Exec ''pause'')))
    (monitor_world (\<lambda>_ _. Inr []) (\<lambda>_ _. Inr (burst [[0x52]])) (\<lambda>lines. sample_answer (''x'' # lines))
      (map (\<lambda>b. char_of (unat b))) \<lparr>inbox = [], sent = [], opened = True\<rparr>) [] = (Inr ''>***'', h)"
proof -
  let ?script = "andthen (perform (Mon_connect 1234)) (\<lambda>_. andthen (perform (Exec ''start'')) (\<lambda>_. perform (Exec ''pause'')))"
  let ?dial = "\<lambda>_ _. Inr (burst [[0x52]])" and ?decode = "map (\<lambda>b. char_of (unat b))"
  have "greets ?dial" unfolding greets_def by (auto intro!: exI[of _ "[[0x52]]"])
  from monitor_implements_effects[OF sample_answers this settled_fresh[of True], of "\<lambda>_ _. Inr []" ?script ?decode "[]"]
  have "?script (monitor_world (\<lambda>_ _. Inr []) ?dial (\<lambda>lines. sample_answer (''x'' # lines)) ?decode \<lparr>inbox = [], sent = [], opened = True\<rparr>) [] =
      ?script (command_world (\<lambda>_ _. Inr []) ?dial (\<lambda>lines. sample_output (''x'' # lines)) ?decode ([], True)) []"
    by (simp add: os_world_def)
  moreover have "\<exists>h. ?script (command_world (\<lambda>_ _. Inr []) ?dial (\<lambda>lines. sample_output (''x'' # lines)) ?decode ([], True)) [] = (Inr ''>***'', h)"
    by (simp add: act_simps andthen_def command_world_def sample_output_def char_of_def bit_0)
  ultimately show ?thesis by metis
qed

end
