(* ===== verification/Rpc_Dump.thy ===== *)
theory Rpc_Dump
  imports Rpc_Framing
begin

text \<open>
  The script part of \<open>scripts/lib/renode/rpc_client.py\<close>: connect, then print every frame that arrives until
  the given time has passed.  Times are those of the clock script; \<open>timeout\<close> is the second that one call waits.
\<close>

lemma read_loop_clock:
  "read_loop d st c = Returned (r, c') \<Longrightarrow> length (clock_reads c') < length (clock_reads c)"
proof (induction "length (clock_reads c)" arbitrary: st c rule: less_induct)
  case less
  then obtain t ts where ck: "clock_reads c = t # ts" by (cases "clock_reads c") (auto simp: read_loop_end)
  show ?case
  proof (cases "t < d")
    case False
    with ck less.prems show ?thesis by (auto simp: read_loop_end)
  next
    case True
    note step = read_loop_step[OF ck True]
    then obtain ob c1 where nb: "next_byte d (c\<lparr>clock_reads := ts\<rparr>) = Returned (ob, c1)"
      using less.prems by (cases "next_byte d (c\<lparr>clock_reads := ts\<rparr>)") auto
    then have len: "length (clock_reads c1) < length (clock_reads c)" using next_byte_clock[OF nb] ck by simp
    show ?thesis
    proof (cases ob)
      case None
      with nb step(1) less.prems less.hyps[OF len] len show ?thesis by fastforce
    next
      case (Some b)
      with nb step(2,3) less.prems less.hyps[OF len] len show ?thesis by (cases "feed st b") fastforce+
    qed
  qed
qed

lemma read_frame_clock:
  "read_frame timeout c = Returned (r, c') \<Longrightarrow> length (clock_reads c') < length (clock_reads c)"
  by (auto simp: read_frame_def split: list.splits dest: read_loop_clock)

text \<open>What was printed, and how the script ends.\<close>

function dump_frames :: "int \<Rightarrow> int \<Rightarrow> conn \<Rightarrow> byte list list \<times> conn reply" where
  "dump_frames timeout end_at c =
     (case clock_reads c of
        [] \<Rightarrow> ([], Ran_out)
      | t # ts \<Rightarrow>
         if \<not> t < end_at then ([], Returned (close_conn (c\<lparr>clock_reads := ts\<rparr>)))
         else (case read_frame timeout (c\<lparr>clock_reads := ts\<rparr>) of
            Ran_out \<Rightarrow> ([], Ran_out)
          | Raised e \<Rightarrow> ([], Raised e)
          | Returned (f, c') \<Rightarrow>
              (case dump_frames timeout end_at c' of
                 (printed, r) \<Rightarrow> ((case f of Some p \<Rightarrow> p # printed | None \<Rightarrow> printed), r))))"
  by pat_completeness auto
termination
  by (relation "measure (\<lambda>(_, _, c). length (clock_reads c))") (auto dest!: read_frame_clock)

declare dump_frames.simps [simp del]

text \<open>\<open>--seconds\<close> after the clock reading that follows the connection.\<close>

definition dump :: "int \<Rightarrow> int \<Rightarrow> conn \<Rightarrow> byte list list \<times> conn reply" where
  "dump timeout seconds c =
     (case clock_reads c of
        [] \<Rightarrow> ([], Ran_out)
      | now # ts \<Rightarrow> dump_frames timeout (now + seconds) (c\<lparr>clock_reads := ts\<rparr>))"

text \<open>The frames of a stream, in order; \<open>used\<close> is what a call that gave up had read.\<close>

inductive yields :: "byte list \<Rightarrow> byte list list \<Rightarrow> bool" where
  Stops: "yields bs []"
| Frame: "decode bs = Some (p, rest) \<Longrightarrow> yields rest ps \<Longrightarrow> yields bs (p # ps)"
| Gives_up: "decode used = None \<Longrightarrow> yields rest ps \<Longrightarrow> yields (used @ rest) ps"

lemma read_frame_yields:
  assumes "read_frame timeout c = Returned (f, c')" and "yields (stream c') ps"
  shows "yields (stream c) (case f of Some p \<Rightarrow> p # ps | None \<Rightarrow> ps)"
proof -
  obtain now ts where "read_loop (now + timeout) rx_start (c\<lparr>clock_reads := ts\<rparr>) = Returned (f, c')"
    using assms(1) by (auto simp: read_frame_def split: list.splits)
  from read_loop_sound[OF this] assms(2) show ?thesis
    by (auto simp: read_sound_def decode_def[symmetric] split: option.splits intro: Frame Gives_up)
qed

lemma dump_frames_yields: "yields (stream c) (fst (dump_frames timeout end_at c))"
proof (induction "length (clock_reads c)" arbitrary: c rule: less_induct)
  case less
  show ?case
  proof (cases "clock_reads c")
    case Nil
    then show ?thesis by (subst dump_frames.simps) (simp add: Stops)
  next
    case (Cons t ts)
    show ?thesis
    proof (cases "\<exists>f c'. t < end_at \<and> read_frame timeout (c\<lparr>clock_reads := ts\<rparr>) = Returned (f, c')")
      case True
      then obtain f c' where f: "t < end_at" "read_frame timeout (c\<lparr>clock_reads := ts\<rparr>) = Returned (f, c')" by blast
      have "yields (stream c') (fst (dump_frames timeout end_at c'))"
        using less[of c'] read_frame_clock[OF f(2)] Cons by simp
      from read_frame_yields[OF f(2) this] show ?thesis
        using Cons f by (subst dump_frames.simps) (auto split: prod.splits option.splits)
    next
      case False
      with Cons show ?thesis
        by (subst dump_frames.simps)
          (cases "read_frame timeout (c\<lparr>clock_reads := ts\<rparr>)"; auto simp: Stops)
    qed
  qed
qed

text \<open>Whatever happens to the connection, the frames printed are those of the bytes received, in order.\<close>

lemma dump_sound: "yields (stream c) (fst (dump timeout seconds c))"
  unfolding dump_def using dump_frames_yields by (cases "clock_reads c") (auto simp: Stops intro: dump_frames_yields[of "c\<lparr>clock_reads := ts\<rparr>" for ts, simplified])

end
