(* ===== verification/Spec2Isabelle.thy ===== *)
theory Spec2Isabelle
  imports Rpc_Framing Hex_Payload Mmio_Models Fake_Ccm Rtt_Capture Link_Axes Build_Matrix Tee_Process
    Renode_Harness Smoke_Checks Ble_Runner Studio_Requests Command_Line Command_Options Thread_Pool Case_Pool
    Build_Output Renode_Monitor Monitor_World Rpc_Dump
begin

text \<open>
  A verification library for \<open>zmk-west-commands\<close>: the west commands that build ZMK firmware
  (\<open>scripts/zmk_build.py\<close>), run its unit tests (\<open>scripts/zmk_test.py\<close>), its BabbleSim tests
  (\<open>scripts/zmk_ble_test.py\<close>) and its Renode smoke tests (\<open>scripts/zmk_renode_test.py\<close>), and the
  libraries under \<open>scripts/lib\<close> that they share.  All of the Python implementation is in scope; the C
  applications, the C# peripherals, the platform descriptions and the continuous integration are not.

  How the program fits together.  A Studio request is written as JSON in a test case, loaded and framed
  by \<open>lib/ble/studio_requests.py\<close>, turned into a C table by \<open>ble-studio-host/hex2inc.py\<close> and sent by a
  host application in the simulation that \<open>lib/ble/runner.py\<close> conducts.  For Renode,
  \<open>lib/renode/renode_harness.py\<close> boots one to three machines whose peripherals are in part the Python
  models under \<open>lib/renode/platforms/models\<close>; \<open>lib/renode/renode_smoke.py\<close> drives them through a
  monitor and through sockets, on which \<open>lib/renode/rpc_client.py\<close> speaks framed Studio RPC.

  Theories and the code they model.

  \<^item> Py_Prelude: Python strings, lines, hexadecimal and decimal texts, paths, exceptions as values
    (\<open>exn\<close>, results \<open>exn + 'a\<close>); the lemmas that every component uses.
  \<^item> Effects: scripts as actions over a world that answers effects, and the record of what they did;
    \<open>attempt\<close> is try/except, \<open>ensure\<close> is try/finally.  \<open>records\<close>, \<open>only\<close> and \<open>leaves\<close> follow the
    record through the combinators.
  \<^item> Rpc_Framing (\<open>rpc_client.py\<close>): framing, the receiver as a state machine, the socket client and its
    deadline (Rpc_Dump: the script that prints frames).  Locales \<open>framed_codec\<close> and \<open>resync_codec\<close> state
    what users of a framing rely on.
  \<^item> Hex_Payload (\<open>studio_requests.py\<close>, \<open>hex2inc.py\<close>): the payload file, its two readers (locale
    \<open>hex_file_reader\<close>, interpreted for both), the C table.
  \<^item> Studio_Json and Studio_Requests (\<open>studio_requests.py\<close>): the expansion of \<open>$type\<close> objects, the
    compilation of the protos, \<open>load_requests_json\<close>, \<open>generator_main\<close>.
  \<^item> Mmio_Models (\<open>usbd_stub.py\<close>, \<open>qspi_stub.py\<close>, \<open>ficr.py\<close>, \<open>nvmc.py\<close>), Fake_Ccm (\<open>ccm.py\<close>) and
    Rtt_Capture (\<open>segger_rtt_writeskip.py\<close>): one step function per peripheral access.
  \<^item> Renode_Harness (\<open>renode_harness.py\<close>): the files of a machine, the session, the boot functions
    (locale \<open>boot_contract\<close>, interpreted for all five), the USB bridge, the remaining helpers.
  \<^item> Renode_Monitor (\<open>renode_harness.py\<close>): the connection to the monitor, whose commands the harness and the
    checks take as effects; Monitor_World puts it below these effects and shows that the scripts do not notice.
  \<^item> Smoke_Checks (\<open>renode_smoke.py\<close>): the checks and the six runs.  Locale \<open>smoke_run\<close> is the contract
    between a boot and the session after it, locale \<open>bounded_retry\<close> that of the retries; each is
    interpreted for every run that it concerns.
  \<^item> Link_Axes (\<open>renode_smoke.py\<close>, \<open>zmk_renode_test.py\<close>): transport axes, the two front ends, module tests.
  \<^item> Build_Matrix (\<open>zmk_build.py\<close>): \<open>build.yaml\<close>, the matrix, names, commands, parallel collection,
    the merged VSCode configurations.
  \<^item> Tee_Process (\<open>tee_popen.py\<close>, \<open>zmk_test.py\<close>): the reader threads as an inductive step relation over all
    interleavings, and the test command.  Build_Output (\<open>zmk_build.py\<close>): what this makes of the output of a build
    and of a flash.
  \<^item> Ble_Runner (\<open>runner.py\<close>, \<open>zmk_ble_test.py\<close>): cases, names, builds, simulation, evaluation.
  \<^item> Command_Line: the \<open>argparse\<close> of CPython 3.11, for the declarations that the repository uses (options with
    one value, any number or at least one, switches, choices, required options, conversions, abbreviated and joined
    flags, trailing positionals, \<open>--\<close>), with the invariant that types a namespace.  Command_Options: the option
    tables of \<open>renode_smoke.py\<close> and of the four west commands, what their handlers read, and
    \<open>renode_smoke.py\<close>, \<open>zmk-renode-test\<close> and \<open>hex2inc.py\<close> from their words to their exit code.
  \<^item> Thread_Pool: \<open>ThreadPoolExecutor\<close>, its workers and the collecting thread, as an inductive step relation over
    all schedules (locale \<open>thread_pool\<close>).  Case_Pool: the cases of \<open>runner.py\<close> (its interpretation) and the
    builds of \<open>zmk_build.py\<close> in such a pool.

  What the lemmas show.  Round trips of every format (frames, payload files, C table, addresses); the
  receiver returns exactly the frames that arrive in time and always returns; the fake CCM restores what it
  encrypted and keeps machines apart; every boot loads the storage before it starts and removes its temporary
  files; every smoke run kills what it started, and passes only if the record shows what the test is for;
  exit codes and verdicts of the commands say what happened; the two front ends of the Renode tests agree,
  also as commands; whatever a command line sets, the handler finds every attribute with its type; cases in parallel
  give, under every schedule, what they give in sequence, and the pool ends; the exit code of parallel builds is right
  for every number of workers and every schedule; no output of a build is lost or attributed to another stream; every
  script over the effects behaves the same over the sockets of the monitor, whose replies belong to their commands.
  The theorem of this theory joins the components on the way from a JSON case to the device.

  Bounds.  A loop with a deadline takes the readings of the clock as a list (Rpc_Framing, with the theorem that
  enough readings make it return) or the number of rounds that the deadline leaves (Renode_Harness,
  Smoke_Checks), and the theorems hold for every number.  The only other bound is that of \<open>drain_frames\<close>, which in
  the code reads until a pause: the model raises when the bound is used up, and the theorems on successful runs
  hold for every bound.  Virtual times are rational numbers where the code has floats.

  Not modelled: help texts, the parser of \<open>west\<close> itself, progress output and diagnostic dumps; \<open>float()\<close> and
  \<open>re.compile\<close> on the words of a command line (parameters); what is behind the effects
  (Renode, BabbleSim, west, protoc, the operating system), of which only documented behaviour is assumed, as
  named hypotheses: the system bus reads back what was written, calls to the operating system raise only
  \<open>OSError\<close> and its subclasses, closing a socket succeeds, a protobuf field reads back as assigned.  Strings are
  over code points below 256.  A case that runs in parallel to others has a world of its own: any answers to its
  effects, in the order of these effects.
\<close>

section \<open>From a JSON case to the device\<close>

text \<open>The conversion that the runner does for a case (\<open>_resolve_studio_requests\<close>): load, then render.\<close>

definition studio_conversion ::
  "host_env \<Rightarrow> 'r protobuf proto_env \<Rightarrow> (string \<Rightarrow> json result) \<Rightarrow> string \<Rightarrow> string option \<Rightarrow> string result"
where
  "studio_conversion env pe read path modl =
     bind_result (load_requests_json env pe read path modl) (\<lambda>named.
     bind_result (load_workspace_studio_pb2 env pe) (\<lambda>pb. Inr (render_hex (serialize pb) named)))"

text \<open>The names of the subsystems are identifiers.\<close>

definition plain_subsystems :: "'r protobuf \<Rightarrow> bool" where
  "plain_subsystems pb \<longleftrightarrow> (\<forall>r s. subsystem pb r = Some s \<longrightarrow> unbroken s)"

lemma unbroken_request_name: "plain_subsystems pb \<Longrightarrow> unbroken (request_name pb r)"
proof -
  assume p: "plain_subsystems pb"
  have "unbroken ''request_id=''" "unbroken '' (''" "unbroken '')''" "unbroken ''empty''" by (simp_all add: line_break_def)
  then show ?thesis
    unfolding request_name_def using p[unfolded plain_subsystems_def] by (simp only: list_all_append unbroken_dec split: option.split) blast
qed

lemma loaded_named:
  "loaded_as pb i j e \<Longrightarrow> Named (request_name pb (entry_request e)) (entry_request e) = e"
  by (auto simp: loaded_as_def)

lemma loaded_names:
  assumes "plain_subsystems pb" and "length named = length entries"
    and "\<forall>i < length entries. loaded_as pb i (entries ! i) (named ! i)"
  shows "list_all (\<lambda>(n, r). unbroken n) (normalize named)"
proof -
  have "e \<in> set named \<Longrightarrow> \<exists>r. e = Named (request_name pb r) r" for e
    using assms(2,3) by (auto simp: in_set_conv_nth loaded_as_def)
  moreover have "\<forall>e \<in> set es. \<exists>r. e = Named (request_name pb r) r \<Longrightarrow>
      list_all (\<lambda>(n, r). unbroken n) (normalize_from i es)" for i es
    by (induction es arbitrary: i) (auto simp: unbroken_request_name[OF assms(1)])
  ultimately show ?thesis unfolding normalize_def by blast
qed

lemma hex2inc_of_rendered:
  assumes "list_all (\<lambda>(n, r). unbroken n) (normalize es)"
  shows "hex2inc_parse_hex_file src (render_hex ser es) = Inr (map (\<lambda>e. frame (ser (entry_request e))) es)"
  using render_hex_parses[OF assms, of ser]
  unfolding hex2inc_parse_hex_file_def parse_hex_file_def by (simp add: hex2inc.read_Inr_iff requests.read_Inr_iff)

lemma converted_requests:
  assumes "load_workspace_studio_pb2 env pe = Inr pb" and "keeps_ids pb" and "plain_subsystems pb"
    and "read path = Inr data" and "studio_conversion env pe read path modl = Inr content"
    and "hex2inc_main src source_name content = Inr c_file" and "unbroken source_name"
  shows "\<exists>entries payloads reqs. data = JList entries \<and> table_payloads c_file = map Some payloads \<and>
    take_messages decode (length entries) (concat payloads) = Some (map (serialize pb) reqs, []) \<and>
    length reqs = length entries \<and>
    (\<forall>i < length entries. loaded_as pb i (entries ! i) (Named (request_name pb (reqs ! i)) (reqs ! i)))"
proof -
  obtain named where n: "load_data pb path data = Inr named" and t: "content = render_hex (serialize pb) named"
    using assms(1,4,5) by (auto simp: studio_conversion_def load_requests_json_def bind_result_Inr_iff)
  obtain entries where e: "data = JList entries" "length named = length entries"
    "\<forall>i < length entries. loaded_as pb i (entries ! i) (named ! i)"
    using load_data_Inr[OF assms(2) n] by blast
  let ?reqs = "map entry_request named" and ?payloads = "map (\<lambda>e. frame (serialize pb (entry_request e))) named"
  have "hex2inc_parse_hex_file src content = Inr ?payloads"
    unfolding t by (rule hex2inc_of_rendered[OF loaded_names[OF assms(3) e(2,3)]])
  then have "c_file = render ?payloads source_name" using assms(6) by (auto simp: hex2inc_main_def split: if_splits)
  then have tab: "table_payloads c_file = map Some ?payloads" by (simp only: table_of_render[OF assms(7)])
  have "take_messages decode (length (map (serialize pb) ?reqs)) (concat (map frame (map (serialize pb) ?reqs)) @ [])
      = Some (map (serialize pb) ?reqs, [])" by (rule studio.take_messages_concat)
  then have dec: "take_messages decode (length entries) (concat ?payloads) = Some (map (serialize pb) ?reqs, [])"
    using e(2) by (simp add: comp_def)
  have "loaded_as pb i (entries ! i) (Named (request_name pb (?reqs ! i)) (?reqs ! i))" if "i < length entries" for i
    using e(3)[rule_format, OF that] e(2) that by (simp add: loaded_named)
  with e tab dec show ?thesis by (intro exI[of _ entries] exI[of _ ?payloads] exI[of _ ?reqs]) simp
qed

text \<open>
  C1. The requests of a JSON case reach the device.  When a case file is converted, and \<open>hex2inc.py\<close> is run on
  the payload file and exits with 0, then it has written a C file to the path given, the case file is an array, and the
  bytes that the C table holds, sent one after another, decode on the receiving side to exactly one message for each
  element of the array, in order: the serialised request that the element stands for, under a request id that is not 0.
\<close>

theorem json_requests_reach_device:
  assumes "load_workspace_studio_pb2 env pe = Inr pb" and "keeps_ids pb" and "plain_subsystems pb"
    and "read path = Inr data" and "studio_conversion env pe read path modl = Inr content"
    and "read_text (py_path hex_path) = Inr content" and "unbroken (path_name (py_path hex_path))"
    and "hex2inc_process read_text [prog, hex_path, inc_path] = Inr (0, written)"
  shows "\<exists>c_file entries payloads reqs. written = Some (py_path inc_path, c_file) \<and> data = JList entries \<and>
    table_payloads c_file = map Some payloads \<and>
    take_messages decode (length entries) (concat payloads) = Some (map (serialize pb) reqs, []) \<and>
    length reqs = length entries \<and>
    (\<forall>i < length entries. loaded_as pb i (entries ! i) (Named (request_name pb (reqs ! i)) (reqs ! i)))"
proof -
  obtain c_file where c: "hex2inc_main (py_path hex_path) (path_name (py_path hex_path)) content = Inr c_file"
    "written = Some (py_path inc_path, c_file)"
    using assms(6,8) by (auto simp: hex2inc_process_def Let_def bind_result_Inr_iff)
  with converted_requests[OF assms(1-5) c(1) assms(7)] show ?thesis by blast
qed

definition sample_case :: json where
  "sample_case = JList [toy_request, JDict [(''requestId'', JInt 7)]]"

lemma sample_converts:
  "\<exists>c_file. bind_result (studio_conversion toy_host toy_protos (\<lambda>_. Inr sample_case) ''/r.json'' None)
     (hex2inc_main ''/r.hex'' ''r.hex'') = Inr c_file"
proof -
  let ?es = "[Named ''request_id=1 (keymap)'' (1 :: nat, ''/w==''), Named ''request_id=7 (empty)'' (7, [])]"
  have "list_all (\<lambda>(n, r). unbroken n) (normalize ?es)" by (simp add: normalize_def line_break_def)
  from hex2inc_of_rendered[OF this] show ?thesis
    using toy_loads by (simp add: studio_conversion_def sample_case_def toy_studio hex2inc_main_def)
qed

lemma sample_hex_path: "py_path ''/r.hex'' = ''/r.hex''" "path_name ''/r.hex'' = ''r.hex''"
  by (simp_all add: py_path_def prefix_def path_name_def path_parts_def)

theorem json_requests_reach_device_witness:
  "\<exists>content c_file payloads reqs.
     hex2inc_process (\<lambda>_. Inr content) [''hex2inc.py'', ''/r.hex'', ''/b/r.inc''] = Inr (0, Some (py_path ''/b/r.inc'', c_file)) \<and>
     table_payloads c_file = map Some payloads \<and>
     take_messages decode 2 (concat payloads) = Some (map (serialize toy_protobuf) reqs, []) \<and>
     loaded_as toy_protobuf 0 toy_request (Named (request_name toy_protobuf (reqs ! 0)) (reqs ! 0))"
proof -
  obtain content c_file where t: "studio_conversion toy_host toy_protos (\<lambda>_. Inr sample_case) ''/r.json'' None = Inr content"
    and c: "hex2inc_main ''/r.hex'' ''r.hex'' content = Inr c_file"
    using sample_converts by (auto simp: bind_result_Inr_iff)
  have p: "hex2inc_process (\<lambda>_. Inr content) [''hex2inc.py'', ''/r.hex'', ''/b/r.inc''] = Inr (0, Some (py_path ''/b/r.inc'', c_file))"
    using c by (simp add: hex2inc_process_def sample_hex_path)
  have "plain_subsystems toy_protobuf" by (simp add: plain_subsystems_def toy_protobuf_def line_break_def)
  moreover have "unbroken (path_name (py_path ''/r.hex''))" by (simp add: sample_hex_path line_break_def)
  ultimately obtain payloads reqs where "table_payloads c_file = map Some payloads"
    "take_messages decode (length [toy_request, JDict [(''requestId'', JInt 7)]]) (concat payloads) = Some (map (serialize toy_protobuf) reqs, [])"
    "loaded_as toy_protobuf 0 toy_request (Named (request_name toy_protobuf (reqs ! 0)) (reqs ! 0))"
    using json_requests_reach_device[OF toy_studio toy_keeps_ids _ refl t refl _ p] by (fastforce simp: sample_case_def)
  with p show ?thesis by (intro exI conjI) (simp_all only: list.size numeral_2_eq_2 One_nat_def add_0 add_Suc_right add_0_right)
qed

end
